(* ===== verification/Prelude.thy ===== *)
theory Prelude
  imports Main "HOL-Library.List_Lexorder" "HOL-Library.Char_ord" "HOL-Library.AList"
begin

text \<open>
  Shared vocabulary of the Registry development.

  \<^item> Fallible Rust code (\<open>anyhow::Result\<close>) is the sum type \<open>result\<close>; the combinators \<open>ensure\<close>,
    \<open>and_then\<close>, \<open>option_context\<close>, \<open>try_map\<close>, \<open>try_each\<close> and \<open>try_fold\<close> are the shapes in which the
    code returns early. Their inversion rules are collected in \<open>result_simps\<close>.
  \<^item> Strings are byte lists, as Rust's UTF-8 strings are compared, ordered and measured by bytes.
  \<^item> \<open>BTreeMap\<close> and \<open>BTreeSet\<close> are key-sorted association lists and sorted distinct lists, so that
    their iteration order is the order in which the code visits them.
\<close>

section \<open>Results\<close>

text \<open>
  An error carries its \<open>anyhow\<close> message; errors that the serde library words itself are
  kept apart, since their text is not the repository's.
\<close>

datatype error = Message string | Deserialization

type_synonym 'a result = "error + 'a"

named_theorems result_simps

definition bail :: "string \<Rightarrow> 'a result" where
  "bail msg = Inl (Message msg)"

definition ensure :: "bool \<Rightarrow> string \<Rightarrow> 'a result \<Rightarrow> 'a result" where
  "ensure c msg k = (if c then k else bail msg)"

definition and_then :: "'a result \<Rightarrow> ('a \<Rightarrow> 'b result) \<Rightarrow> 'b result" where
  "and_then m f = (case m of Inl e \<Rightarrow> Inl e | Inr x \<Rightarrow> f x)"

definition option_context :: "string \<Rightarrow> 'a option \<Rightarrow> 'a result" where
  "option_context msg x = (case x of None \<Rightarrow> bail msg | Some y \<Rightarrow> Inr y)"

fun try_map :: "('a \<Rightarrow> 'b result) \<Rightarrow> 'a list \<Rightarrow> 'b list result" where
  "try_map f [] = Inr []"
| "try_map f (x # xs) = and_then (f x) (\<lambda>y. and_then (try_map f xs) (\<lambda>ys. Inr (y # ys)))"

fun try_fold :: "('s \<Rightarrow> 'a \<Rightarrow> 's result) \<Rightarrow> 's \<Rightarrow> 'a list \<Rightarrow> 's result" where
  "try_fold f s [] = Inr s"
| "try_fold f s (x # xs) = and_then (f s x) (\<lambda>s'. try_fold f s' xs)"

definition try_each :: "('a \<Rightarrow> unit result) \<Rightarrow> 'a list \<Rightarrow> unit result" where
  "try_each f xs = try_fold (\<lambda>_ x. f x) () xs"

lemma bail_neq_Inr [simp]: "bail msg \<noteq> Inr x" "Inr x \<noteq> bail msg"
  by (simp_all add: bail_def)

lemma ensure_simps [simp]: "ensure True msg k = k" "ensure False msg k = bail msg"
  by (simp_all add: ensure_def)

lemma and_then_simps [simp]:
  "and_then (Inr x) f = f x" "and_then (Inl e) f = Inl e" "and_then (bail msg) f = bail msg"
  by (simp_all add: and_then_def bail_def)

lemma option_context_simps [simp]:
  "option_context msg None = bail msg" "option_context msg (Some x) = Inr x"
  by (simp_all add: option_context_def)

lemma ensure_Inr_iff [result_simps]: "ensure c msg k = Inr y \<longleftrightarrow> c \<and> k = Inr y"
  by (simp add: ensure_def)

lemma and_then_Inr_iff [result_simps]:
  "and_then m f = Inr y \<longleftrightarrow> (\<exists>x. m = Inr x \<and> f x = Inr y)"
  by (cases m) auto

lemma option_context_Inr_iff [result_simps]:
  "option_context msg x = Inr y \<longleftrightarrow> x = Some y"
  by (cases x) auto

lemma ensure_weak_cong [cong]: "c = c' \<Longrightarrow> ensure c msg k = ensure c' msg k"
  by simp

lemma and_then_weak_cong [cong]: "m = m' \<Longrightarrow> and_then m f = and_then m' f"
  by simp

lemma ensure_fundef_cong [fundef_cong]:
  "c = c' \<Longrightarrow> (c' \<Longrightarrow> k = k') \<Longrightarrow> ensure c msg k = ensure c' msg k'"
  by (simp add: ensure_def)

lemma and_then_fundef_cong [fundef_cong]:
  "m = m' \<Longrightarrow> (\<And>x. m' = Inr x \<Longrightarrow> f x = f' x) \<Longrightarrow> and_then m f = and_then m' f'"
  by (auto simp: and_then_def split: sum.splits)

lemma try_map_fundef_cong [fundef_cong]:
  "xs = ys \<Longrightarrow> (\<And>x. x \<in> set ys \<Longrightarrow> f x = g x) \<Longrightarrow> try_map f xs = try_map g ys"
  by (induction ys arbitrary: xs) (auto simp: and_then_def split: sum.splits)

lemma try_fold_fundef_cong [fundef_cong]:
  "xs = ys \<Longrightarrow> s = t \<Longrightarrow> (\<And>u x. x \<in> set ys \<Longrightarrow> f u x = g u x) \<Longrightarrow> try_fold f s xs = try_fold g t ys"
  by (induction ys arbitrary: xs s t) (auto simp: and_then_def split: sum.splits)

lemma try_map_Inr_iff [result_simps]:
  "try_map f xs = Inr ys \<longleftrightarrow> list_all2 (\<lambda>x y. f x = Inr y) xs ys"
  by (induction xs arbitrary: ys) (auto simp: and_then_Inr_iff list_all2_Cons1)

lemma try_each_Inr_iff [result_simps]:
  "try_each f xs = Inr u \<longleftrightarrow> (\<forall>x \<in> set xs. f x = Inr ())"
  unfolding try_each_def by (induction xs) (auto simp: and_then_Inr_iff)

text \<open>An invariant of the loop body is an invariant of the loop.\<close>

lemma try_fold_invariant:
  assumes "try_fold f s xs = Inr t" and "P s"
    and "\<And>u x u'. x \<in> set xs \<Longrightarrow> P u \<Longrightarrow> f u x = Inr u' \<Longrightarrow> P u'"
  shows "P t"
  using assms
proof (induction xs arbitrary: s)
  case Nil
  then show ?case by simp
next
  case (Cons x xs)
  then obtain s' where s': "f s x = Inr s'" "try_fold f s' xs = Inr t"
    by (auto simp: and_then_Inr_iff)
  have "P s'" by (rule Cons.prems(3) [OF _ Cons.prems(2) s'(1)]) simp
  with s'(2) show ?case by (rule Cons.IH) (rule Cons.prems(3), auto)
qed

lemma try_fold_cong_invariant:
  assumes "P s" "\<And>u x. x \<in> set xs \<Longrightarrow> P u \<Longrightarrow> f u x = g u x"
    and "\<And>u x u'. x \<in> set xs \<Longrightarrow> P u \<Longrightarrow> f u x = Inr u' \<Longrightarrow> P u'"
  shows "try_fold f s xs = try_fold g s xs"
  using assms
proof (induction xs arbitrary: s)
  case (Cons x xs)
  show ?case
  proof (cases "f s x")
    case (Inr s')
    have "P s'" by (rule Cons.prems(3) [OF _ Cons.prems(1) Inr]) simp
    then have "try_fold f s' xs = try_fold g s' xs"
    proof (rule Cons.IH)
      show "f u y = g u y" if "y \<in> set xs" "P u" for u y
        using that by (intro Cons.prems(2)) auto
      show "P u'" if "y \<in> set xs" "P u" "f u y = Inr u'" for u y u'
        using that(1) by (intro Cons.prems(3) [OF _ that(2,3)]) auto
    qed
    moreover have "g s x = Inr s'" using Cons.prems(1,2) Inr by simp
    ultimately show ?thesis using Inr by simp
  next
    case (Inl e)
    then have "g s x = Inl e" using Cons.prems(1,2) by simp
    with Inl show ?thesis by simp
  qed
qed simp

text \<open>A loop whose body either fails or applies a function is that function, folded.\<close>

lemma try_fold_Inr_iff:
  assumes "\<And>s x t. f s x = Inr t \<longleftrightarrow> P x \<and> t = g s x"
  shows "try_fold f s xs = Inr t \<longleftrightarrow> (\<forall>x \<in> set xs. P x) \<and> t = fold (\<lambda>x s. g s x) xs s"
  by (induction xs arbitrary: s) (auto simp: and_then_Inr_iff assms)

section \<open>Lists in step\<close>

lemma list_all2_Bex_cong:
  "list_all2 R xs ys \<Longrightarrow> (\<And>x y. R x y \<Longrightarrow> P x \<longleftrightarrow> Q y) \<Longrightarrow> (\<exists>x \<in> set xs. P x) \<longleftrightarrow> (\<exists>y \<in> set ys. Q y)"
  by (induction rule: list_all2_induct) auto

lemma list_all2_filter:
  "list_all2 R xs ys \<Longrightarrow> (\<And>x y. R x y \<Longrightarrow> P x \<longleftrightarrow> Q y) \<Longrightarrow> list_all2 R (filter P xs) (filter Q ys)"
  by (induction rule: list_all2_induct) auto

lemma set_map_filter_iff: "y \<in> set (List.map_filter f xs) \<longleftrightarrow> (\<exists>x \<in> set xs. f x = Some y)"
  by (induction xs) (auto simp: List.map_filter_simps split: option.splits)

section \<open>Bytes of strings\<close>

definition is_ascii_digit :: "char \<Rightarrow> bool" where
  "is_ascii_digit c \<longleftrightarrow> CHR ''0'' \<le> c \<and> c \<le> CHR ''9''"

definition is_ascii_lowercase :: "char \<Rightarrow> bool" where
  "is_ascii_lowercase c \<longleftrightarrow> CHR ''a'' \<le> c \<and> c \<le> CHR ''z''"

definition is_ascii_uppercase :: "char \<Rightarrow> bool" where
  "is_ascii_uppercase c \<longleftrightarrow> CHR ''A'' \<le> c \<and> c \<le> CHR ''Z''"

definition is_ascii_alphanumeric :: "char \<Rightarrow> bool" where
  "is_ascii_alphanumeric c \<longleftrightarrow>
     is_ascii_digit c \<or> is_ascii_lowercase c \<or> is_ascii_uppercase c"

definition is_ascii_hexdigit :: "char \<Rightarrow> bool" where
  "is_ascii_hexdigit c \<longleftrightarrow>
     is_ascii_digit c \<or> CHR ''a'' \<le> c \<and> c \<le> CHR ''f'' \<or> CHR ''A'' \<le> c \<and> c \<le> CHR ''F''"

text \<open>
  \<open>trim_is_empty s\<close> is Rust's \<open>s.trim().is_empty()\<close>: every character of the UTF-8 string has the
  Unicode property White\_Space. Besides ASCII these are U+0085, U+00A0, U+1680, U+2000 to U+200A,
  U+2028, U+2029, U+202F, U+205F and U+3000.
\<close>

definition is_ascii_space :: "char \<Rightarrow> bool" where
  "is_ascii_space c \<longleftrightarrow> c = CHR '' '' \<or> CHR 0x09 \<le> c \<and> c \<le> CHR 0x0D"

fun trim_is_empty :: "string \<Rightarrow> bool" where
  "trim_is_empty [] = True"
| "trim_is_empty (a # s) =
     (if is_ascii_space a then trim_is_empty s
      else case s of
        [] \<Rightarrow> False
      | b # t \<Rightarrow>
          if a = CHR 0xC2 then (b = CHR 0x85 \<or> b = CHR 0xA0) \<and> trim_is_empty t
          else case t of
            [] \<Rightarrow> False
          | c # u \<Rightarrow>
              (a = CHR 0xE1 \<and> b = CHR 0x9A \<and> c = CHR 0x80
               \<or> a = CHR 0xE2 \<and> b = CHR 0x80 \<and>
                 (CHR 0x80 \<le> c \<and> c \<le> CHR 0x8A \<or> c = CHR 0xA8 \<or> c = CHR 0xA9 \<or> c = CHR 0xAF)
               \<or> a = CHR 0xE2 \<and> b = CHR 0x81 \<and> c = CHR 0x9F
               \<or> a = CHR 0xE3 \<and> b = CHR 0x80 \<and> c = CHR 0x80)
              \<and> trim_is_empty u)"

lemma trim_is_empty_Nil: "trim_is_empty [] = True"
  by simp

text \<open>\<open>starts_with p s\<close> is Rust's \<open>s.starts_with(p)\<close>; \<open>join\<close> is the slice method of that name.\<close>

fun starts_with :: "string \<Rightarrow> string \<Rightarrow> bool" where
  "starts_with [] s = True"
| "starts_with (c # p) [] = False"
| "starts_with (c # p) (d # s) = (c = d \<and> starts_with p s)"

lemma starts_with_append [simp]: "starts_with p (p @ s)"
  by (induction p) auto

lemma starts_with_iff: "starts_with p s \<longleftrightarrow> (\<exists>t. s = p @ t)"
  by (induction p s rule: starts_with.induct) auto

fun join :: "string \<Rightarrow> string list \<Rightarrow> string" where
  "join sep [] = []"
| "join sep [x] = x"
| "join sep (x # y # xs) = x @ sep @ join sep (y # xs)"

section \<open>Ordered maps and sets\<close>

type_synonym ('k, 'v) btree_map = "('k \<times> 'v) list"

definition btree :: "('k::linorder, 'v) btree_map \<Rightarrow> bool" where
  "btree m \<longleftrightarrow> sorted_wrt (<) (map fst m)"

fun bt_insert :: "'k::linorder \<Rightarrow> 'v \<Rightarrow> ('k, 'v) btree_map \<Rightarrow> ('k, 'v) btree_map" where
  "bt_insert k v [] = [(k, v)]"
| "bt_insert k v ((k', v') # m) =
     (if k < k' then (k, v) # (k', v') # m
      else if k = k' then (k, v) # m
      else (k', v') # bt_insert k v m)"

definition bt_get :: "('k, 'v) btree_map \<Rightarrow> 'k \<Rightarrow> 'v option" where
  "bt_get m k = map_of m k"

definition bt_contains :: "('k, 'v) btree_map \<Rightarrow> 'k \<Rightarrow> bool" where
  "bt_contains m k \<longleftrightarrow> map_of m k \<noteq> None"

definition bt_remove :: "'k \<Rightarrow> ('k, 'v) btree_map \<Rightarrow> ('k, 'v) btree_map" where
  "bt_remove k m = filter (\<lambda>(k', _). k' \<noteq> k) m"

definition bt_keys :: "('k, 'v) btree_map \<Rightarrow> 'k list" where
  "bt_keys m = map fst m"

definition bt_values :: "('k, 'v) btree_map \<Rightarrow> 'v list" where
  "bt_values m = map snd m"

definition bt_collect :: "('k::linorder \<times> 'v) list \<Rightarrow> ('k, 'v) btree_map" where
  "bt_collect xs = fold (\<lambda>(k, v). bt_insert k v) xs []"

definition bs_collect :: "'a::linorder list \<Rightarrow> 'a list" where
  "bs_collect xs = remdups (sort xs)"

lemma map_of_bt_insert [simp]: "map_of (bt_insert k v m) = (map_of m)(k \<mapsto> v)"
  by (induction k v m rule: bt_insert.induct) (auto simp: fun_eq_iff)

lemma bt_get_insert [simp]: "bt_get (bt_insert k v m) k' = (if k' = k then Some v else bt_get m k')"
  by (simp add: bt_get_def)

lemma bt_get_Nil [simp]: "bt_get [] k = None"
  by (simp add: bt_get_def)

lemma bt_get_Cons: "bt_get ((k', v) # m) k = (if k = k' then Some v else bt_get m k)"
  by (simp add: bt_get_def)

lemma map_of_bt_remove [simp]: "map_of (bt_remove k m) = (map_of m)(k := None)"
  unfolding bt_remove_def by (induction m) (auto simp: fun_eq_iff)

lemma bt_get_remove [simp]: "bt_get (bt_remove k m) k' = (if k' = k then None else bt_get m k')"
  by (simp add: bt_get_def)

lemma bt_contains_iff: "bt_contains m k \<longleftrightarrow> k \<in> set (bt_keys m)"
  by (simp add: bt_contains_def bt_keys_def map_of_eq_None_iff)

lemma bt_contains_get: "bt_contains m k \<longleftrightarrow> bt_get m k \<noteq> None"
  by (simp add: bt_contains_def bt_get_def)

lemma set_keys_bt_insert [simp]: "fst ` set (bt_insert k v m) = insert k (fst ` set m)"
  by (induction k v m rule: bt_insert.induct) auto

lemma btree_Nil [simp]: "btree []"
  by (simp add: btree_def)

lemma btree_insert [intro]: "btree m \<Longrightarrow> btree (bt_insert k v m)"
  unfolding btree_def
proof (induction k v m rule: bt_insert.induct)
  case (2 k v k' v' m)
  have "\<forall>x \<in> fst ` set (bt_insert k v m). k' < x" if "k' < k"
    using 2 that by auto
  with 2 show ?case by (auto intro: less_trans)
qed simp

lemma btree_remove [intro]: "btree m \<Longrightarrow> btree (bt_remove k m)"
  unfolding btree_def bt_remove_def by (induction m) auto

lemma btree_distinct: "btree m \<Longrightarrow> distinct (map fst m)"
  unfolding btree_def using strict_sorted_iff by blast

lemma btree_eqI:
  assumes "btree m" "btree n" "map_of m = map_of n"
  shows "m = n"
proof (rule map_sorted_distinct_set_unique [of fst])
  have sorted: "sorted (map fst m)" "distinct (map fst m)" "sorted (map fst n)" "distinct (map fst n)"
    using assms(1,2) by (simp_all add: btree_def strict_sorted_iff)
  then show "sorted (map fst m)" "distinct (map fst m)" "sorted (map fst n)" "distinct (map fst n)" .
  show same: "set m = set n" using assms(3) map_of_inject_set [OF sorted(2,4)] by simp
  show "inj_on fst (set m \<union> set n)" using sorted(2) same by (simp add: distinct_map)
qed

lemma bt_get_eq_Some: "btree m \<Longrightarrow> bt_get m k = Some v \<longleftrightarrow> (k, v) \<in> set m"
  by (simp add: bt_get_def btree_distinct)

lemma btree_fold_insert: "btree m \<Longrightarrow> btree (fold (\<lambda>(k, v). bt_insert k v) xs m)"
  by (induction xs arbitrary: m) (auto simp: case_prod_beta)

lemma btree_collect [intro]: "btree (bt_collect xs)"
  unfolding bt_collect_def by (rule btree_fold_insert) simp

lemma map_of_fold_insert:
  "map_of (fold (\<lambda>(k, v). bt_insert k v) xs m) = map_of m ++ map_of (rev xs)"
proof (induction xs arbitrary: m)
  case (Cons x xs)
  then show ?case by (cases x) (simp add: map_add_def fun_eq_iff split: option.splits)
qed simp

lemma map_of_bt_collect: "map_of (bt_collect xs) = map_of (rev xs)"
  by (simp add: bt_collect_def map_of_fold_insert)

lemma map_of_rev_distinct: "distinct (map fst xs) \<Longrightarrow> map_of (rev xs) = map_of xs"
  by (subst map_of_inject_set) (simp_all flip: rev_map)

lemma bt_get_collect_distinct: "distinct (map fst xs) \<Longrightarrow> bt_get (bt_collect xs) = map_of xs"
  by (simp add: bt_get_def map_of_bt_collect map_of_rev_distinct fun_eq_iff)

lemma set_bt_collect_distinct: "distinct (map fst xs) \<Longrightarrow> set (bt_collect xs) = set xs"
proof -
  assume dist: "distinct (map fst xs)"
  have "(k, v) \<in> set (bt_collect xs) \<longleftrightarrow> (k, v) \<in> set xs" for k v
    using dist by (simp add: bt_get_collect_distinct flip: bt_get_eq_Some [OF btree_collect])
  then show ?thesis by auto
qed

lemma bt_get_collect_Some: "bt_get (bt_collect xs) k = Some v \<Longrightarrow> (k, v) \<in> set xs"
  by (auto simp: bt_get_def map_of_bt_collect dest: map_of_SomeD)

lemma bt_contains_collect [simp]: "bt_contains (bt_collect xs) k \<longleftrightarrow> k \<in> fst ` set xs"
  by (simp add: bt_contains_def map_of_bt_collect map_of_eq_None_iff)

lemma set_bs_collect [simp]: "set (bs_collect xs) = set xs"
  by (simp add: bs_collect_def)

lemma distinct_bs_collect [simp]: "distinct (bs_collect xs)"
  by (simp add: bs_collect_def)

lemma sorted_bs_collect [simp]: "sorted (bs_collect xs)"
  by (simp add: bs_collect_def)

text \<open>Sets that are compared, but never iterated, are compared as sorted lists.\<close>

lemma bs_collect_eq_iff: "bs_collect xs = bs_collect ys \<longleftrightarrow> set xs = set ys"
  by (metis distinct_bs_collect set_bs_collect sorted_bs_collect sorted_distinct_set_unique)

text \<open>
  Grouping with \<open>map.entry(key).or_default().push(value)\<close>: the elements with a key, in order,
  under that key.
\<close>

definition group_push :: "'k::linorder \<Rightarrow> 'v \<Rightarrow> ('k, 'v list) btree_map \<Rightarrow> ('k, 'v list) btree_map" where
  "group_push k v m = bt_insert k ((case bt_get m k of None \<Rightarrow> [] | Some vs \<Rightarrow> vs) @ [v]) m"

definition group_by :: "('a \<Rightarrow> ('k::linorder \<times> 'v) option) \<Rightarrow> 'a list \<Rightarrow> ('k, 'v list) btree_map" where
  "group_by f xs = fold (\<lambda>x m. case f x of None \<Rightarrow> m | Some (k, v) \<Rightarrow> group_push k v m) xs []"

definition group :: "('k, 'v list) btree_map \<Rightarrow> 'k \<Rightarrow> 'v list" where
  "group m k = (case bt_get m k of None \<Rightarrow> [] | Some vs \<Rightarrow> vs)"

lemma group_group_push: "group (group_push k v m) k' = group m k' @ (if k' = k then [v] else [])"
  by (simp add: group_def group_push_def)

lemma group_fold:
  "group (fold (\<lambda>x m. case f x of None \<Rightarrow> m | Some (k, v) \<Rightarrow> group_push k v m) xs m) k =
    group m k @ map snd (filter (\<lambda>(k', _). k' = k) (List.map_filter f xs))"
  by (induction xs arbitrary: m)
    (auto simp: List.map_filter_def group_group_push split: option.splits)

lemma group_group_by: "group (group_by f xs) k = map snd (filter (\<lambda>(k', _). k' = k) (List.map_filter f xs))"
  unfolding group_by_def by (subst group_fold) (simp add: group_def)

lemma set_group_by: "v \<in> set (group (group_by f xs) k) \<longleftrightarrow> (\<exists>x \<in> set xs. f x = Some (k, v))"
  by (auto simp: group_group_by List.map_filter_def image_iff)

section \<open>Evaluation\<close>

text \<open>Size limits are compared in binary when a definition is evaluated.\<close>

lemma length_le_numeral [code_unfold]: "length xs \<le> nat_of_num k \<longleftrightarrow> int (length xs) \<le> Int.Pos k"
  by (simp add: nat_of_num_numeral)

lemma numeral_product [code_unfold]: "nat_of_num k * nat_of_num l = nat_of_num (k * l)"
  by (simp add: nat_of_num_numeral)

end
