(* ===== verification/Json.thy ===== *)
theory Json
  imports Prelude Complex_Main
begin

text \<open>
  JSON documents as the Registry handles them (\<open>serde_json::Value\<close>). The workspace builds
  serde\_json with its \<open>preserve_order\<close> feature, so an object is an insertion-ordered map with
  distinct keys: iteration follows insertion, \<open>insert\<close> keeps the position of an existing key,
  \<open>remove\<close> is a swap-remove, and equality (\<open>json_eq\<close>) ignores the order of the entries.
  Paths into nested objects (\<open>get_path\<close>) are the observations in which merging is specified.
\<close>

section \<open>Values\<close>

datatype number = PosInt nat | NegInt int | Float rat

datatype json =
    JNull
  | JBool bool
  | JNumber number
  | JString string
  | JArray "json list"
  | JObject "(string \<times> json) list"

type_synonym json_map = "(string \<times> json) list"

definition as_str :: "json \<Rightarrow> string option" where
  "as_str v = (case v of JString s \<Rightarrow> Some s | _ \<Rightarrow> None)"

definition as_bool :: "json \<Rightarrow> bool option" where
  "as_bool v = (case v of JBool b \<Rightarrow> Some b | _ \<Rightarrow> None)"

definition as_array :: "json \<Rightarrow> json list option" where
  "as_array v = (case v of JArray xs \<Rightarrow> Some xs | _ \<Rightarrow> None)"

definition as_object :: "json \<Rightarrow> json_map option" where
  "as_object v = (case v of JObject m \<Rightarrow> Some m | _ \<Rightarrow> None)"

definition is_null :: "json \<Rightarrow> bool" where
  "is_null v \<longleftrightarrow> v = JNull"

text \<open>\<open>Value::get\<close> with a string index: only objects have fields.\<close>

definition json_get :: "json \<Rightarrow> string \<Rightarrow> json option" where
  "json_get v k = (case v of JObject m \<Rightarrow> map_of m k | _ \<Rightarrow> None)"

text \<open>The combinations \<open>.get(k).and_then(Value::as_...)\<close> of the source.\<close>

definition get_str :: "json \<Rightarrow> string \<Rightarrow> string option" where
  "get_str v k = Option.bind (json_get v k) as_str"

definition get_array :: "json \<Rightarrow> string \<Rightarrow> json list option" where
  "get_array v k = Option.bind (json_get v k) as_array"

definition get_object :: "json \<Rightarrow> string \<Rightarrow> json_map option" where
  "get_object v k = Option.bind (json_get v k) as_object"

text \<open>
  \<open>Value::pointer\<close>, its reference tokens given as a list. Every pointer of the source is made of
  field names, which never index an array.
\<close>

fun get_path :: "string list \<Rightarrow> json \<Rightarrow> json option" where
  "get_path [] v = Some v"
| "get_path (k # ks) v = Option.bind (json_get v k) (get_path ks)"

definition pointer_str :: "json \<Rightarrow> string list \<Rightarrow> string option" where
  "pointer_str v ks = Option.bind (get_path ks v) as_str"

lemma as_str_eq_Some [simp]: "as_str v = Some x \<longleftrightarrow> v = JString x"
  by (cases v) (auto simp: as_str_def)

lemma as_bool_eq_Some [simp]: "as_bool v = Some x \<longleftrightarrow> v = JBool x"
  by (cases v) (auto simp: as_bool_def)

lemma as_array_eq_Some [simp]: "as_array v = Some x \<longleftrightarrow> v = JArray x"
  by (cases v) (auto simp: as_array_def)

lemma as_object_eq_Some [simp]: "as_object v = Some x \<longleftrightarrow> v = JObject x"
  by (cases v) (auto simp: as_object_def)

lemma as_simps [simp]:
  "as_str (JString x) = Some x" "as_bool (JBool b) = Some b"
  "as_array (JArray xs) = Some xs" "as_object (JObject m) = Some m"
  by simp_all

lemma get_eq_Some:
  "get_str v k = Some s \<longleftrightarrow> json_get v k = Some (JString s)"
  "get_array v k = Some xs \<longleftrightarrow> json_get v k = Some (JArray xs)"
  "get_object v k = Some m \<longleftrightarrow> json_get v k = Some (JObject m)"
  by (simp_all add: get_str_def get_array_def get_object_def bind_eq_Some_conv)

text \<open>The map operations of serde\_json: in-place insertion and swap-removal.\<close>

abbreviation json_insert :: "string \<Rightarrow> json \<Rightarrow> json_map \<Rightarrow> json_map" where
  "json_insert \<equiv> AList.update"

fun swap_remove :: "string \<Rightarrow> json_map \<Rightarrow> json_map" where
  "swap_remove k [] = []"
| "swap_remove k ((k', v) # m) =
     (if k = k' then (if m = [] then [] else last m # butlast m) else (k', v) # swap_remove k m)"

section \<open>Equality\<close>

lemma size_zip_left [termination_simp]:
  "(x, y) \<in> set (zip xs ys) \<Longrightarrow> f x < Suc (size_list f xs)"
  by (drule set_zip_leftD) (simp add: less_Suc_eq_le size_list_estimation')

fun json_eq :: "json \<Rightarrow> json \<Rightarrow> bool" where
  "json_eq (JArray xs) w =
     (case w of
        JArray ys \<Rightarrow> length xs = length ys \<and> list_all (\<lambda>(x, y). json_eq x y) (zip xs ys)
      | _ \<Rightarrow> False)"
| "json_eq (JObject m) w =
     (case w of
        JObject n \<Rightarrow>
          length m = length n \<and>
          list_all (\<lambda>(k, v). case map_of n k of None \<Rightarrow> False | Some u \<Rightarrow> json_eq v u) m
      | _ \<Rightarrow> False)"
| "json_eq v w = (v = w)"

text \<open>Documents have distinct keys in every object.\<close>

fun wf_json :: "json \<Rightarrow> bool" where
  "wf_json (JArray xs) = list_all wf_json xs"
| "wf_json (JObject m) = (distinct (map fst m) \<and> list_all (\<lambda>(k, v). wf_json v) m)"
| "wf_json v = True"

abbreviation opt_eq :: "json option \<Rightarrow> json option \<Rightarrow> bool" where
  "opt_eq \<equiv> rel_option json_eq"

abbreviation wf_opt :: "json option \<Rightarrow> bool" where
  "wf_opt \<equiv> pred_option wf_json"

lemma json_eq_array:
  "json_eq (JArray xs) (JArray ys) \<longleftrightarrow> list_all2 json_eq xs ys"
  by (simp add: list_all2_iff list_all_iff)

lemma json_eq_array_iff:
  "json_eq (JArray xs) w \<longleftrightarrow> (\<exists>ys. w = JArray ys \<and> list_all2 json_eq xs ys)"
  by (cases w) (auto simp: list_all2_iff list_all_iff)

lemma json_eq_objectD: "json_eq (JObject m) w \<Longrightarrow> \<exists>n. w = JObject n"
  by (cases w) auto

lemma map_of_wf: "wf_json (JObject m) \<Longrightarrow> map_of m k = Some v \<Longrightarrow> wf_json v"
  by (auto simp: list_all_iff dest: map_of_SomeD)

lemma wf_json_get: "wf_json v \<Longrightarrow> wf_opt (json_get v k)"
  by (auto simp: json_get_def pred_option_def dest: map_of_wf split: json.splits)

text \<open>On documents, equal objects have equal values under every key.\<close>

lemma json_eq_object:
  assumes "wf_json (JObject m)" "wf_json (JObject n)"
  shows "json_eq (JObject m) (JObject n) \<longleftrightarrow> (\<forall>k. opt_eq (map_of m k) (map_of n k))"
proof
  assume eq: "json_eq (JObject m) (JObject n)"
  have sub: "\<exists>u. map_of n k = Some u \<and> json_eq v u" if "map_of m k = Some v" for k v
  proof -
    have "case map_of n k of None \<Rightarrow> False | Some u \<Rightarrow> json_eq v u"
      using eq map_of_SomeD [OF that] by (auto simp: list_all_iff)
    then show ?thesis by (simp split: option.splits)
  qed
  have "dom (map_of m) = dom (map_of n)"
  proof (rule card_subset_eq)
    show "finite (dom (map_of n))" by (rule finite_dom_map_of)
    show "dom (map_of m) \<subseteq> dom (map_of n)" using sub by (auto simp: dom_def)
    show "card (dom (map_of m)) = card (dom (map_of n))"
      using assms eq by (simp add: dom_map_of_conv_image_fst distinct_card flip: set_map)
  qed
  then show "\<forall>k. opt_eq (map_of m k) (map_of n k)"
  proof (intro allI)
    fix k
    show "opt_eq (map_of m k) (map_of n k)" if dom: "dom (map_of m) = dom (map_of n)"
    proof (cases "map_of m k")
      case None
      with dom have "map_of n k = None" by (metis domIff)
      with None show ?thesis by simp
    next
      case (Some v)
      with sub show ?thesis by fastforce
    qed
  qed
next
  assume eq: "\<forall>k. opt_eq (map_of m k) (map_of n k)"
  have "map_of m k = None \<longleftrightarrow> map_of n k = None" for k
    using eq by (auto dest!: spec [of _ k])
  then have "dom (map_of m) = dom (map_of n)"
    by (auto simp: dom_def)
  then have "length m = length n"
    using assms by (metis (no_types, lifting) distinct_card dom_map_of_conv_image_fst length_map
        list.set_map wf_json.simps(2))
  moreover have "case map_of n k of None \<Rightarrow> False | Some u \<Rightarrow> json_eq v u" if "(k, v) \<in> set m" for k v
    using spec [OF eq, of k] that assms by (auto simp: option_rel_Some1)
  ultimately show "json_eq (JObject m) (JObject n)"
    by (auto simp: list_all_iff)
qed

declare json_eq.simps(1,2) [simp del]

lemma json_induct [case_names null bool number string array object]:
  assumes "P JNull" "\<And>b. P (JBool b)" "\<And>n. P (JNumber n)" "\<And>s. P (JString s)"
    and "\<And>xs. (\<And>x. x \<in> set xs \<Longrightarrow> P x) \<Longrightarrow> P (JArray xs)"
    and "\<And>m. (\<And>k v. map_of m k = Some v \<Longrightarrow> P v) \<Longrightarrow> P (JObject m)"
  shows "P v"
proof (induction v)
  case (JObject m)
  have "P v" if "map_of m k = Some v" for k v
    using JObject [of "(k, v)" v] map_of_SomeD [OF that] by simp
  then show ?case by (rule assms(6))
qed (use assms in auto)

lemma json_eq_refl: "wf_json v \<Longrightarrow> json_eq v v"
proof (induction v rule: json_induct)
  case (array xs)
  then show ?case by (simp add: json_eq_array list_all_iff list.rel_refl_strong)
next
  case (object m)
  have "opt_eq (map_of m k) (map_of m k)" for k
    using object map_of_wf by (cases "map_of m k") auto
  then show ?case using object.prems json_eq_object by blast
qed simp_all

lemma json_eq_cases:
  assumes "json_eq v w"
  obtains (array) xs ys where "v = JArray xs" "w = JArray ys" "list_all2 json_eq xs ys"
  | (object) m n where "v = JObject m" "w = JObject n"
  | (same) "v = w" "as_object v = None" "as_array v = None"
proof (cases v)
  case (JArray xs)
  with assms array show ?thesis by (auto simp: json_eq_array_iff)
next
  case (JObject m)
  with assms object show ?thesis by (auto dest: json_eq_objectD)
qed (use assms same in \<open>auto simp: as_object_def as_array_def\<close>)

lemma json_eq_sym: "wf_json v \<Longrightarrow> wf_json w \<Longrightarrow> json_eq v w \<Longrightarrow> json_eq w v"
proof (induction v arbitrary: w rule: json_induct)
  case (array xs)
  then obtain ys where w: "w = JArray ys" and all: "list_all2 json_eq xs ys"
    by (auto simp: json_eq_array_iff)
  have "list_all2 json_eq ys xs"
    using all array.IH array.prems(1,2) w
    by (auto simp: list_all2_conv_all_nth list_all_length)
  then show ?case using w by (simp only: json_eq_array)
next
  case (object m)
  then obtain n where w: "w = JObject n" by (auto dest: json_eq_objectD)
  have "opt_eq (map_of n k) (map_of m k)" for k
  proof -
    have "opt_eq (map_of m k) (map_of n k)"
      using object.prems w json_eq_object by blast
    then show ?thesis
    proof (cases rule: option.rel_cases)
      case (Some v u)
      then have "json_eq u v" using object w map_of_wf by metis
      with Some show ?thesis by simp
    qed simp
  qed
  then show ?case using object.prems w json_eq_object by blast
qed (auto elim: json_eq_cases)

lemma json_eq_trans:
  "wf_json u \<Longrightarrow> wf_json v \<Longrightarrow> wf_json w \<Longrightarrow> json_eq u v \<Longrightarrow> json_eq v w \<Longrightarrow> json_eq u w"
proof (induction u arbitrary: v w rule: json_induct)
  case (array xs)
  then obtain ys zs where v: "v = JArray ys" "w = JArray zs"
    and all: "list_all2 json_eq xs ys" "list_all2 json_eq ys zs"
    by (auto simp: json_eq_array_iff)
  have "list_all2 json_eq xs zs"
    using all array.IH array.prems(1,2,3) v
    by (simp add: list_all2_conv_all_nth list_all_length) (metis nth_mem)
  then show ?case using v by (simp only: json_eq_array)
next
  case (object m)
  then obtain n p where v: "v = JObject n" "w = JObject p" by (auto dest!: json_eq_objectD)
  have "opt_eq (map_of m k) (map_of p k)" for k
  proof -
    have mn: "opt_eq (map_of m k) (map_of n k)" and np: "opt_eq (map_of n k) (map_of p k)"
      using object.prems v json_eq_object by blast+
    from mn show ?thesis
    proof (cases rule: option.rel_cases)
      case (Some a b)
      with np obtain c where c: "map_of p k = Some c" "json_eq b c" by (auto simp: option_rel_Some1)
      have "json_eq a c"
        using object.IH [OF Some(1)] object.prems(1,2,3) v Some c map_of_wf by metis
      with Some c show ?thesis by simp
    qed (use np in auto)
  qed
  then show ?case using object.prems v json_eq_object by blast
qed (auto elim!: json_eq_cases)

text \<open>The same laws for optional values, as the code compares \<open>Option<&Value>\<close>.\<close>

lemma opt_eq_refl: "wf_opt x \<Longrightarrow> opt_eq x x"
  by (cases x) (auto simp: json_eq_refl)

lemma opt_eq_sym: "wf_opt x \<Longrightarrow> wf_opt y \<Longrightarrow> opt_eq x y \<Longrightarrow> opt_eq y x"
  by (cases x; cases y) (auto simp: json_eq_sym)

lemma opt_eq_trans:
  "wf_opt x \<Longrightarrow> wf_opt y \<Longrightarrow> wf_opt z \<Longrightarrow> opt_eq x y \<Longrightarrow> opt_eq y z \<Longrightarrow> opt_eq x z"
  by (cases x; cases y; cases z) (auto intro: json_eq_trans)

lemma json_get_eq:
  assumes "wf_json v" "wf_json w" "json_eq v w"
  shows "opt_eq (json_get v k) (json_get w k)"
  using assms(3)
proof (cases rule: json_eq_cases)
  case (object m n)
  with assms show ?thesis by (simp add: json_get_def json_eq_object)
next
  case same
  with assms(1) show ?thesis by (simp add: opt_eq_refl wf_json_get)
qed (simp add: json_get_def)

text \<open>Reading a path through an optional value.\<close>

definition opt_path :: "string list \<Rightarrow> json option \<Rightarrow> json option" where
  "opt_path ks x = Option.bind x (get_path ks)"

lemma opt_path_Nil [simp]: "opt_path [] x = x"
  by (cases x) (simp_all add: opt_path_def)

lemma opt_path_None [simp]: "opt_path ks None = None"
  by (simp add: opt_path_def)

lemma opt_path_Cons: "opt_path (k # ks) (Some v) = opt_path ks (json_get v k)"
  by (simp add: opt_path_def)

lemma wf_opt_path: "wf_opt x \<Longrightarrow> wf_opt (opt_path ks x)"
proof (induction ks arbitrary: x)
  case (Cons k ks)
  then show ?case by (cases x) (auto simp: opt_path_Cons wf_json_get)
qed simp

lemma opt_path_eq: "wf_opt x \<Longrightarrow> wf_opt y \<Longrightarrow> opt_eq x y \<Longrightarrow> opt_eq (opt_path ks x) (opt_path ks y)"
proof (induction ks arbitrary: x y)
  case (Cons k ks)
  from Cons.prems(3) show ?case
  proof (cases rule: option.rel_cases)
    case (Some v w)
    with Cons show ?thesis by (simp add: opt_path_Cons wf_json_get json_get_eq)
  qed simp
qed simp

lemma set_json_insert: "set (json_insert k v m) \<subseteq> insert (k, v) (set m)"
  by (induction m) auto

lemma wf_json_insert: "wf_json (JObject m) \<Longrightarrow> wf_json v \<Longrightarrow> wf_json (JObject (json_insert k v m))"
  using set_json_insert [of k v m] by (fastforce simp: list_all_iff distinct_update)

text \<open>Swap-removal only forgets the removed key.\<close>

lemma set_swap_remove: "distinct (map fst m) \<Longrightarrow> set (swap_remove k m) = {(k', v) \<in> set m. k' \<noteq> k}"
proof (induction k m rule: swap_remove.induct)
  case (2 k k' v m)
  have "set (last m # butlast m) = set m" if "m \<noteq> []"
    using that append_butlast_last_id [of m] by (metis list.set(2) rotate1.simps(2) rotate1_hd_tl set_rotate1)
  with 2 show ?case by (auto simp: image_iff)
qed simp

lemma distinct_swap_remove: "distinct (map fst m) \<Longrightarrow> distinct (map fst (swap_remove k m))"
proof (induction k m rule: swap_remove.induct)
  case (2 k k' v m)
  have "distinct (map fst (last m # butlast m))" if "m \<noteq> []" "distinct (map fst m)"
  proof -
    have "map fst m = map fst (butlast m) @ [fst (last m)]"
      using that(1) by (metis append_butlast_last_id list.simps(8,9) map_append)
    then show ?thesis using that(2) by simp
  qed
  moreover have "fst ` set (swap_remove k m) \<subseteq> fst ` set m"
    using 2 by (auto simp: set_swap_remove)
  ultimately show ?case using 2 by auto
qed simp

lemma map_of_swap_remove:
  assumes "distinct (map fst m)"
  shows "map_of (swap_remove k m) x = (if x = k then None else map_of m x)"
proof -
  have "map_of (swap_remove k m) x = Some v \<longleftrightarrow> x \<noteq> k \<and> map_of m x = Some v" for v
    using assms by (auto simp: set_swap_remove distinct_swap_remove)
  then show ?thesis by (metis not_None_eq)
qed

end
