(* ===== verification/Fixtures.thy ===== *)
theory Fixtures
  imports Json
begin

text \<open>
  Small concrete documents on which the theorems of the other theories are exercised: an ontology
  with two object types, a property and a link, two edits of it, and a pipeline with one step.
\<close>

section \<open>Ontologies\<close>

definition type_document :: "string \<Rightarrow> string \<Rightarrow> json" where
  "type_document x name = JObject [(''resource_id'', JString x), (''kind'', JString ''object_type''),
     (''display_name'', JString name), (''attributes'', JObject [])]"

definition property_document :: "string \<Rightarrow> string \<Rightarrow> string \<Rightarrow> json" where
  "property_document x owner value_type = JObject [(''resource_id'', JString x), (''kind'', JString ''property''),
     (''display_name'', JString x), (''owner_id'', JString owner), (''value_type'', JString value_type),
     (''attributes'', JObject [])]"

definition link_document :: "string \<Rightarrow> string \<Rightarrow> string \<Rightarrow> json" where
  "link_document x source target = JObject [(''resource_id'', JString x), (''kind'', JString ''link_type''),
     (''display_name'', JString x),
     (''attributes'', JObject [(''source_type'', JString source), (''target_type'', JString target)])]"

definition ontology_document :: "json list \<Rightarrow> json" where
  "ontology_document rs = JObject [(''version'', JString ''1''), (''resources'', JArray rs)]"

definition base_ontology :: json where
  "base_ontology = ontology_document
     [type_document ''t'' ''T'', type_document ''u'' ''U'', property_document ''p'' ''t'' ''string'', link_document ''l'' ''t'' ''u'']"

text \<open>One side renames a type, the other adds a property; a third renames the same type differently.\<close>

definition left_ontology :: json where
  "left_ontology = ontology_document
     [type_document ''t'' ''A'', type_document ''u'' ''U'', property_document ''p'' ''t'' ''string'', link_document ''l'' ''t'' ''u'']"

definition right_ontology :: json where
  "right_ontology = ontology_document
     [type_document ''t'' ''T'', type_document ''u'' ''U'', property_document ''p'' ''t'' ''string'', link_document ''l'' ''t'' ''u'',
      property_document ''q'' ''u'' ''date'']"

definition rival_ontology :: json where
  "rival_ontology = ontology_document
     [type_document ''t'' ''B'', type_document ''u'' ''U'', property_document ''p'' ''t'' ''string'', link_document ''l'' ''t'' ''u'']"

text \<open>A property whose values are objects of another type.\<close>

definition object_valued_ontology :: json where
  "object_valued_ontology = ontology_document
     [type_document ''t'' ''T'', type_document ''u'' ''U'', property_document ''p'' ''t'' ''u'']"

section \<open>Pipelines\<close>

definition source_document :: json where
  "source_document = JObject [(''id'', JString ''mail''), (''topic'', JString ''in''),
     (''match_pattern'', JString ''*''), (''schema_path'', JString ''mail.json'')]"

definition step_document :: "string \<Rightarrow> string \<Rightarrow> json" where
  "step_document x model = JObject [(''step'', JString x), (''type'', JString ''inference''),
     (''model'', JString model), (''input_from'', JArray [JString ''mail''])]"

definition pipeline_document :: "string \<Rightarrow> json list \<Rightarrow> json" where
  "pipeline_document name steps =
     JObject [(''name'', JString name), (''sources'', JArray [source_document]), (''pipeline'', JArray steps)]"

definition example_pipeline :: json where
  "example_pipeline = pipeline_document ''Mail'' [step_document ''classify'' ''small'']"

definition renamed_pipeline :: json where
  "renamed_pipeline = pipeline_document ''Post'' [step_document ''classify'' ''small'']"

definition remodelled_pipeline :: json where
  "remodelled_pipeline = pipeline_document ''Mail'' [step_document ''classify'' ''large'']"

text \<open>A pipeline that hands its mail over to a pinned revision of another one.\<close>

definition PINNED :: string where
  "PINNED = ''00000000000000000001''"

definition transfer_document :: json where
  "transfer_document = JObject [(''step'', JString ''hand''), (''type'', JString ''pipeline''),
     (''pipeline_ref'', JObject [(''pipeline_id'', JString ''child''), (''revision_id'', JString PINNED),
       (''input_source'', JString ''mail'')]), (''input_from'', JArray [JString ''mail''])]"

definition linking_pipeline :: json where
  "linking_pipeline = pipeline_document ''Link'' [transfer_document]"

end
