(* ===== verification/Json_Merge.thy ===== *)
theory Json_Merge
  imports Fixtures "HOL-Library.Sublist"
begin

text \<open>
  Field-level difference and three-way merge of JSON values (\<open>diff_value\<close> and \<open>merge_value\<close> of
  \<open>platform/registry/src/semantics.rs\<close>). The Rust functions append to a mutable vector; the model
  returns the entries that a call appends, in order.

  The locale \<open>three_way_merge\<close> states what any merge of this shape promises one level at a time;
  its lemma \<open>no_lost_update\<close> lifts the promise to every path of the merged document. It is
  interpreted here for ontology merging and in \<open>Authoring\<close> for pipeline merging.
\<close>

section \<open>Definitions\<close>

record semantic_change =
  sc_resource_id :: string
  sc_operation :: string
  sc_path :: "string list"
  sc_before :: "json option"
  sc_after :: "json option"

record merge_conflict =
  mc_resource_id :: string
  mc_path :: "string list"
  mc_base :: "json option"
  mc_left :: "json option"
  mc_right :: "json option"

lemma size_map_of: "map_of m k = Some v \<Longrightarrow> size v < size (JObject m)"
proof (induction m)
  case (Cons x m)
  then show ?case by (cases x) (auto split: if_splits)
qed simp

definition opt_size :: "json option \<Rightarrow> nat" where
  "opt_size x = (case x of None \<Rightarrow> 0 | Some v \<Rightarrow> size v)"

lemma opt_size_map_of:
  "Option.bind x as_object = Some m \<Longrightarrow> opt_size (map_of m k) < opt_size x"
  by (cases x; cases "map_of m k")
    (auto simp: opt_size_def as_object_def split: json.splits dest: size_map_of)

function diff_value :: "string \<Rightarrow> string list \<Rightarrow> json \<Rightarrow> json \<Rightarrow> semantic_change list" where
  "diff_value rid path before after =
     (if json_eq before after then []
      else case (as_object before, as_object after) of
        (Some b, Some a) \<Rightarrow>
          concat (map (\<lambda>key.
            if path = [] \<and> key = ''resource_id'' then []
            else case (map_of b key, map_of a key) of
              (Some left, Some right) \<Rightarrow> diff_value rid (path @ [key]) left right
            | (left, right) \<Rightarrow>
                [\<lparr>sc_resource_id = rid,
                  sc_operation = (if right \<noteq> None then ''set_field'' else ''remove_field''),
                  sc_path = path @ [key], sc_before = left, sc_after = right\<rparr>])
            (bs_collect (map fst b @ map fst a)))
      | _ \<Rightarrow>
          [\<lparr>sc_resource_id = rid, sc_operation = ''set_field'', sc_path = path,
            sc_before = Some before, sc_after = Some after\<rparr>])"
  by pat_completeness auto
termination
  by (relation "measure (\<lambda>(rid, path, before, after). size before)")
    (auto simp: as_object_def split: json.splits dest: size_map_of [OF sym])

declare diff_value.simps [simp del]

text \<open>The object assembled from the merged fields, in the order in which they are inserted.\<close>

definition assemble :: "(string \<times> json option) list \<Rightarrow> json_map" where
  "assemble xs = fold (\<lambda>(k, x) m. case x of None \<Rightarrow> m | Some v \<Rightarrow> json_insert k v m) xs []"

function merge_value ::
  "string \<Rightarrow> string list \<Rightarrow> json option \<Rightarrow> json option \<Rightarrow> json option
    \<Rightarrow> json option \<times> merge_conflict list" where
  "merge_value rid path base left right =
     (if opt_eq left right then (left, [])
      else if opt_eq left base then (right, [])
      else if opt_eq right base then (left, [])
      else case (Option.bind base as_object, Option.bind left as_object,
                 Option.bind right as_object) of
        (Some b, Some l, Some r) \<Rightarrow>
          (let parts = map (\<lambda>key. (key,
                 merge_value rid (path @ [key]) (map_of b key) (map_of l key) (map_of r key)))
                 (bs_collect (map fst b @ map fst l @ map fst r))
           in (Some (JObject (assemble (map (\<lambda>(key, v, _). (key, v)) parts))),
               concat (map (\<lambda>(_, _, cs). cs) parts)))
      | _ \<Rightarrow>
          (left, [\<lparr>mc_resource_id = rid, mc_path = path, mc_base = base, mc_left = left,
                   mc_right = right\<rparr>]))"
  by pat_completeness auto
termination
  by (relation "measure (\<lambda>(rid, path, base, left, right). opt_size left)")
    (auto simp: opt_size_map_of)

declare merge_value.simps [simp del]

section \<open>Assembling objects\<close>

lemma map_of_assemble_fold:
  assumes "distinct (map fst xs)"
  shows "map_of (fold (\<lambda>(k, x) m. case x of None \<Rightarrow> m | Some v \<Rightarrow> json_insert k v m) xs m) k =
    (case map_of xs k of Some (Some v) \<Rightarrow> Some v | _ \<Rightarrow> map_of m k)"
  using assms
proof (induction xs arbitrary: m)
  case (Cons y ys)
  obtain k' x where y: "y = (k', x)" by (cases y)
  with Cons.prems have "map_of ys k' = None" by (simp add: map_of_eq_None_iff)
  then show ?case using Cons y by (auto simp: update_conv' split: option.splits)
qed simp

lemma map_of_assemble:
  "distinct ks \<Longrightarrow> map_of (assemble (map (\<lambda>k. (k, f k)) ks)) k = (if k \<in> set ks then f k else None)"
  unfolding assemble_def
  by (subst map_of_assemble_fold)
    (auto simp: comp_def map_of_map_keys map_of_map_restrict restrict_map_def split: option.splits)

lemma wf_json_assemble_fold:
  assumes "wf_json (JObject m)" "\<And>k v. (k, Some v) \<in> set xs \<Longrightarrow> wf_json v"
  shows "wf_json (JObject (fold (\<lambda>(k, x) m. case x of None \<Rightarrow> m | Some v \<Rightarrow> json_insert k v m) xs m))"
  using assms
proof (induction xs arbitrary: m)
  case (Cons y ys)
  obtain k x where y: "y = (k, x)" by (cases y)
  show ?case
  proof (cases x)
    case None
    then show ?thesis using Cons y by simp
  next
    case (Some v)
    then have "wf_json (JObject (json_insert k v m))"
      using Cons.prems y by (intro wf_json_insert) auto
    then have "wf_json (JObject (fold (\<lambda>(k, x) m. case x of None \<Rightarrow> m | Some v \<Rightarrow> json_insert k v m)
        ys (json_insert k v m)))"
      by (rule Cons.IH) (use Cons.prems(2) in auto)
    then show ?thesis using Some y by simp
  qed
qed simp

lemma wf_json_assemble:
  "(\<And>k v. (k, Some v) \<in> set xs \<Longrightarrow> wf_json v) \<Longrightarrow> wf_json (JObject (assemble xs))"
  unfolding assemble_def by (rule wf_json_assemble_fold) auto

section \<open>One level of a three-way merge\<close>

definition field :: "json option \<Rightarrow> string \<Rightarrow> json option" where
  "field x k = Option.bind x (\<lambda>v. json_get v k)"

lemma field_object [simp]: "field (Some (JObject m)) k = map_of m k"
  by (simp add: field_def json_get_def)

lemma opt_path_field: "opt_path (k # ks) x = opt_path ks (field x k)"
  by (cases x) (simp_all add: field_def opt_path_Cons)

lemma wf_opt_field: "wf_opt x \<Longrightarrow> wf_opt (field x k)"
  by (cases x) (auto simp: field_def wf_json_get)

text \<open>
  What a merge without conflicts owes to its three versions, at every path: a side that did not
  change its value lets the other side's value through, and agreement is kept.
\<close>

definition reconciles :: "json option \<Rightarrow> json option \<Rightarrow> json option \<Rightarrow> json option \<Rightarrow> bool" where
  "reconciles m b l r \<longleftrightarrow>
     (\<forall>ks. (opt_eq (opt_path ks l) (opt_path ks b) \<longrightarrow> opt_eq (opt_path ks m) (opt_path ks r)) \<and>
           (opt_eq (opt_path ks r) (opt_path ks b) \<longrightarrow> opt_eq (opt_path ks m) (opt_path ks l)) \<and>
           (opt_eq (opt_path ks l) (opt_path ks r) \<longrightarrow> opt_eq (opt_path ks m) (opt_path ks l)))"

lemma reconciles_field: "reconciles m b l r \<Longrightarrow> reconciles (field m k) (field b k) (field l k) (field r k)"
  unfolding reconciles_def opt_path_field [symmetric] by blast

locale three_way_merge =
  fixes merge :: "'p \<Rightarrow> json option \<Rightarrow> json option \<Rightarrow> json option \<Rightarrow> json option"
    and clean :: "'p \<Rightarrow> json option \<Rightarrow> json option \<Rightarrow> json option \<Rightarrow> bool"
    and child :: "'p \<Rightarrow> string \<Rightarrow> 'p"
  assumes wf_merge:
    "\<lbrakk>clean p b l r; wf_opt b; wf_opt l; wf_opt r\<rbrakk> \<Longrightarrow> wf_opt (merge p b l r)"
    and agree:
    "\<lbrakk>clean p b l r; wf_opt b; wf_opt l; wf_opt r; opt_eq l r\<rbrakk> \<Longrightarrow> opt_eq (merge p b l r) l"
    and left_unchanged:
    "\<lbrakk>clean p b l r; wf_opt b; wf_opt l; wf_opt r; opt_eq l b\<rbrakk> \<Longrightarrow> opt_eq (merge p b l r) r"
    and right_unchanged:
    "\<lbrakk>clean p b l r; wf_opt b; wf_opt l; wf_opt r; opt_eq r b\<rbrakk> \<Longrightarrow> opt_eq (merge p b l r) l"
    and both_changed:
    "\<lbrakk>clean p b l r; wf_opt b; wf_opt l; wf_opt r;
      \<not> opt_eq l r; \<not> opt_eq l b; \<not> opt_eq r b\<rbrakk> \<Longrightarrow>
     clean (child p k) (field b k) (field l k) (field r k) \<and>
     field (merge p b l r) k = merge (child p k) (field b k) (field l k) (field r k)"
begin

text \<open>
  A conflict-free merge loses no edit at any depth.
\<close>

lemma no_lost_update:
  assumes "clean p b l r" "wf_opt b" "wf_opt l" "wf_opt r"
  shows "(opt_eq (opt_path ks l) (opt_path ks b) \<longrightarrow>
           opt_eq (opt_path ks (merge p b l r)) (opt_path ks r)) \<and>
         (opt_eq (opt_path ks r) (opt_path ks b) \<longrightarrow>
           opt_eq (opt_path ks (merge p b l r)) (opt_path ks l)) \<and>
         (opt_eq (opt_path ks l) (opt_path ks r) \<longrightarrow>
           opt_eq (opt_path ks (merge p b l r)) (opt_path ks l))"
  using assms
proof (induction ks arbitrary: p b l r)
  case Nil
  then show ?case by (auto intro: agree left_unchanged right_unchanged)
next
  case (Cons k ks)
  note wf = Cons.prems(2,3,4) wf_merge [OF Cons.prems]
  note wfp = wf [THEN wf_opt_path, of "k # ks"]
  note path = opt_path_eq [of _ _ "k # ks"]
  consider (agree) "opt_eq l r" | (left) "opt_eq l b" | (right) "opt_eq r b"
    | (both) "\<not> opt_eq l r" "\<not> opt_eq l b" "\<not> opt_eq r b" by blast
  then show ?case
  proof cases
    case agree
    note m = path [OF wf(4,2) three_way_merge.agree [OF three_way_merge_axioms Cons.prems agree]]
      and lr = path [OF wf(2,3) agree]
    then show ?thesis by (meson wfp opt_eq_trans)
  next
    case left
    note m = path [OF wf(4,3) left_unchanged [OF Cons.prems left]]
      and lb = path [OF wf(2,1) left]
    then show ?thesis by (meson wfp opt_eq_trans opt_eq_sym)
  next
    case right
    note m = path [OF wf(4,2) right_unchanged [OF Cons.prems right]]
      and rb = path [OF wf(3,1) right]
    then show ?thesis by (meson wfp opt_eq_trans opt_eq_sym)
  next
    case both
    note step = both_changed [OF Cons.prems both, of k]
    show ?thesis
      unfolding opt_path_field conjunct2 [OF step]
      by (rule Cons.IH) (use step wf in \<open>simp_all add: wf_opt_field\<close>)
  qed
qed

lemma clean_merge_reconciles:
  "clean p b l r \<Longrightarrow> wf_opt b \<Longrightarrow> wf_opt l \<Longrightarrow> wf_opt r \<Longrightarrow> reconciles (merge p b l r) b l r"
  unfolding reconciles_def by (intro allI no_lost_update)

end

section \<open>Merging ontology values\<close>

lemma merge_value_agree: "opt_eq l r \<Longrightarrow> merge_value rid p b l r = (l, [])"
  by (simp add: merge_value.simps)

lemma merge_value_None [simp]: "merge_value rid p b None None = (None, [])"
  by (simp add: merge_value_agree)

text \<open>Where both sides changed an object, the merge is the merge of its fields.\<close>

lemma merge_value_objects:
  assumes "\<not> opt_eq (Some (JObject l)) (Some (JObject r))"
    "\<not> opt_eq (Some (JObject l)) (Some (JObject b))" "\<not> opt_eq (Some (JObject r)) (Some (JObject b))"
  shows "\<exists>m. fst (merge_value rid p (Some (JObject b)) (Some (JObject l)) (Some (JObject r))) = Some (JObject m) \<and>
      (\<forall>k. map_of m k = fst (merge_value rid (p @ [k]) (map_of b k) (map_of l k) (map_of r k)))"
    and "set (snd (merge_value rid p (Some (JObject b)) (Some (JObject l)) (Some (JObject r)))) =
      (\<Union>k. set (snd (merge_value rid (p @ [k]) (map_of b k) (map_of l k) (map_of r k))))"
proof -
  define ks where "ks = bs_collect (map fst b @ map fst l @ map fst r)"
  define f where "f k = merge_value rid (p @ [k]) (map_of b k) (map_of l k) (map_of r k)" for k
  have out: "f k = (None, [])" if "k \<notin> set ks" for k
    using that by (simp add: f_def ks_def map_of_eq_None_iff [symmetric])
  have eq: "merge_value rid p (Some (JObject b)) (Some (JObject l)) (Some (JObject r)) =
      (Some (JObject (assemble (map (\<lambda>k. (k, fst (f k))) ks))), concat (map (\<lambda>k. snd (f k)) ks))"
    using assms
    by (subst merge_value.simps) (simp add: as_object_def ks_def f_def comp_def case_prod_beta)
  have "map_of (assemble (map (\<lambda>k. (k, fst (f k))) ks)) k = fst (f k)" for k
    using out [of k] by (simp add: map_of_assemble ks_def)
  then show "\<exists>m. fst (merge_value rid p (Some (JObject b)) (Some (JObject l)) (Some (JObject r))) = Some (JObject m) \<and>
      (\<forall>k. map_of m k = fst (merge_value rid (p @ [k]) (map_of b k) (map_of l k) (map_of r k)))"
    by (auto simp: eq f_def)
  have "(\<Union>k \<in> set ks. set (snd (f k))) = (\<Union>k. set (snd (f k)))"
    using out by auto (metis empty_iff list.set(1) snd_conv)
  then show "set (snd (merge_value rid p (Some (JObject b)) (Some (JObject l)) (Some (JObject r)))) =
      (\<Union>k. set (snd (merge_value rid (p @ [k]) (map_of b k) (map_of l k) (map_of r k))))"
    by (simp add: eq f_def)
qed

lemma as_object_bind_Some: "Option.bind x as_object = Some m \<longleftrightarrow> x = Some (JObject m)"
  by (cases x) (auto simp: as_object_def split: json.splits)

text \<open>The four ways in which a call ends.\<close>

lemma merge_value_cases:
  obtains (agree) "opt_eq l r" "merge_value rid p b l r = (l, [])"
  | (left) "\<not> opt_eq l r" "opt_eq l b" "merge_value rid p b l r = (r, [])"
  | (right) "\<not> opt_eq l r" "\<not> opt_eq l b" "opt_eq r b" "merge_value rid p b l r = (l, [])"
  | (objects) bo lo ro where "\<not> opt_eq l r" "\<not> opt_eq l b" "\<not> opt_eq r b"
      "b = Some (JObject bo)" "l = Some (JObject lo)" "r = Some (JObject ro)"
  | (conflict) "\<not> opt_eq l r" "\<not> opt_eq l b" "\<not> opt_eq r b"
      "\<nexists>bo lo ro. b = Some (JObject bo) \<and> l = Some (JObject lo) \<and> r = Some (JObject ro)"
      "merge_value rid p b l r = (l, [\<lparr>mc_resource_id = rid, mc_path = p, mc_base = b,
         mc_left = l, mc_right = r\<rparr>])"
proof -
  consider "opt_eq l r" | "\<not> opt_eq l r" "opt_eq l b" | "\<not> opt_eq l r" "\<not> opt_eq l b" "opt_eq r b"
    | (both) "\<not> opt_eq l r" "\<not> opt_eq l b" "\<not> opt_eq r b" by blast
  then show thesis
  proof cases
    case both
    show ?thesis
    proof (cases "\<exists>bo lo ro. b = Some (JObject bo) \<and> l = Some (JObject lo) \<and> r = Some (JObject ro)")
      case True
      with both objects show ?thesis by blast
    next
      case False
      then have "merge_value rid p b l r = (l, [\<lparr>mc_resource_id = rid, mc_path = p, mc_base = b,
          mc_left = l, mc_right = r\<rparr>])"
        using both by (subst merge_value.simps) (auto simp: as_object_bind_Some split: option.splits)
      with both False conflict show ?thesis by blast
    qed
  qed (use agree left right in \<open>simp_all add: merge_value.simps [of rid p b l r]\<close>)
qed

lemma merge_induct [case_names step]:
  assumes "\<And>p b l r. (\<And>bo lo ro k. b = Some (JObject bo) \<Longrightarrow> l = Some (JObject lo) \<Longrightarrow>
      r = Some (JObject ro) \<Longrightarrow> P (p @ [k]) (map_of bo k) (map_of lo k) (map_of ro k)) \<Longrightarrow> P p b l r"
  shows "P (p :: string list) b l r"
proof (induction l arbitrary: p b r rule: measure_induct_rule [of opt_size])
  case (less l)
  show ?case
    by (rule assms, rule less, rule opt_size_map_of) (simp add: as_object_def)
qed

lemma wf_merge_value:
  "wf_opt b \<Longrightarrow> wf_opt l \<Longrightarrow> wf_opt r \<Longrightarrow> wf_opt (fst (merge_value rid p b l r))"
proof (induction p b l r rule: merge_induct)
  case (step p b l r)
  show ?case
  proof (cases rule: merge_value_cases [of l r rid p b])
    case (objects bo lo ro)
    define f where "f k = fst (merge_value rid (p @ [k]) (map_of bo k) (map_of lo k) (map_of ro k))" for k
    have wf: "wf_opt (f k)" for k
      unfolding f_def using step.prems objects(4-6)
      by (intro step.IH) (auto simp: pred_option_def list_all_iff)
    have "fst (merge_value rid p b l r) =
        Some (JObject (assemble (map (\<lambda>k. (k, f k)) (bs_collect (map fst bo @ map fst lo @ map fst ro)))))"
      using objects
      by (subst merge_value.simps) (simp add: as_object_def f_def comp_def case_prod_beta)
    moreover have "wf_json (JObject (assemble (map (\<lambda>k. (k, f k)) ks)))" for ks
      using wf by (intro wf_json_assemble) (auto simp: pred_option_def)
    ultimately show ?thesis by simp
  qed (use step.prems in simp_all)
qed

lemma merge_value_clean_field:
  assumes "snd (merge_value rid p b l r) = []" "\<not> opt_eq l r" "\<not> opt_eq l b" "\<not> opt_eq r b"
  shows "snd (merge_value rid (p @ [k]) (field b k) (field l k) (field r k)) = []"
    and "field (fst (merge_value rid p b l r)) k =
      fst (merge_value rid (p @ [k]) (field b k) (field l k) (field r k))"
proof -
  obtain bo lo ro where o: "b = Some (JObject bo)" "l = Some (JObject lo)" "r = Some (JObject ro)"
    using assms by (cases rule: merge_value_cases [of l r rid p b]) auto
  note objs = merge_value_objects [OF assms(2-4) [unfolded o], of rid p]
  from objs(2) show "snd (merge_value rid (p @ [k]) (field b k) (field l k) (field r k)) = []"
    using assms(1) o by auto
  from objs(1) show "field (fst (merge_value rid p b l r)) k =
      fst (merge_value rid (p @ [k]) (field b k) (field l k) (field r k))"
    using o by auto
qed

interpretation ontology_merge: three_way_merge
  "\<lambda>p b l r. fst (merge_value rid p b l r)" "\<lambda>p b l r. snd (merge_value rid p b l r) = []"
  "\<lambda>p k. p @ [k]" for rid
proof (unfold_locales, goal_cases)
  case 1
  then show ?case by (simp add: wf_merge_value)
next
  case (2 p b l r)
  then show ?case by (simp add: merge_value_agree opt_eq_refl)
next
  case (3 p b l r)
  then show ?case
    by (cases rule: merge_value_cases [of l r rid p b]) (auto simp: opt_eq_refl)
next
  case (4 p b l r)
  then show ?case
    by (cases rule: merge_value_cases [of l r rid p b])
      (auto simp: opt_eq_refl intro: opt_eq_trans opt_eq_sym)
next
  case (5 p b l r k)
  then show ?case using merge_value_clean_field by blast
qed

text \<open>
  A reported conflict names a place below the merged value where the three versions differ
  pairwise and cannot be merged field by field, and it quotes the three versions.
\<close>

lemma merge_value_conflict_genuine:
  assumes "c \<in> set (snd (merge_value rid p b l r))"
  shows "\<exists>q. mc_resource_id c = rid \<and> mc_path c = p @ q \<and>
    mc_base c = opt_path q b \<and> mc_left c = opt_path q l \<and> mc_right c = opt_path q r \<and>
    \<not> opt_eq (mc_left c) (mc_right c) \<and> \<not> opt_eq (mc_left c) (mc_base c) \<and>
    \<not> opt_eq (mc_right c) (mc_base c) \<and>
    \<not> (\<exists>bo lo ro. mc_base c = Some (JObject bo) \<and> mc_left c = Some (JObject lo) \<and>
        mc_right c = Some (JObject ro))"
  using assms
proof (induction p b l r rule: merge_induct)
  case (step p b l r)
  show ?case
  proof (cases rule: merge_value_cases [of l r rid p b])
    case (objects bo lo ro)
    then obtain k where k: "c \<in> set (snd (merge_value rid (p @ [k]) (map_of bo k) (map_of lo k) (map_of ro k)))"
      using step.prems merge_value_objects(2) [OF objects(1-3) [unfolded objects(4-6)], of rid p] by auto
    have sub: "opt_path q (map_of m k) = opt_path (k # q) (Some (JObject m))" for q m
      by (simp add: opt_path_field)
    from step.IH [OF objects(4-6) k] show ?thesis
      unfolding sub objects(4-6) [symmetric] by (metis append_Cons append_Nil append_assoc)
  qed (use step.prems in \<open>auto intro!: exI [of _ "[]"]\<close>)
qed

text \<open>Merging is symmetric: swapping the sides changes neither cleanness nor the result.\<close>

lemma opt_eq_commute: "wf_opt x \<Longrightarrow> wf_opt y \<Longrightarrow> opt_eq x y \<longleftrightarrow> opt_eq y x"
  using opt_eq_sym by blast

lemma wf_opt_map_of: "wf_opt (Some (JObject m)) \<Longrightarrow> wf_opt (map_of m k)"
  by (auto simp: pred_option_def list_all_iff)

text \<open>
  Swapping the two sides of a three-way merge changes neither whether it succeeds nor, up to the
  order of object keys, its result.
\<close>

lemma merge_value_symmetric:
  assumes "wf_opt b" "wf_opt l" "wf_opt r" "snd (merge_value rid p b l r) = []"
  shows "snd (merge_value rid p b r l) = [] \<and>
    opt_eq (fst (merge_value rid p b l r)) (fst (merge_value rid p b r l))"
  using assms
proof (induction p b l r rule: merge_induct)
  case (step p b l r)
  note comm = opt_eq_commute [OF step.prems(2,3)]
  show ?case
  proof (cases rule: merge_value_cases [of l r rid p b])
    case agree
    then show ?thesis using step.prems by (simp add: merge_value_agree comm)
  next
    case left
    have "\<not> opt_eq r b" using left(1,2) step.prems(1-3) opt_eq_trans opt_eq_sym by blast
    then have "merge_value rid p b r l = (r, [])"
      using left comm by (simp add: merge_value.simps [of rid p b r l])
    with left show ?thesis using step.prems by (simp add: opt_eq_refl)
  next
    case right
    then have "merge_value rid p b r l = (l, [])"
      using comm by (simp add: merge_value.simps [of rid p b r l])
    then show ?thesis using right step.prems by (simp add: opt_eq_refl)
  next
    case (objects bo lo ro)
    have swap: "\<not> opt_eq r l" using objects(1) comm by simp
    note lr = merge_value_objects [OF objects(1-3) [unfolded objects(4-6)], of rid p]
    note rl = merge_value_objects [OF swap [unfolded objects(4-6)]
        objects(3,2) [unfolded objects(4-6)], of rid p]
    have IH: "snd (merge_value rid (p @ [k]) (map_of bo k) (map_of ro k) (map_of lo k)) = [] \<and>
        opt_eq (fst (merge_value rid (p @ [k]) (map_of bo k) (map_of lo k) (map_of ro k)))
          (fst (merge_value rid (p @ [k]) (map_of bo k) (map_of ro k) (map_of lo k)))" for k
      using step.prems lr(2) objects(4-6)
      by (intro step.IH [OF objects(4-6)] wf_opt_map_of) auto
    obtain m n where m: "fst (merge_value rid p b l r) = Some (JObject m)"
        "fst (merge_value rid p b r l) = Some (JObject n)"
        "\<forall>k. opt_eq (map_of m k) (map_of n k)"
      using lr(1) rl(1) IH unfolding objects(4-6) by auto
    have "wf_json (JObject m)" "wf_json (JObject n)"
      using m wf_merge_value [OF step.prems(1-3), of rid p] wf_merge_value [OF step.prems(1,3,2), of rid p]
      by simp_all
    then have "json_eq (JObject m) (JObject n)" using m(3) json_eq_object by blast
    moreover have "snd (merge_value rid p b r l) = []"
      using rl(2) IH unfolding objects(4-6) by auto
    ultimately show ?thesis using m by simp
  qed (use step.prems in simp)
qed

lemma merge_value_symmetric_witness:
  "opt_eq (fst (merge_value ''t'' [] (Some base_ontology) (Some left_ontology) (Some base_ontology)))
     (fst (merge_value ''t'' [] (Some base_ontology) (Some base_ontology) (Some left_ontology)))"
proof -
  have "wf_json base_ontology" "wf_json left_ontology"
    and clean: "snd (merge_value ''t'' [] (Some base_ontology) (Some left_ontology) (Some base_ontology)) = []"
    by code_simp+
  then have "wf_opt (Some base_ontology)" "wf_opt (Some left_ontology)" by (simp_all only: option.pred_inject)
  from conjunct2 [OF merge_value_symmetric [OF this this(1) clean]] show ?thesis .
qed

section \<open>Differences\<close>

lemma diff_value_leaf:
  assumes "\<not> json_eq v w" "as_object v = None \<or> as_object w = None"
  shows "diff_value rid p v w = [\<lparr>sc_resource_id = rid, sc_operation = ''set_field'', sc_path = p,
    sc_before = Some v, sc_after = Some w\<rparr>]"
  using assms by (subst diff_value.simps) (auto split: option.splits)

definition diff_field :: "string \<Rightarrow> string list \<Rightarrow> json option \<Rightarrow> json option \<Rightarrow> semantic_change list" where
  "diff_field rid p x y =
     (case (x, y) of
        (Some v, Some w) \<Rightarrow> diff_value rid p v w
      | (None, None) \<Rightarrow> []
      | _ \<Rightarrow> [\<lparr>sc_resource_id = rid,
          sc_operation = (if y \<noteq> None then ''set_field'' else ''remove_field''),
          sc_path = p, sc_before = x, sc_after = y\<rparr>])"

lemma UN_outside_empty:
  "(\<And>k. k \<notin> K \<Longrightarrow> S k = {}) \<Longrightarrow> (\<Union>k \<in> K. if c k then {} else S k) = (\<Union>k \<in> {k. \<not> c k}. S k)"
  by (auto split: if_splits)

lemma set_diff_value_objects:
  assumes "\<not> json_eq (JObject b) (JObject a)"
  shows "set (diff_value rid p (JObject b) (JObject a)) =
    (\<Union>k \<in> {k. p \<noteq> [] \<or> k \<noteq> ''resource_id''}. set (diff_field rid (p @ [k]) (map_of b k) (map_of a k)))"
proof -
  define F where "F k = (if p = [] \<and> k = ''resource_id'' then []
      else case (map_of b k, map_of a k) of
        (Some left, Some right) \<Rightarrow> diff_value rid (p @ [k]) left right
      | (left, right) \<Rightarrow> [\<lparr>sc_resource_id = rid,
          sc_operation = (if right \<noteq> None then ''set_field'' else ''remove_field''),
          sc_path = p @ [k], sc_before = left, sc_after = right\<rparr>])" for k
  define K where "K = fst ` set b \<union> fst ` set a"
  have F: "F k = (if p = [] \<and> k = ''resource_id'' then []
      else diff_field rid (p @ [k]) (map_of b k) (map_of a k))" if "k \<in> K" for k
  proof -
    have "map_of b k \<noteq> None \<or> map_of a k \<noteq> None" using that by (auto simp: K_def map_of_eq_None_iff)
    then show ?thesis
      by (cases "map_of b k"; cases "map_of a k") (simp_all add: F_def diff_field_def)
  qed
  have out: "diff_field rid (p @ [k]) (map_of b k) (map_of a k) = []" if "k \<notin> K" for k
    using that by (simp add: K_def diff_field_def map_of_eq_None_iff [symmetric])
  have "diff_value rid p (JObject b) (JObject a) =
      concat (map F (bs_collect (map fst b @ map fst a)))"
    using assms unfolding F_def by (subst diff_value.simps) (simp add: as_object_def)
  then have "set (diff_value rid p (JObject b) (JObject a)) = (\<Union>k \<in> K. set (F k))"
    by (simp add: K_def)
  also have "\<dots> = (\<Union>k \<in> K. if p = [] \<and> k = ''resource_id'' then {}
      else set (diff_field rid (p @ [k]) (map_of b k) (map_of a k)))"
    by (rule SUP_cong) (simp_all add: F)
  also have "\<dots> = (\<Union>k \<in> {k. \<not> (p = [] \<and> k = ''resource_id'')}.
      set (diff_field rid (p @ [k]) (map_of b k) (map_of a k)))"
    by (rule UN_outside_empty) (simp add: out)
  finally show ?thesis by simp
qed

text \<open>Induction over a pair of values: leaves, and objects field by field.\<close>

lemma diff_induct [case_names leaf object]:
  assumes "\<And>p v w. as_object v = None \<or> as_object w = None \<Longrightarrow> P p v w"
    and "\<And>p b a. (\<And>k v w. map_of b k = Some v \<Longrightarrow> map_of a k = Some w \<Longrightarrow> P (p @ [k]) v w) \<Longrightarrow>
      P p (JObject b) (JObject a)"
  shows "P (p :: string list) v w"
proof (induction v arbitrary: p w rule: measure_induct_rule [of size])
  case (less v p w)
  show ?case
  proof (cases "as_object v = None \<or> as_object w = None")
    case False
    then obtain b a where v: "v = JObject b" "w = JObject a"
      by (auto simp: as_object_def split: json.splits)
    have sub: "P (p @ [k]) v' w'" if "map_of b k = Some v'" for k v' w'
      by (rule less) (use size_map_of [OF that] v in simp)
    have "P p (JObject b) (JObject a)" by (rule assms(2), rule sub)
    with v show ?thesis by simp
  qed (rule assms(1))
qed

lemma diff_field_cases:
  assumes "c \<in> set (diff_field rid p x y)"
  obtains (inner) v w where "x = Some v" "y = Some w" "c \<in> set (diff_value rid p v w)"
  | (present) "(x = None) \<noteq> (y = None)" "sc_resource_id c = rid" "sc_path c = p"
      "sc_before c = x" "sc_after c = y"
      "sc_operation c = (if y \<noteq> None then ''set_field'' else ''remove_field'')"
  using assms by (cases x; cases y) (auto simp: diff_field_def)

text \<open>
  Every change \<open>diff_value\<close> reports is genuine: it names a path at which the two documents differ,
  carries the values found there, and is a removal exactly when nothing is left there.
\<close>

lemma diff_value_sound:
  assumes "c \<in> set (diff_value rid p v w)"
  shows "\<exists>q. sc_resource_id c = rid \<and> sc_path c = p @ q \<and> sc_before c = get_path q v \<and>
    sc_after c = get_path q w \<and> \<not> opt_eq (sc_before c) (sc_after c) \<and>
    sc_operation c = (if sc_after c \<noteq> None then ''set_field'' else ''remove_field'')"
  using assms
proof (induction p v w rule: diff_induct)
  case (leaf p v w)
  show ?case
  proof (cases "json_eq v w")
    case True
    with leaf show ?thesis by (simp add: diff_value.simps [of rid p v w])
  next
    case False
    with leaf show ?thesis by (auto simp: diff_value_leaf intro!: exI [of _ "[]"])
  qed
next
  case (object p b a)
  then have "\<not> json_eq (JObject b) (JObject a)"
    by (auto simp: diff_value.simps [of rid p "JObject b"])
  then obtain k where "c \<in> set (diff_field rid (p @ [k]) (map_of b k) (map_of a k))"
    using object.prems by (auto simp: set_diff_value_objects)
  then show ?case
  proof (cases rule: diff_field_cases)
    case (inner v w)
    from object.IH [OF inner] obtain q where "sc_resource_id c = rid \<and> sc_path c = (p @ [k]) @ q \<and>
        sc_before c = get_path q v \<and> sc_after c = get_path q w \<and>
        \<not> opt_eq (sc_before c) (sc_after c) \<and>
        sc_operation c = (if sc_after c \<noteq> None then ''set_field'' else ''remove_field'')" by blast
    with inner show ?thesis by (intro exI [of _ "k # q"]) (auto simp: json_get_def)
  next
    case present
    then show ?thesis
      by (intro exI [of _ "[k]"]) (auto simp: json_get_def option.rel_sel split: bind_splits)
  qed
qed

lemma diff_value_sound_witness:
  "\<exists>c q. c \<in> set (diff_value ''t'' [] (type_document ''t'' ''T'') (type_document ''t'' ''A'')) \<and> sc_path c = q \<and>
    sc_before c = get_path q (type_document ''t'' ''T'') \<and> sc_after c = get_path q (type_document ''t'' ''A'') \<and>
    \<not> opt_eq (sc_before c) (sc_after c)"
proof -
  let ?d = "diff_value ''t'' [] (type_document ''t'' ''T'') (type_document ''t'' ''A'')"
  have "?d \<noteq> []" by code_simp
  then have "hd ?d \<in> set ?d" by simp
  with diff_value_sound [OF this] show ?thesis by auto
qed

text \<open>
  Nothing changes silently: wherever two versions differ below the compared value, some
  reported change lies on the way to that place or inside it. The identity field of a
  resource is the only one left out.
\<close>

lemma diff_value_complete:
  assumes "wf_json v" "wf_json w" "\<not> opt_eq (get_path q v) (get_path q w)"
    and "p = [] \<Longrightarrow> q \<noteq> [] \<and> hd q \<noteq> ''resource_id''"
  shows "\<exists>c \<in> set (diff_value rid p v w). \<exists>q'. sc_path c = p @ q' \<and> (prefix q' q \<or> prefix q q')"
  using assms
proof (induction p v w arbitrary: q rule: diff_induct)
  case (leaf p v w)
  have "\<not> json_eq v w"
    using leaf.prems(1-3) opt_path_eq [of "Some v" "Some w" q] by (auto simp: opt_path_def)
  with leaf.hyps show ?case by (auto simp: diff_value_leaf)
next
  case (object p b a)
  have neq: "\<not> json_eq (JObject b) (JObject a)"
    using object.prems(1-3) opt_path_eq [of "Some (JObject b)" "Some (JObject a)" q]
    by (auto simp: opt_path_def)
  obtain k q' where k: "p \<noteq> [] \<or> k \<noteq> ''resource_id''" "q = [] \<or> q = k # q'"
      "\<not> opt_eq (opt_path (if q = [] then [] else q') (map_of b k))
         (opt_path (if q = [] then [] else q') (map_of a k))"
  proof (cases q)
    case Nil
    then obtain k where "\<not> opt_eq (map_of b k) (map_of a k)"
      using neq object.prems(1,2) json_eq_object by blast
    with Nil object.prems(4) show thesis by (intro that [of k]) auto
  next
    case (Cons k q')
    with object.prems(3,4) show thesis
      by (intro that [of k q']) (auto simp: opt_path_def json_get_def)
  qed
  define q0 where "q0 = (if q = [] then [] else q')"
  have sub: "set (diff_field rid (p @ [k]) (map_of b k) (map_of a k)) \<subseteq>
      set (diff_value rid p (JObject b) (JObject a))"
    using k(1) by (auto simp: set_diff_value_objects [OF neq])
  show ?case
  proof (cases "map_of b k = None \<or> map_of a k = None")
    case True
    then obtain c where "c \<in> set (diff_field rid (p @ [k]) (map_of b k) (map_of a k))"
        "sc_path c = p @ [k]"
      using k(3) by (cases "map_of b k"; cases "map_of a k") (auto simp: diff_field_def)
    then show ?thesis using sub k(2) by (intro bexI [of _ c] exI [of _ "[k]"]) auto
  next
    case False
    then obtain v w where vw: "map_of b k = Some v" "map_of a k = Some w" by auto
    have "\<not> opt_eq (get_path q0 v) (get_path q0 w)"
      using k(3) vw by (simp add: q0_def opt_path_def)
    then obtain c q'' where c: "c \<in> set (diff_value rid (p @ [k]) v w)"
        "sc_path c = (p @ [k]) @ q''" "prefix q'' q0 \<or> prefix q0 q''"
      using object.IH [OF vw, of q0] map_of_wf [OF object.prems(1) vw(1)]
        map_of_wf [OF object.prems(2) vw(2)] by auto
    then have "c \<in> set (diff_value rid p (JObject b) (JObject a))"
      using sub vw by (auto simp: diff_field_def)
    moreover have "prefix (k # q'') q \<or> prefix q (k # q'')"
      using c(3) k(2) by (auto simp: q0_def split: if_splits)
    ultimately show ?thesis using c(2) by (intro bexI [of _ c] exI [of _ "k # q''"]) auto
  qed
qed

end
