(* ===== verification/Topological_Order.thy ===== *)
theory Topological_Order
  imports Prelude
begin

text \<open>
  Kahn's algorithm (\<open>topological_order\<close> in \<open>platform/registry/src/semantics.rs\<close>), with the
  indegree map, the downstream lists and the queue of the code. The loop runs on fuel; one more
  than the number of nodes is always enough. The result is \<open>None\<close> exactly when no topological
  enumeration of the nodes exists, which covers cycles and dependencies outside of the graph.
\<close>

section \<open>Definitions\<close>

definition dependency_edges :: "(string, string list) btree_map \<Rightarrow> (string \<times> string) list" where
  "dependency_edges dependencies =
     concat (map (\<lambda>(step, inputs). map (\<lambda>input. (input, step)) inputs) dependencies)"

definition initial_indegree :: "string list \<Rightarrow> (string, string list) btree_map \<Rightarrow> (string, nat) btree_map" where
  "initial_indegree sources dependencies =
     bt_collect (map (\<lambda>node. (node, 0)) (sources @ bt_keys dependencies))"

definition count_edge :: "string \<times> string \<Rightarrow> (string, nat) btree_map \<Rightarrow> (string, nat) btree_map" where
  "count_edge e indegree =
     (case bt_get indegree (snd e) of
        None \<Rightarrow> indegree
      | Some degree \<Rightarrow> bt_insert (snd e) (degree + 1) indegree)"

definition downstream_of :: "(string \<times> string) list \<Rightarrow> (string, string list) btree_map" where
  "downstream_of edges = group_by Some edges"

fun release :: "string list \<Rightarrow> (string, nat) btree_map \<Rightarrow> string list \<Rightarrow> (string, nat) btree_map \<times> string list" where
  "release [] indegree ready = (indegree, ready)"
| "release (child # children) indegree ready =
     (case bt_get indegree child of
        None \<Rightarrow> release children indegree ready
      | Some degree \<Rightarrow>
          release children (bt_insert child (degree - 1) indegree)
            (if degree - 1 = 0 then ready @ [child] else ready))"

fun kahn_loop ::
  "nat \<Rightarrow> (string, string list) btree_map \<Rightarrow> (string, nat) btree_map \<Rightarrow> string list \<Rightarrow> string list
    \<Rightarrow> string list option" where
  "kahn_loop 0 downstream indegree ready order = None"
| "kahn_loop (Suc fuel) downstream indegree [] order = Some order"
| "kahn_loop (Suc fuel) downstream indegree (node # ready) order =
     (case release (case bt_get downstream node of None \<Rightarrow> [] | Some children \<Rightarrow> children) indegree ready of
        (indegree', ready') \<Rightarrow> kahn_loop fuel downstream indegree' ready' (order @ [node]))"

definition topological_order :: "string list \<Rightarrow> (string, string list) btree_map \<Rightarrow> string list option" where
  "topological_order sources dependencies =
     (let edges = dependency_edges dependencies;
          indegree = fold count_edge edges (initial_indegree sources dependencies);
          ready = map fst (filter (\<lambda>(node, degree). degree = 0) indegree) in
      case kahn_loop (Suc (length indegree)) (downstream_of edges) indegree ready [] of
        None \<Rightarrow> None
      | Some order \<Rightarrow> if length order = length indegree then Some order else None)"

section \<open>Topological enumerations\<close>

definition topological :: "string set \<Rightarrow> (string \<times> string) set \<Rightarrow> string list \<Rightarrow> bool" where
  "topological nodes E ord \<longleftrightarrow>
     distinct ord \<and> set ord = nodes \<and>
     (\<forall>xs n ys i. ord = xs @ n # ys \<longrightarrow> (i, n) \<in> E \<longrightarrow> i \<in> set xs)"

text \<open>The edges into a node whose origin is not ordered yet.\<close>

definition deg_left :: "(string \<times> string) list \<Rightarrow> string list \<Rightarrow> string \<Rightarrow> nat" where
  "deg_left edges order n = length (filter (\<lambda>(i, s). s = n \<and> i \<notin> set order) edges)"

lemma deg_left_0_iff: "deg_left edges order n = 0 \<longleftrightarrow> (\<forall>i. (i, n) \<in> set edges \<longrightarrow> i \<in> set order)"
  by (auto simp: deg_left_def filter_empty_conv)

lemma deg_left_snoc:
  "x \<notin> set order \<Longrightarrow>
    deg_left edges order n = deg_left edges (order @ [x]) n + count_list (map snd (filter (\<lambda>(i, _). i = x) edges)) n"
  unfolding deg_left_def by (induction edges) auto

lemma downstream_group: "group (downstream_of edges) x = map snd (filter (\<lambda>(i, _). i = x) edges)"
  by (simp add: downstream_of_def group_group_by List.map_filter_def)

text \<open>Releasing the children of a node, none more often than its indegree allows.\<close>

lemma release_correct:
  assumes "\<And>c. c \<in> set cs \<Longrightarrow> \<exists>d. bt_get indegree c = Some d \<and> count_list cs c \<le> d"
    and "release cs indegree ready = (indegree', ready')"
  shows "bt_get indegree' n = map_option (\<lambda>d. d - count_list cs n) (bt_get indegree n) \<and>
    (\<exists>new. ready' = ready @ new \<and> distinct new \<and>
      set new = {c \<in> set cs. bt_get indegree c = Some (count_list cs c)})"
  using assms
proof (induction cs arbitrary: indegree ready)
  case Nil
  then show ?case by (cases "bt_get indegree n") simp_all
next
  case (Cons c cs)
  obtain d where d: "bt_get indegree c = Some d" "count_list (c # cs) c \<le> d"
    using Cons.prems(1) [of c] by auto
  define indegree1 where "indegree1 = bt_insert c (d - 1) indegree"
  define ready1 where "ready1 = (if d - 1 = 0 then ready @ [c] else ready)"
  have get1: "bt_get indegree1 x = (if x = c then Some (d - 1) else bt_get indegree x)" for x
    by (simp add: indegree1_def)
  have "\<exists>d'. bt_get indegree1 x = Some d' \<and> count_list cs x \<le> d'" if "x \<in> set cs" for x
    using that Cons.prems(1) [of x] d by (auto simp: get1 split: if_splits)
  moreover have "release cs indegree1 ready1 = (indegree', ready')"
    using Cons.prems(2) d(1) by (simp add: indegree1_def ready1_def)
  ultimately have IH: "bt_get indegree' n = map_option (\<lambda>d. d - count_list cs n) (bt_get indegree1 n)"
    and "\<exists>new. ready' = ready1 @ new \<and> distinct new \<and>
      set new = {x \<in> set cs. bt_get indegree1 x = Some (count_list cs x)}"
    using Cons.IH by blast+
  then obtain new where new: "ready' = ready1 @ new" "distinct new"
      "set new = {x \<in> set cs. bt_get indegree1 x = Some (count_list cs x)}" by blast
  have deg: "bt_get indegree' n = map_option (\<lambda>d. d - count_list (c # cs) n) (bt_get indegree n)"
    using IH d by (auto simp: get1)
  show ?case
  proof (cases "d - 1 = 0")
    case True
    then have "d = 1" "count_list cs c = 0" using d(2) by auto
    then have d1: "d = 1" "c \<notin> set cs" by (simp_all add: count_list_0_iff)
    have "x \<in> set (c # new) \<longleftrightarrow> x \<in> set (c # cs) \<and> bt_get indegree x = Some (count_list (c # cs) x)" for x
      unfolding list.set(2) new(3) by (cases "x = c") (simp_all add: get1 d(1) d1 count_list_0_iff)
    then have "set (c # new) = {x \<in> set (c # cs). bt_get indegree x = Some (count_list (c # cs) x)}"
      by blast
    moreover have "ready' = ready @ c # new" "distinct (c # new)"
      using new d1 True by (auto simp: ready1_def)
    ultimately show ?thesis using deg by blast
  next
    case False
    have "set new = {x \<in> set (c # cs). bt_get indegree x = Some (count_list (c # cs) x)}"
      using new(3) d False by (auto simp: get1 count_list_0_iff)
    moreover have "ready' = ready @ new" using new(1) False by (simp add: ready1_def)
    ultimately show ?thesis using deg new(2) by blast
  qed
qed

section \<open>Correctness of the loop\<close>

definition kahn_inv ::
  "string set \<Rightarrow> (string \<times> string) list \<Rightarrow> (string, nat) btree_map \<Rightarrow> string list \<Rightarrow> string list \<Rightarrow> bool" where
  "kahn_inv nodes edges indegree ready order \<longleftrightarrow>
     (\<forall>n. bt_get indegree n = (if n \<in> nodes then Some (deg_left edges order n) else None)) \<and>
     distinct (order @ ready) \<and>
     set (order @ ready) = {n \<in> nodes. deg_left edges order n = 0} \<and>
     (\<forall>xs n ys i. order = xs @ n # ys \<longrightarrow> (i, n) \<in> set edges \<longrightarrow> i \<in> set xs)"

lemma kahn_step:
  assumes inv: "kahn_inv nodes edges indegree (x # ready) order"
    and targets: "snd ` set edges \<subseteq> nodes"
    and rel: "release (group (downstream_of edges) x) indegree ready = (indegree', ready')"
  shows "kahn_inv nodes edges indegree' ready' (order @ [x])"
proof -
  let ?cs = "group (downstream_of edges) x"
  from inv have get: "\<And>n. bt_get indegree n = (if n \<in> nodes then Some (deg_left edges order n) else None)"
    and dist: "distinct (order @ x # ready)"
    and zero: "set (order @ x # ready) = {n \<in> nodes. deg_left edges order n = 0}"
    and sorted: "\<And>xs n ys i. order = xs @ n # ys \<Longrightarrow> (i, n) \<in> set edges \<Longrightarrow> i \<in> set xs"
    unfolding kahn_inv_def by blast+
  have x: "x \<notin> set order" using dist by auto
  have split: "deg_left edges order n = deg_left edges (order @ [x]) n + count_list ?cs n" for n
    unfolding downstream_group by (rule deg_left_snoc [OF x])
  have child: "\<exists>d. bt_get indegree c = Some d \<and> count_list ?cs c \<le> d" if "c \<in> set ?cs" for c
  proof -
    have "c \<in> nodes" using that targets by (auto simp: downstream_group)
    then show ?thesis using get split [of c] by auto
  qed
  note released = release_correct [OF child rel]
  obtain new where new: "ready' = ready @ new" "distinct new"
      "set new = {c \<in> set ?cs. bt_get indegree c = Some (count_list ?cs c)}"
    using released by blast
  have get': "bt_get indegree' n = (if n \<in> nodes then Some (deg_left edges (order @ [x]) n) else None)" for n
    using released [of n] get [of n] split [of n] by auto
  have newly: "set new = {n \<in> nodes. deg_left edges (order @ [x]) n = 0 \<and> deg_left edges order n \<noteq> 0}"
    unfolding new(3) using split get by (auto simp: count_list_0_iff split: if_splits)
  have dist': "distinct ((order @ [x]) @ ready')"
    using dist new(1,2) newly zero by auto
  have mono: "deg_left edges (order @ [x]) n = 0" if "deg_left edges order n = 0" for n
    using that split [of n] by simp
  have "set ((order @ [x]) @ ready') = set (order @ x # ready) \<union> set new" by (auto simp: new(1))
  also have "\<dots> = {n \<in> nodes. deg_left edges (order @ [x]) n = 0}"
    unfolding zero newly using mono by auto
  finally have zero': "set ((order @ [x]) @ ready') = {n \<in> nodes. deg_left edges (order @ [x]) n = 0}" .
  have "deg_left edges order x = 0" using zero by auto
  then have "i \<in> set xs" if "order @ [x] = xs @ n # ys" "(i, n) \<in> set edges" for xs n ys i
    using that sorted [of xs n "butlast ys" i]
    by (cases ys rule: rev_cases) (auto simp: deg_left_0_iff)
  then show ?thesis using get' dist' zero' unfolding kahn_inv_def by blast
qed

lemma kahn_loop_correct:
  assumes "kahn_inv nodes edges indegree ready order" "snd ` set edges \<subseteq> nodes" "finite nodes"
    and "card nodes < fuel + length order"
  shows "\<exists>out indegree'. kahn_loop fuel (downstream_of edges) indegree ready order = Some out \<and>
    kahn_inv nodes edges indegree' [] out"
  using assms
proof (induction fuel arbitrary: indegree ready order)
  case 0
  have "distinct order" "set order \<subseteq> nodes" using 0(1) by (auto simp: kahn_inv_def)
  then have "length order \<le> card nodes" using 0(3) by (metis card_mono distinct_card)
  with 0(4) show ?case by simp
next
  case (Suc fuel)
  show ?case
  proof (cases ready)
    case Nil
    with Suc.prems(1) show ?thesis by auto
  next
    case (Cons x rest)
    obtain indegree' ready' where rel: "release (group (downstream_of edges) x) indegree rest = (indegree', ready')"
      by fastforce
    from Suc.IH [OF kahn_step [OF Suc.prems(1) [unfolded Cons] Suc.prems(2) rel] Suc.prems(2,3)] Suc.prems(4)
    show ?thesis using Cons rel by (simp add: group_def)
  qed
qed

section \<open>The initial state\<close>

definition graph_nodes :: "string list \<Rightarrow> (string, string list) btree_map \<Rightarrow> string set" where
  "graph_nodes sources dependencies = set sources \<union> set (bt_keys dependencies)"

definition graph_edges :: "(string, string list) btree_map \<Rightarrow> (string \<times> string) set" where
  "graph_edges dependencies = {(i, s). \<exists>inputs. (s, inputs) \<in> set dependencies \<and> i \<in> set inputs}"

lemma set_dependency_edges: "set (dependency_edges dependencies) = graph_edges dependencies"
  by (fastforce simp: dependency_edges_def graph_edges_def)

lemma edge_targets: "snd ` set (dependency_edges deps) \<subseteq> graph_nodes sources deps"
  by (force simp: set_dependency_edges graph_edges_def graph_nodes_def bt_keys_def)

lemma count_edges_get:
  "bt_get (fold count_edge edges m) n = map_option (\<lambda>d. d + deg_left edges [] n) (bt_get m n)"
proof (induction edges arbitrary: m)
  case Nil
  then show ?case by (cases "bt_get m n") (simp_all add: deg_left_def)
next
  case (Cons e edges)
  obtain i s where e: "e = (i, s)" by (cases e)
  show ?case
    unfolding fold_Cons comp_apply Cons.IH
    by (cases "bt_get m s"; cases "s = n"; cases "bt_get m n") (auto simp: e count_edge_def deg_left_def)
qed

lemma btree_count_edges: "btree m \<Longrightarrow> btree (fold count_edge edges m)"
  by (induction edges arbitrary: m) (auto simp: count_edge_def split: option.split)

definition counted_indegree :: "string list \<Rightarrow> (string, string list) btree_map \<Rightarrow> (string, nat) btree_map" where
  "counted_indegree sources deps = fold count_edge (dependency_edges deps) (initial_indegree sources deps)"

lemma bt_get_counted:
  "bt_get (counted_indegree sources deps) n =
    (if n \<in> graph_nodes sources deps then Some (deg_left (dependency_edges deps) [] n) else None)"
proof -
  have "bt_contains (initial_indegree sources deps) n \<longleftrightarrow> n \<in> graph_nodes sources deps"
    by (simp add: initial_indegree_def graph_nodes_def image_Un image_image)
  moreover have "bt_get (initial_indegree sources deps) n = Some d \<Longrightarrow> d = 0" for d
    unfolding initial_indegree_def by (drule bt_get_collect_Some) auto
  ultimately have "bt_get (initial_indegree sources deps) n = (if n \<in> graph_nodes sources deps then Some 0 else None)"
    by (cases "bt_get (initial_indegree sources deps) n") (auto simp: bt_contains_get)
  then show ?thesis by (simp add: counted_indegree_def count_edges_get)
qed

lemma btree_counted: "btree (counted_indegree sources deps)"
  unfolding counted_indegree_def initial_indegree_def by (intro btree_count_edges btree_collect)

lemma length_counted: "length (counted_indegree sources deps) = card (graph_nodes sources deps)"
proof -
  have "set (bt_keys (counted_indegree sources deps)) = graph_nodes sources deps"
    by (auto simp: bt_contains_get bt_get_counted split: if_splits simp flip: bt_contains_iff)
  then show ?thesis
    using btree_distinct [OF btree_counted, of sources deps] distinct_card
    by (metis bt_keys_def length_map)
qed

lemma kahn_inv_start:
  "kahn_inv (graph_nodes sources deps) (dependency_edges deps) (counted_indegree sources deps)
     (map fst (filter (\<lambda>(node, degree). degree = 0) (counted_indegree sources deps))) []"
proof -
  let ?m = "counted_indegree sources deps"
  let ?ready = "map fst (filter (\<lambda>(node, degree). degree = 0) ?m)"
  have "n \<in> set ?ready \<longleftrightarrow> (n, 0) \<in> set ?m" for n by force
  then have "n \<in> set ?ready \<longleftrightarrow> bt_get ?m n = Some 0" for n
    by (simp only: bt_get_eq_Some [OF btree_counted])
  then have "set ?ready = {n \<in> graph_nodes sources deps. deg_left (dependency_edges deps) [] n = 0}"
    unfolding set_eq_iff by (simp only: bt_get_counted) auto
  moreover have "distinct ?ready" by (rule distinct_map_filter [OF btree_distinct [OF btree_counted]])
  ultimately show ?thesis by (simp add: kahn_inv_def bt_get_counted)
qed

section \<open>Correctness\<close>

lemma topological_order_unfold:
  obtains out indegree where
    "kahn_inv (graph_nodes sources deps) (dependency_edges deps) indegree [] out"
    "topological_order sources deps = (if length out = card (graph_nodes sources deps) then Some out else None)"
proof -
  have "finite (graph_nodes sources deps)" by (simp add: graph_nodes_def)
  from kahn_loop_correct [OF kahn_inv_start edge_targets this, of "Suc (length (counted_indegree sources deps))"]
  show thesis
    using that unfolding topological_order_def Let_def counted_indegree_def [symmetric]
    by (auto simp: length_counted)
qed

lemma topological_order_sound:
  assumes "topological_order sources deps = Some ord"
  shows "topological (graph_nodes sources deps) (graph_edges deps) ord"
proof -
  obtain indegree where inv: "kahn_inv (graph_nodes sources deps) (dependency_edges deps) indegree [] ord"
    and len: "length ord = card (graph_nodes sources deps)"
    using assms by (rule_tac topological_order_unfold [of sources deps]) (auto split: if_splits)
  have "distinct ord" "set ord \<subseteq> graph_nodes sources deps" using inv by (auto simp: kahn_inv_def)
  moreover have "finite (graph_nodes sources deps)" by (simp add: graph_nodes_def)
  ultimately have "set ord = graph_nodes sources deps"
    using len by (metis card_subset_eq distinct_card)
  then show ?thesis
    using inv unfolding kahn_inv_def topological_def set_dependency_edges by simp
qed

text \<open>An order exists exactly when every dependency is a node and no step depends on itself.\<close>

lemma topological_acyclic:
  assumes "topological nodes E ord" "snd ` E \<subseteq> nodes"
  shows "acyclic E" "fst ` E \<subseteq> nodes"
proof -
  define pos where "pos x = length (takeWhile (\<lambda>y. y \<noteq> x) ord)" for x
  have before: "i \<in> nodes \<and> pos i < pos n" if e: "(i, n) \<in> E" for i n
  proof -
    have "n \<in> set ord" using assms e by (force simp: topological_def)
    then obtain xs ys where ord: "ord = xs @ n # ys" "n \<notin> set xs" by (meson split_list_first)
    then have i: "i \<in> set xs" using assms(1) e by (auto simp: topological_def)
    have "takeWhile (\<lambda>y. y \<noteq> n) ord = xs" using ord by (subst ord(1), subst takeWhile_append2) auto
    moreover obtain us vs where xs: "xs = us @ i # vs" "i \<notin> set us" using i by (meson split_list_first)
    then have "takeWhile (\<lambda>y. y \<noteq> i) ord = us" by (subst ord(1), simp, subst takeWhile_append2) auto
    ultimately show ?thesis using assms(1) ord(1) xs(1) by (auto simp: pos_def topological_def)
  qed
  then have "E \<subseteq> measure pos" by auto
  then show "acyclic E" by (meson wf_acyclic wf_measure wf_subset)
  show "fst ` E \<subseteq> nodes" using before by auto
qed

lemma finite_graph_edges: "finite (graph_edges deps)"
  unfolding set_dependency_edges [symmetric] by simp

lemma topological_order_exists:
  assumes "acyclic (graph_edges deps)" "fst ` graph_edges deps \<subseteq> graph_nodes sources deps"
  shows "\<exists>ord. topological_order sources deps = Some ord"
proof -
  obtain out indegree where inv: "kahn_inv (graph_nodes sources deps) (dependency_edges deps) indegree [] out"
    and eq: "topological_order sources deps = (if length out = card (graph_nodes sources deps) then Some out else None)"
    by (rule topological_order_unfold)
  have closed: "n \<in> set out" if "n \<in> graph_nodes sources deps" "\<forall>i. (i, n) \<in> graph_edges deps \<longrightarrow> i \<in> set out" for n
    using inv that by (auto simp: kahn_inv_def deg_left_0_iff set_dependency_edges)
  have "graph_nodes sources deps - set out = {}"
  proof (rule ccontr)
    assume "graph_nodes sources deps - set out \<noteq> {}"
    then obtain n where n: "n \<in> graph_nodes sources deps - set out"
        "\<And>i. (i, n) \<in> graph_edges deps \<Longrightarrow> i \<notin> graph_nodes sources deps - set out"
      using finite_acyclic_wf [OF finite_graph_edges assms(1)] wfE_min' by metis
    have "\<forall>i. (i, n) \<in> graph_edges deps \<longrightarrow> i \<in> set out" using n(2) assms(2) by force
    then show False using closed [of n] n(1) by blast
  qed
  moreover have "set out \<subseteq> graph_nodes sources deps" "distinct out" using inv by (auto simp: kahn_inv_def)
  ultimately have "length out = card (graph_nodes sources deps)" by (metis Diff_eq_empty_iff distinct_card subset_antisym)
  then show ?thesis by (simp add: eq)
qed

lemma graph_edge_targets: "snd ` graph_edges deps \<subseteq> graph_nodes sources deps"
  using edge_targets [of deps sources] by (simp add: set_dependency_edges)

lemma topological_order_None_iff:
  "topological_order sources deps = None \<longleftrightarrow>
    \<not> (acyclic (graph_edges deps) \<and> fst ` graph_edges deps \<subseteq> graph_nodes sources deps)"
proof (cases "topological_order sources deps")
  case (Some ord)
  from topological_acyclic [OF topological_order_sound [OF Some] graph_edge_targets] show ?thesis
    using Some by simp
next
  case None
  then show ?thesis using topological_order_exists by fastforce
qed

end
