(* ===== verification/Ontology_Resource.thy ===== *)
theory Ontology_Resource
  imports Json
begin

text \<open>
  The resources of an ontology document and their parser (\<open>parse_resources\<close> and its helpers in
  \<open>platform/registry/src/semantics.rs\<close>). The borrowed fields of the Rust struct are values here.
\<close>

definition SCALAR_TYPES :: "string list" where
  "SCALAR_TYPES =
    [''boolean'', ''bytes'', ''date'', ''datetime'', ''decimal'', ''float'', ''geopoint'',
     ''integer'', ''json'', ''string'', ''uuid'']"

definition RESOURCE_KINDS :: "string list" where
  "RESOURCE_KINDS =
    [''object_type'', ''event_type'', ''property'', ''link_type'', ''action'', ''function'']"

record resource =
  r_id :: string
  r_kind :: string
  r_display_name :: string
  r_owner :: "string option"
  r_value_type :: "string option"
  r_references :: "string list"
  r_parents :: "string list"
  r_attributes :: json_map

definition string_array :: "json option \<Rightarrow> string \<Rightarrow> string list result" where
  "string_array value field =
     (case value of
        None \<Rightarrow> Inr []
      | Some JNull \<Rightarrow> Inr []
      | Some (JString item) \<Rightarrow> Inr [item]
      | Some (JArray items) \<Rightarrow>
          try_map (\<lambda>item. option_context (field @ '' must contain strings'') (as_str item)) items
      | Some _ \<Rightarrow> bail (field @ '' must be a string or array''))"

definition required_string :: "json \<Rightarrow> string \<Rightarrow> string \<Rightarrow> string result" where
  "required_string value field owner =
     and_then (option_context (owner @ '' '' @ field @ '' missing'') (get_str value field))
       (\<lambda>s. ensure (s \<noteq> []) (owner @ '' '' @ field @ '' empty'') (Inr s))"

definition valid_id :: "string \<Rightarrow> bool" where
  "valid_id value \<longleftrightarrow>
     value \<noteq> [] \<and> length value \<le> 128 \<and>
     list_all (\<lambda>byte. is_ascii_alphanumeric byte \<or> byte \<in> set ''_-.:'') value"

definition parse_resource :: "string list \<times> resource list \<Rightarrow> json \<Rightarrow> (string list \<times> resource list) result" where
  "parse_resource acc value =
     (case acc of (ids, resources) \<Rightarrow>
      and_then (required_string value ''resource_id'' ''ontology resource'') (\<lambda>id.
      ensure (valid_id id) (''invalid_resource_id:'' @ id) (
      ensure (id \<notin> set ids) (''duplicate_resource_id:'' @ id) (
      and_then (required_string value ''kind'' ''ontology resource'') (\<lambda>kind.
      ensure (kind \<in> set RESOURCE_KINDS) (''invalid_resource_kind:'' @ id @ '':'' @ kind) (
      and_then (required_string value ''display_name'' ''ontology resource'') (\<lambda>display_name.
      and_then (option_context ''ontology resource attributes missing'' (get_object value ''attributes''))
        (\<lambda>attributes.
      and_then (string_array (json_get value ''references'') ''references'') (\<lambda>references.
      and_then (string_array (map_of attributes ''extends'') ''extends'') (\<lambda>extends.
      and_then (string_array (map_of attributes ''interfaces'') ''interfaces'') (\<lambda>interfaces.
      Inr (id # ids,
           resources @
             [\<lparr>r_id = id, r_kind = kind, r_display_name = display_name,
               r_owner = get_str value ''owner_id'', r_value_type = get_str value ''value_type'',
               r_references = references, r_parents = extends @ interfaces,
               r_attributes = attributes\<rparr>]))))))))))))"

definition parse_resources :: "json \<Rightarrow> resource list result" where
  "parse_resources ontology =
     and_then (option_context ''ontology_version_missing'' (get_str ontology ''version'')) (\<lambda>version.
     ensure (version \<noteq> []) ''ontology_version_empty'' (
     and_then (option_context ''ontology_resources_missing'' (get_array ontology ''resources'')) (\<lambda>values.
     and_then (try_fold parse_resource ([], []) values) (\<lambda>(ids, resources). Inr resources))))"

text \<open>Parsing succeeds only on pairwise different, well-shaped identities.\<close>

lemma parse_resource_Inr:
  assumes "parse_resource (ids, rs) value = Inr (ids', rs')"
  shows "\<exists>r. ids' = r_id r # ids \<and> rs' = rs @ [r] \<and> r_id r \<notin> set ids \<and> valid_id (r_id r) \<and>
    r_kind r \<in> set RESOURCE_KINDS \<and> get_str value ''resource_id'' = Some (r_id r) \<and>
    get_str value ''kind'' = Some (r_kind r) \<and>
    r_owner r = get_str value ''owner_id'' \<and> r_value_type r = get_str value ''value_type'' \<and>
    string_array (json_get value ''references'') ''references'' = Inr (r_references r) \<and>
    get_object value ''attributes'' = Some (r_attributes r) \<and>
    (\<exists>es is. string_array (map_of (r_attributes r) ''extends'') ''extends'' = Inr es \<and>
       string_array (map_of (r_attributes r) ''interfaces'') ''interfaces'' = Inr is \<and>
       r_parents r = es @ is)"
  using assms unfolding parse_resource_def
  by (auto simp: result_simps required_string_def)

lemma parse_resources_fold:
  assumes "try_fold parse_resource ([], []) vs = Inr (ids, rs)"
  shows "ids = rev (map r_id rs) \<and> distinct (map r_id rs) \<and> (\<forall>r \<in> set rs. valid_id (r_id r))"
proof -
  have "(\<lambda>(ids, rs). ids = rev (map r_id rs) \<and> distinct (map r_id rs) \<and> (\<forall>r \<in> set rs. valid_id (r_id r)))
      (ids, rs)"
    by (rule try_fold_invariant [OF assms]) (auto dest!: parse_resource_Inr)
  then show ?thesis by simp
qed

lemma parse_resources_distinct: "parse_resources doc = Inr rs \<Longrightarrow> distinct (map r_id rs)"
  unfolding parse_resources_def by (auto simp: result_simps dest!: parse_resources_fold)

text \<open>The parsed resources correspond one to one, in order, to the entries of the document.\<close>

definition parsed_as :: "json \<Rightarrow> resource \<Rightarrow> bool" where
  "parsed_as value r \<longleftrightarrow> (\<exists>ids rs. parse_resource (ids, rs) value = Inr (r_id r # ids, rs @ [r]))"

lemma try_fold_parse_entries:
  assumes "try_fold parse_resource (ids, rs) vs = Inr (ids', rs')"
  shows "\<exists>new. rs' = rs @ new \<and> list_all2 parsed_as vs new"
  using assms
proof (induction vs arbitrary: ids rs)
  case (Cons v vs)
  then obtain ids1 rs1 where step: "parse_resource (ids, rs) v = Inr (ids1, rs1)"
      "try_fold parse_resource (ids1, rs1) vs = Inr (ids', rs')"
    by (auto simp: result_simps)
  from parse_resource_Inr [OF step(1)] obtain r where r: "ids1 = r_id r # ids" "rs1 = rs @ [r]" by blast
  with step(1) have "parsed_as v r" by (auto simp: parsed_as_def)
  moreover obtain new where "rs' = rs1 @ new" "list_all2 parsed_as vs new"
    using Cons.IH [OF step(2)] by blast
  ultimately show ?case using r by (intro exI [of _ "r # new"]) simp
qed simp

lemma parse_resources_entries:
  assumes "parse_resources doc = Inr rs"
  obtains vs where "get_array doc ''resources'' = Some vs" "list_all2 parsed_as vs rs"
  using assms unfolding parse_resources_def
  by (auto simp: result_simps dest!: try_fold_parse_entries)

lemma parsed_as_fields:
  assumes "parsed_as value r"
  shows "get_str value ''resource_id'' = Some (r_id r)" "get_str value ''kind'' = Some (r_kind r)"
    "get_str value ''owner_id'' = r_owner r" "get_str value ''value_type'' = r_value_type r"
    "get_object value ''attributes'' = Some (r_attributes r)"
    "string_array (json_get value ''references'') ''references'' = Inr (r_references r)"
    "valid_id (r_id r)" "r_kind r \<in> set RESOURCE_KINDS"
    "\<exists>es is. string_array (map_of (r_attributes r) ''extends'') ''extends'' = Inr es \<and>
       string_array (map_of (r_attributes r) ''interfaces'') ''interfaces'' = Inr is \<and>
       r_parents r = es @ is"
  using assms unfolding parsed_as_def by (auto dest!: parse_resource_Inr)

text \<open>Parsing succeeds exactly on documents whose entries parse one by one to distinct identities.\<close>

lemma parsed_as_step:
  assumes "parsed_as value r" "r_id r \<notin> set ids"
  shows "parse_resource (ids, rs) value = Inr (r_id r # ids, rs @ [r])"
proof -
  obtain ids0 rs0 where "parse_resource (ids0, rs0) value = Inr (r_id r # ids0, rs0 @ [r])"
    using assms(1) by (auto simp: parsed_as_def)
  with assms(2) show ?thesis
    unfolding parse_resource_def by (auto simp: result_simps required_string_def)
qed

lemma parse_fold_entries:
  "list_all2 parsed_as vs new \<Longrightarrow> distinct (map r_id new) \<Longrightarrow> set ids \<inter> r_id ` set new = {} \<Longrightarrow>
    try_fold parse_resource (ids, rs) vs = Inr (rev (map r_id new) @ ids, rs @ new)"
proof (induction vs new arbitrary: ids rs rule: list_all2_induct)
  case (Cons v vs r new)
  have "parse_resource (ids, rs) v = Inr (r_id r # ids, rs @ [r])"
    by (rule parsed_as_step) (use Cons in auto)
  moreover have "try_fold parse_resource (r_id r # ids, rs @ [r]) vs =
      Inr (rev (map r_id new) @ (r_id r # ids), (rs @ [r]) @ new)"
    by (rule Cons.IH) (use Cons.prems in auto)
  ultimately show ?case by simp
qed simp

lemma parse_resources_iff:
  "parse_resources doc = Inr rs \<longleftrightarrow>
    (\<exists>version vs. get_str doc ''version'' = Some version \<and> version \<noteq> [] \<and>
       get_array doc ''resources'' = Some vs \<and> list_all2 parsed_as vs rs \<and> distinct (map r_id rs))"
    (is "_ \<longleftrightarrow> ?R")
proof
  assume parsed: "parse_resources doc = Inr rs"
  then obtain vs where vs: "get_array doc ''resources'' = Some vs" "list_all2 parsed_as vs rs"
    by (rule parse_resources_entries)
  obtain version where "get_str doc ''version'' = Some version" "version \<noteq> []"
    using parsed unfolding parse_resources_def by (auto simp: result_simps)
  with vs parse_resources_distinct [OF parsed] show ?R by blast
next
  assume ?R
  then show "parse_resources doc = Inr rs"
    using parse_fold_entries [of _ rs "[]" "[]"] by (auto simp: parse_resources_def)
qed

end
