(* ===== verification/Pipeline_Validation.thy ===== *)
theory Pipeline_Validation
  imports Topological_Order Ontology_Resource
begin

text \<open>
  The pipeline validator (\<open>validate_pipeline\<close>, \<open>validate_pipeline_structure\<close>, their common body and
  \<open>validate_branch_routes\<close> in \<open>platform/registry/src/semantics.rs\<close>). The two scanning loops fold
  over the sources and the steps with a record of their mutable collections. The contract
  \<open>pipeline_ok\<close> says what a valid definition is; the validator is proved to accept exactly those,
  and to return a topological enumeration of their nodes.
\<close>

section \<open>Definitions\<close>

record pipeline_binding =
  pb_block_id :: string
  pb_ontology_id :: string

definition STEP_TYPES :: "string list" where
  "STEP_TYPES = [''inference'', ''resolve'', ''sink'', ''dbt'', ''causal'', ''algorithm'', ''route'',
     ''pipeline'', ''forward'', ''filter'']"

record pipeline_scan =
  ps_nodes :: "string list"
  ps_sources :: "string list"
  ps_issues :: "string list"
  ps_dependencies :: "(string, string list) btree_map"
  ps_ontologies :: "(string, string) btree_map"

definition duplicate_issue :: "string list \<Rightarrow> string \<Rightarrow> string list" where
  "duplicate_issue nodes node = (if node \<in> set nodes then [''duplicate_pipeline_node:'' @ node] else [])"

definition scan_source :: "pipeline_scan \<Rightarrow> json \<Rightarrow> pipeline_scan result" where
  "scan_source st source =
     and_then (required_string source ''id'' ''source'') (\<lambda>node.
     Inr (st\<lparr>ps_nodes := node # ps_nodes st, ps_sources := node # ps_sources st,
             ps_issues := ps_issues st @ duplicate_issue (ps_nodes st) node\<rparr>))"

definition step_type_issues :: "json \<Rightarrow> string \<Rightarrow> string \<Rightarrow> string list" where
  "step_type_issues step node kind =
     (if kind \<notin> set STEP_TYPES then [''invalid_step_type:'' @ node @ '':'' @ kind] else []) @
     (if kind = ''inference'' \<and> get_str step ''model'' = None \<and> get_str step ''capability_id'' = None
      then [''missing_inference_model:'' @ node] else [])"

definition step_ontology :: "json \<Rightarrow> string option" where
  "step_ontology step =
     Option.bind (Option.bind (get_object step ''params'') (\<lambda>params. map_of params ''ontology_id'')) as_str"

definition scan_step :: "pipeline_scan \<Rightarrow> json \<Rightarrow> pipeline_scan result" where
  "scan_step st step =
     and_then (required_string step ''step'' ''pipeline step'') (\<lambda>node.
     and_then (required_string step ''type'' ''pipeline step'') (\<lambda>kind.
     and_then (option_context ''pipeline_input_from_missing'' (get_array step ''input_from'')) (\<lambda>inputs.
     and_then (try_map (\<lambda>v. option_context ''pipeline dependency must be a string'' (as_str v)) inputs)
     (\<lambda>dependencies.
     Inr (st\<lparr>ps_nodes := node # ps_nodes st,
             ps_issues := ps_issues st @ duplicate_issue (ps_nodes st) node @ step_type_issues step node kind,
             ps_dependencies := bt_insert node dependencies (ps_dependencies st),
             ps_ontologies := (case step_ontology step of
                None \<Rightarrow> ps_ontologies st
              | Some ontology_id \<Rightarrow> bt_insert node ontology_id (ps_ontologies st))\<rparr>)))))"

definition dangling_issues :: "pipeline_scan \<Rightarrow> string list" where
  "dangling_issues st =
     concat (map (\<lambda>(step, dependencies).
       concat (map (\<lambda>dependency.
         if dependency \<notin> set (ps_nodes st)
         then [''dangling_pipeline_dependency:'' @ step @ '':'' @ dependency] else []) dependencies))
       (ps_dependencies st))"

definition bound_ontologies :: "pipeline_binding list \<Rightarrow> (string, string) btree_map" where
  "bound_ontologies bindings = bt_collect (map (\<lambda>b. (pb_block_id b, pb_ontology_id b)) bindings)"

definition required_binding_issues :: "(string, string) btree_map \<Rightarrow> json list \<Rightarrow> string list result" where
  "required_binding_issues bound steps =
     try_fold (\<lambda>issues step.
       if Option.bind (json_get step ''ontology_required'') as_bool = Some True then
         and_then (required_string step ''step'' ''pipeline step'') (\<lambda>node.
         Inr (if bt_contains bound node then issues else issues @ [''missing_ontology_binding:'' @ node]))
       else Inr issues) [] steps"

definition ontology_binding_issues :: "(string, string) btree_map \<Rightarrow> (string, string) btree_map \<Rightarrow> string list" where
  "ontology_binding_issues bound required =
     concat (map (\<lambda>(block_id, ontology_id).
       if bt_get bound block_id \<noteq> Some ontology_id
       then [''missing_ontology_binding:'' @ block_id @ '':'' @ ontology_id] else []) required)"

definition branch_targets :: "string list \<Rightarrow> json list \<Rightarrow> string list result" where
  "branch_targets destinations targets =
     and_then (try_fold (\<lambda>(unique, destinations) target.
       and_then (option_context ''Invalid branch destination'' (as_str target)) (\<lambda>t.
       ensure (t \<notin> set unique) ''Repeated branch destination'' (
       Inr (t # unique, t # destinations)))) ([], destinations) targets) (\<lambda>(unique, destinations).
     Inr destinations)"

definition branch_destinations :: "json_map \<Rightarrow> string list result" where
  "branch_destinations branches =
     try_fold (\<lambda>destinations (label, values).
       ensure (\<not> trim_is_empty label \<and> length label \<le> 128) ''Invalid branch label'' (
       and_then (option_context ''Invalid branch destinations'' (as_array values)) (\<lambda>targets.
       ensure (targets \<noteq> []) ''Empty branch destinations'' (
       branch_targets destinations targets)))) [] branches"

definition is_consumer :: "string \<Rightarrow> json \<Rightarrow> bool" where
  "is_consumer node child \<longleftrightarrow>
     pointer_str child [''params'', ''trigger''] \<notin> {Some ''cron'', Some ''on_demand''} \<and>
     (case get_array child ''input_from'' of
        None \<Rightarrow> False
      | Some inputs \<Rightarrow> list_ex (\<lambda>input. as_str input = Some node) inputs)"

definition consumers :: "json list \<Rightarrow> string \<Rightarrow> string list" where
  "consumers steps node = List.map_filter (\<lambda>child. get_str child ''step'') (filter (is_consumer node) steps)"

definition validate_branch_route :: "json list \<Rightarrow> json \<Rightarrow> unit result" where
  "validate_branch_route steps step =
     and_then (required_string step ''step'' ''pipeline step'') (\<lambda>node.
     if get_str step ''type'' \<noteq> Some ''route'' then
       ensure (case get_object step ''branches'' of None \<Rightarrow> True | Some m \<Rightarrow> m = [])
         ''Only routing blocks declare branches'' (Inr ())
     else
       ensure (get_str step ''routing'' \<in> {Some ''regex'', Some ''slm'', Some ''metadata''})
         ''Unknown native routing strategy'' (
       ensure (case json_get step ''capability_id'' of None \<Rightarrow> True | Some v \<Rightarrow> is_null v)
         ''Routing cannot select plugin code'' (
       and_then (option_context ''Routing branches missing'' (get_object step ''branches'')) (\<lambda>branches.
       ensure (branches \<noteq> [] \<and> length branches \<le> 32) ''Invalid routing branches'' (
       and_then (branch_destinations branches) (\<lambda>destinations.
       ensure (bs_collect destinations = bs_collect (consumers steps node))
         ''Branches must cover exactly their immediate consumers'' (Inr ())))))))"

definition validate_branch_routes :: "json list \<Rightarrow> unit result" where
  "validate_branch_routes steps = try_each (validate_branch_route steps) steps"

definition empty_scan :: pipeline_scan where
  "empty_scan = \<lparr>ps_nodes = [], ps_sources = [], ps_issues = [], ps_dependencies = [], ps_ontologies = []\<rparr>"

definition validate_pipeline_internal :: "json \<Rightarrow> pipeline_binding list \<Rightarrow> bool \<Rightarrow> string list result" where
  "validate_pipeline_internal document bindings require_bindings =
     and_then (option_context ''pipeline_definition_not_object'' (as_object document)) (\<lambda>obj.
     and_then (option_context ''pipeline_sources_missing'' (Option.bind (map_of obj ''sources'') as_array)) (\<lambda>sources.
     and_then (option_context ''pipeline_steps_missing'' (Option.bind (map_of obj ''pipeline'') as_array)) (\<lambda>steps.
     and_then (try_fold scan_source empty_scan sources) (\<lambda>st.
     and_then (try_fold scan_step st steps) (\<lambda>st.
     let bound = bound_ontologies bindings in
     and_then (if require_bindings then required_binding_issues bound steps else Inr []) (\<lambda>missing.
     and_then (validate_branch_routes steps) (\<lambda>_.
     let order = topological_order (bs_collect (ps_sources st)) (ps_dependencies st);
         issues = ps_issues st @ dangling_issues st @ missing @
           (if require_bindings then ontology_binding_issues bound (ps_ontologies st) else []) @
           (if order = None then [''pipeline_cycle''] else []) in
     ensure (issues = []) (join ''; '' issues) (option_context ''pipeline_cycle'' order))))))))"

definition validate_pipeline :: "json \<Rightarrow> pipeline_binding list \<Rightarrow> string list result" where
  "validate_pipeline document bindings = validate_pipeline_internal document bindings True"

definition validate_pipeline_structure :: "json \<Rightarrow> string list result" where
  "validate_pipeline_structure document = validate_pipeline_internal document [] False"

section \<open>What a valid pipeline is\<close>

definition source_id :: "json \<Rightarrow> string" where
  "source_id s = (case get_str s ''id'' of None \<Rightarrow> [] | Some x \<Rightarrow> x)"

definition step_id :: "json \<Rightarrow> string" where
  "step_id s = (case get_str s ''step'' of None \<Rightarrow> [] | Some x \<Rightarrow> x)"

definition step_kind :: "json \<Rightarrow> string" where
  "step_kind s = (case get_str s ''type'' of None \<Rightarrow> [] | Some x \<Rightarrow> x)"

definition names_of :: "json list \<Rightarrow> string list" where
  "names_of vs = List.map_filter as_str vs"

definition step_inputs :: "json \<Rightarrow> string list" where
  "step_inputs s = (case get_array s ''input_from'' of None \<Rightarrow> [] | Some vs \<Rightarrow> names_of vs)"

definition all_strings :: "json list \<Rightarrow> bool" where
  "all_strings vs \<longleftrightarrow> (\<forall>v \<in> set vs. as_str v \<noteq> None)"

definition step_readable :: "json \<Rightarrow> bool" where
  "step_readable s \<longleftrightarrow> step_id s \<noteq> [] \<and> step_kind s \<noteq> [] \<and>
     (\<exists>vs. get_array s ''input_from'' = Some vs \<and> all_strings vs)"

definition kind_ok :: "json \<Rightarrow> bool" where
  "kind_ok s \<longleftrightarrow> step_kind s \<in> set STEP_TYPES \<and>
     (step_kind s = ''inference'' \<longrightarrow> get_str s ''model'' \<noteq> None \<or> get_str s ''capability_id'' \<noteq> None)"

definition branch_ok :: "string \<times> json \<Rightarrow> bool" where
  "branch_ok b \<longleftrightarrow> \<not> trim_is_empty (fst b) \<and> length (fst b) \<le> 128 \<and>
     (\<exists>vs. snd b = JArray vs \<and> vs \<noteq> [] \<and> all_strings vs \<and> distinct (names_of vs))"

definition branch_names :: "json \<Rightarrow> string list" where
  "branch_names v = (case as_array v of None \<Rightarrow> [] | Some vs \<Rightarrow> names_of vs)"

definition route_ok :: "json list \<Rightarrow> json \<Rightarrow> bool" where
  "route_ok steps s \<longleftrightarrow>
     (if step_kind s = ''route'' then
        get_str s ''routing'' \<in> {Some ''regex'', Some ''slm'', Some ''metadata''} \<and>
        (json_get s ''capability_id'' = None \<or> json_get s ''capability_id'' = Some JNull) \<and>
        (\<exists>branches. get_object s ''branches'' = Some branches \<and> branches \<noteq> [] \<and> length branches \<le> 32 \<and>
           (\<forall>b \<in> set branches. branch_ok b) \<and>
           (\<Union>b \<in> set branches. set (branch_names (snd b))) = set (consumers steps (step_id s)))
      else get_object s ''branches'' = None \<or> get_object s ''branches'' = Some [])"

definition bindings_ok :: "pipeline_binding list \<Rightarrow> json list \<Rightarrow> bool" where
  "bindings_ok bindings steps \<longleftrightarrow>
     (\<forall>s \<in> set steps.
        (Option.bind (json_get s ''ontology_required'') as_bool = Some True \<longrightarrow>
           step_id s \<in> pb_block_id ` set bindings) \<and>
        (\<forall>x. step_ontology s = Some x \<longrightarrow> bt_get (bound_ontologies bindings) (step_id s) = Some x))"

definition pipeline_nodes :: "json list \<Rightarrow> json list \<Rightarrow> string list" where
  "pipeline_nodes sources steps = map source_id sources @ map step_id steps"

definition feeds :: "json list \<Rightarrow> (string \<times> string) set" where
  "feeds steps = {(i, step_id s) | i s. s \<in> set steps \<and> i \<in> set (step_inputs s)}"

definition pipeline_ok :: "json list \<Rightarrow> json list \<Rightarrow> bool" where
  "pipeline_ok sources steps \<longleftrightarrow>
     (\<forall>s \<in> set sources. source_id s \<noteq> []) \<and> (\<forall>s \<in> set steps. step_readable s \<and> kind_ok s \<and> route_ok steps s) \<and>
     distinct (pipeline_nodes sources steps) \<and>
     fst ` feeds steps \<subseteq> set (pipeline_nodes sources steps) \<and> acyclic (feeds steps)"

section \<open>The scanning loops\<close>

lemma required_string_Inr:
  "required_string v f owner = Inr x \<longleftrightarrow> get_str v f = Some x \<and> x \<noteq> []"
  by (auto simp: required_string_def result_simps)

lemma required_id:
  "required_string s ''id'' owner = Inr x \<longleftrightarrow> source_id s \<noteq> [] \<and> x = source_id s"
  "required_string s ''step'' owner = Inr x \<longleftrightarrow> step_id s \<noteq> [] \<and> x = step_id s"
  "required_string s ''type'' owner = Inr x \<longleftrightarrow> step_kind s \<noteq> [] \<and> x = step_kind s"
  by (auto simp: required_string_Inr source_id_def step_id_def step_kind_def split: option.splits)

lemma try_map_strings:
  "try_map (\<lambda>v. option_context msg (as_str v)) vs = Inr xs \<longleftrightarrow> all_strings vs \<and> xs = names_of vs"
proof (induction vs arbitrary: xs)
  case (Cons v vs)
  then show ?case
    by (cases "as_str v") (auto simp: result_simps all_strings_def names_of_def List.map_filter_simps)
qed (auto simp: all_strings_def names_of_def List.map_filter_simps)

definition source_effect :: "pipeline_scan \<Rightarrow> json \<Rightarrow> pipeline_scan" where
  "source_effect st s =
     st\<lparr>ps_nodes := source_id s # ps_nodes st, ps_sources := source_id s # ps_sources st,
        ps_issues := ps_issues st @ duplicate_issue (ps_nodes st) (source_id s)\<rparr>"

definition step_effect :: "pipeline_scan \<Rightarrow> json \<Rightarrow> pipeline_scan" where
  "step_effect st s =
     st\<lparr>ps_nodes := step_id s # ps_nodes st,
        ps_issues := ps_issues st @ duplicate_issue (ps_nodes st) (step_id s) @
          step_type_issues s (step_id s) (step_kind s),
        ps_dependencies := bt_insert (step_id s) (step_inputs s) (ps_dependencies st),
        ps_ontologies := (case step_ontology s of
           None \<Rightarrow> ps_ontologies st
         | Some x \<Rightarrow> bt_insert (step_id s) x (ps_ontologies st))\<rparr>"

lemma scan_source_Inr: "scan_source st s = Inr st' \<longleftrightarrow> source_id s \<noteq> [] \<and> st' = source_effect st s"
  by (auto simp: scan_source_def source_effect_def result_simps required_id)

lemma scan_step_Inr: "scan_step st s = Inr st' \<longleftrightarrow> step_readable s \<and> st' = step_effect st s"
  unfolding scan_step_def
  by (auto simp: step_effect_def step_readable_def step_inputs_def ensure_Inr_iff
      and_then_Inr_iff option_context_Inr_iff required_id try_map_strings)

definition scanned :: "json list \<Rightarrow> json list \<Rightarrow> pipeline_scan" where
  "scanned sources steps =
     fold (\<lambda>s st. step_effect st s) steps (fold (\<lambda>s st. source_effect st s) sources empty_scan)"

lemma scan_sources_fields:
  "ps_nodes (fold (\<lambda>s st. source_effect st s) ss st) = rev (map source_id ss) @ ps_nodes st"
  "ps_sources (fold (\<lambda>s st. source_effect st s) ss st) = rev (map source_id ss) @ ps_sources st"
  "ps_dependencies (fold (\<lambda>s st. source_effect st s) ss st) = ps_dependencies st"
  "ps_ontologies (fold (\<lambda>s st. source_effect st s) ss st) = ps_ontologies st"
  "ps_issues (fold (\<lambda>s st. source_effect st s) ss st) = [] \<longleftrightarrow>
     ps_issues st = [] \<and> distinct (map source_id ss) \<and> set (map source_id ss) \<inter> set (ps_nodes st) = {}"
  by (induction ss arbitrary: st) (auto simp: source_effect_def duplicate_issue_def)

lemma step_type_issues_Nil: "step_type_issues s (step_id s) (step_kind s) = [] \<longleftrightarrow> kind_ok s"
  by (auto simp: step_type_issues_def kind_ok_def)

lemma scan_steps_fields:
  "ps_nodes (fold (\<lambda>s st. step_effect st s) ss st) = rev (map step_id ss) @ ps_nodes st"
  "ps_sources (fold (\<lambda>s st. step_effect st s) ss st) = ps_sources st"
  "ps_dependencies (fold (\<lambda>s st. step_effect st s) ss st) =
     fold (\<lambda>(k, v). bt_insert k v) (map (\<lambda>s. (step_id s, step_inputs s)) ss) (ps_dependencies st)"
  "ps_ontologies (fold (\<lambda>s st. step_effect st s) ss st) =
     fold (\<lambda>(k, v). bt_insert k v)
       (List.map_filter (\<lambda>s. map_option (\<lambda>x. (step_id s, x)) (step_ontology s)) ss) (ps_ontologies st)"
  "ps_issues (fold (\<lambda>s st. step_effect st s) ss st) = [] \<longleftrightarrow>
     ps_issues st = [] \<and> distinct (map step_id ss) \<and> set (map step_id ss) \<inter> set (ps_nodes st) = {} \<and>
     (\<forall>s \<in> set ss. kind_ok s)"
  by (induction ss arbitrary: st)
    (auto simp: step_effect_def duplicate_issue_def step_type_issues_Nil List.map_filter_simps
      split: option.splits)

section \<open>The checks\<close>

lemma branch_targets_Inr:
  "branch_targets ds vs = Inr out \<longleftrightarrow> all_strings vs \<and> distinct (names_of vs) \<and> out = rev (names_of vs) @ ds"
proof -
  let ?f = "\<lambda>(unique, destinations) target.
       and_then (option_context ''Invalid branch destination'' (as_str target)) (\<lambda>t.
       ensure (t \<notin> set unique) ''Repeated branch destination'' (
       Inr (t # unique, t # destinations)))"
  have "try_fold ?f (us, ds) vs = Inr res \<longleftrightarrow> all_strings vs \<and> distinct (names_of vs) \<and>
      set (names_of vs) \<inter> set us = {} \<and> res = (rev (names_of vs) @ us, rev (names_of vs) @ ds)" for us res
  proof (induction vs arbitrary: us ds)
    case (Cons v vs)
    show ?case
    proof (cases "as_str v")
      case None
      then have "\<not> all_strings (v # vs)" by (auto simp: all_strings_def)
      with None show ?thesis by simp
    next
      case (Some t)
      then have "all_strings (v # vs) \<longleftrightarrow> all_strings vs" "names_of (v # vs) = t # names_of vs"
        by (simp_all add: all_strings_def names_of_def List.map_filter_simps)
      moreover have "try_fold ?f (us, ds) (v # vs) = Inr res \<longleftrightarrow>
          t \<notin> set us \<and> try_fold ?f (t # us, t # ds) vs = Inr res"
        using Some by (simp add: ensure_def)
      ultimately show ?thesis unfolding Cons.IH by auto
    qed
  qed (auto simp: all_strings_def names_of_def List.map_filter_simps)
  then show ?thesis by (auto simp: branch_targets_def and_then_Inr_iff)
qed

lemma branch_destinations_Inr:
  "branch_destinations branches = Inr out \<longleftrightarrow> (\<forall>b \<in> set branches. branch_ok b) \<and>
    out = fold (\<lambda>b ds. rev (branch_names (snd b)) @ ds) branches []"
  unfolding branch_destinations_def
  by (rule try_fold_Inr_iff)
    (auto simp: branch_ok_def branch_names_def ensure_Inr_iff and_then_Inr_iff option_context_Inr_iff
      branch_targets_Inr split: prod.split)

lemma set_fold_branches:
  "set (fold (\<lambda>b ds. rev (branch_names (snd b)) @ ds) branches ds) =
    (\<Union>b \<in> set branches. set (branch_names (snd b))) \<union> set ds"
  by (induction branches arbitrary: ds) auto

lemma type_is_route: "get_str s ''type'' = Some ''route'' \<longleftrightarrow> step_kind s = ''route''"
  by (simp add: step_kind_def split: option.split)

lemma validate_branch_route_Inr:
  assumes "step_id s \<noteq> []"
  shows "validate_branch_route steps s = Inr () \<longleftrightarrow> route_ok steps s"
proof -
  have "required_string s ''step'' ''pipeline step'' = Inr (step_id s)" using assms by (simp add: required_id)
  moreover have "(case json_get s ''capability_id'' of None \<Rightarrow> True | Some v \<Rightarrow> is_null v) \<longleftrightarrow>
      json_get s ''capability_id'' = None \<or> json_get s ''capability_id'' = Some JNull"
    by (simp add: is_null_def split: option.split)
  moreover have "(case get_object s ''branches'' of None \<Rightarrow> True | Some m \<Rightarrow> m = []) \<longleftrightarrow>
      get_object s ''branches'' = None \<or> get_object s ''branches'' = Some []"
    by (simp split: option.split)
  ultimately show ?thesis
    unfolding validate_branch_route_def route_ok_def type_is_route and_then_simps bs_collect_eq_iff
    by (cases "step_kind s = ''route''")
      (simp_all add: ensure_Inr_iff and_then_Inr_iff option_context_Inr_iff branch_destinations_Inr
        set_fold_branches conj_assoc)
qed

lemma required_binding_issues_Inr:
  assumes "\<forall>s \<in> set steps. step_id s \<noteq> []"
  shows "\<exists>missing. required_binding_issues (bound_ontologies bindings) steps = Inr missing \<and>
    (missing = [] \<longleftrightarrow> (\<forall>s \<in> set steps.
       Option.bind (json_get s ''ontology_required'') as_bool = Some True \<longrightarrow> step_id s \<in> pb_block_id ` set bindings))"
proof -
  define required where "required s \<longleftrightarrow> Option.bind (json_get s ''ontology_required'') as_bool = Some True" for s
  have bound: "bt_contains (bound_ontologies bindings) x \<longleftrightarrow> x \<in> pb_block_id ` set bindings" for x
    by (simp add: bound_ontologies_def image_image)
  have id: "required_string s ''step'' ''pipeline step'' = Inr (step_id s)" if "step_id s \<noteq> []" for s
    using that by (simp add: required_id)
  let ?f = "\<lambda>issues s. if required s then
         and_then (required_string s ''step'' ''pipeline step'') (\<lambda>node.
         Inr (if bt_contains (bound_ontologies bindings) node then issues
           else issues @ [''missing_ontology_binding:'' @ node])) else Inr issues"
  have "\<exists>missing. try_fold ?f issues steps = Inr missing \<and>
      (missing = [] \<longleftrightarrow> issues = [] \<and> (\<forall>s \<in> set steps. required s \<longrightarrow> step_id s \<in> pb_block_id ` set bindings))" for issues
    using assms
  proof (induction steps arbitrary: issues)
    case (Cons s steps)
    define issues' where "issues' = (if required s \<and> step_id s \<notin> pb_block_id ` set bindings
      then issues @ [''missing_ontology_binding:'' @ step_id s] else issues)"
    have "?f issues s = Inr issues'" using Cons.prems by (simp add: id bound issues'_def)
    moreover obtain missing where "try_fold ?f issues' steps = Inr missing"
        "missing = [] \<longleftrightarrow> issues' = [] \<and> (\<forall>s \<in> set steps. required s \<longrightarrow> step_id s \<in> pb_block_id ` set bindings)"
      using Cons.IH [of issues'] Cons.prems by auto
    moreover have "issues' = [] \<longleftrightarrow> issues = [] \<and> (required s \<longrightarrow> step_id s \<in> pb_block_id ` set bindings)"
      by (simp add: issues'_def)
    ultimately show ?case by simp
  qed simp
  from this [of "[]"] show ?thesis unfolding required_binding_issues_def required_def by simp
qed

section \<open>The validator decides it\<close>

lemma scanned_fields:
  "ps_nodes (scanned sources steps) = rev (pipeline_nodes sources steps)"
  "bs_collect (ps_sources (scanned sources steps)) = bs_collect (map source_id sources)"
  "ps_dependencies (scanned sources steps) = bt_collect (map (\<lambda>s. (step_id s, step_inputs s)) steps)"
  "ps_ontologies (scanned sources steps) =
     bt_collect (List.map_filter (\<lambda>s. map_option (\<lambda>x. (step_id s, x)) (step_ontology s)) steps)"
  "ps_issues (scanned sources steps) = [] \<longleftrightarrow>
     distinct (pipeline_nodes sources steps) \<and> (\<forall>s \<in> set steps. kind_ok s)"
  by (auto simp: scanned_def scan_steps_fields scan_sources_fields empty_scan_def pipeline_nodes_def
      bs_collect_eq_iff bt_collect_def)

lemma dependencies_graph:
  assumes "distinct (map step_id steps)"
  shows "graph_edges (bt_collect (map (\<lambda>s. (step_id s, step_inputs s)) steps)) = feeds steps"
    "graph_nodes (bs_collect (map source_id sources)) (bt_collect (map (\<lambda>s. (step_id s, step_inputs s)) steps)) =
      set (pipeline_nodes sources steps)"
proof -
  have "set (bt_collect (map (\<lambda>s. (step_id s, step_inputs s)) steps)) = (\<lambda>s. (step_id s, step_inputs s)) ` set steps"
    using assms by (subst set_bt_collect_distinct) (simp_all add: comp_def)
  then show "graph_edges (bt_collect (map (\<lambda>s. (step_id s, step_inputs s)) steps)) = feeds steps"
    "graph_nodes (bs_collect (map source_id sources)) (bt_collect (map (\<lambda>s. (step_id s, step_inputs s)) steps)) =
      set (pipeline_nodes sources steps)"
    by (auto simp: graph_edges_def feeds_def graph_nodes_def pipeline_nodes_def bt_keys_def image_image)
qed

lemma dangling_issues_Nil:
  assumes "distinct (map step_id steps)"
  shows "dangling_issues (scanned sources steps) = [] \<longleftrightarrow>
    fst ` feeds steps \<subseteq> set (pipeline_nodes sources steps)"
proof -
  have "dangling_issues (scanned sources steps) = [] \<longleftrightarrow>
      (\<forall>(i, n) \<in> graph_edges (ps_dependencies (scanned sources steps)). i \<in> set (ps_nodes (scanned sources steps)))"
    by (fastforce simp: dangling_issues_def graph_edges_def)
  also have "\<dots> \<longleftrightarrow> (\<forall>(i, n) \<in> feeds steps. i \<in> set (pipeline_nodes sources steps))"
    by (simp add: scanned_fields dependencies_graph [OF assms])
  finally show ?thesis by (auto simp: image_subset_iff)
qed

lemma ontology_binding_issues_Nil:
  assumes "distinct (map step_id steps)"
  shows "ontology_binding_issues bound (ps_ontologies (scanned sources steps)) = [] \<longleftrightarrow>
    (\<forall>s \<in> set steps. \<forall>x. step_ontology s = Some x \<longrightarrow> bt_get bound (step_id s) = Some x)"
proof -
  let ?xs = "List.map_filter (\<lambda>s. map_option (\<lambda>x. (step_id s, x)) (step_ontology s)) steps"
  have "map fst ?xs = map step_id (filter (\<lambda>s. step_ontology s \<noteq> None) steps)"
    by (induction steps) (auto simp: List.map_filter_simps split: option.splits)
  then have "distinct (map fst ?xs)" using distinct_map_filter [OF assms] by simp
  then have "set (bt_collect ?xs) = {(step_id s, x) | s x. s \<in> set steps \<and> step_ontology s = Some x}"
    by (subst set_bt_collect_distinct) (auto simp: set_map_filter_iff)
  then show ?thesis
    unfolding ontology_binding_issues_def scanned_fields by auto
qed

lemma validate_pipeline_internal_Inr:
  "validate_pipeline_internal doc bindings req = Inr ord \<longleftrightarrow>
    (\<exists>sources steps. get_array doc ''sources'' = Some sources \<and> get_array doc ''pipeline'' = Some steps \<and>
       pipeline_ok sources steps \<and> (req \<longrightarrow> bindings_ok bindings steps) \<and>
       topological_order (bs_collect (map source_id sources))
         (bt_collect (map (\<lambda>s. (step_id s, step_inputs s)) steps)) = Some ord)"
proof (cases "\<exists>sources steps. get_array doc ''sources'' = Some sources \<and> get_array doc ''pipeline'' = Some steps \<and>
    (\<forall>s \<in> set sources. source_id s \<noteq> []) \<and> (\<forall>s \<in> set steps. step_readable s)")
  case False
  have "\<not> validate_pipeline_internal doc bindings req = Inr ord"
    using False unfolding validate_pipeline_internal_def
    by (cases doc) (auto simp: and_then_Inr_iff option_context_Inr_iff get_array_def json_get_def
        try_fold_Inr_iff [of scan_source, OF scan_source_Inr] try_fold_Inr_iff [of scan_step, OF scan_step_Inr])
  moreover have "\<not> pipeline_ok sources steps"
    if "get_array doc ''sources'' = Some sources" "get_array doc ''pipeline'' = Some steps" for sources steps
    using False that by (auto simp: pipeline_ok_def)
  ultimately show ?thesis by blast
next
  case True
  then obtain sources steps where doc: "get_array doc ''sources'' = Some sources" "get_array doc ''pipeline'' = Some steps"
    and read: "\<forall>s \<in> set sources. source_id s \<noteq> []" "\<forall>s \<in> set steps. step_readable s" by blast
  have ids: "\<forall>s \<in> set steps. step_id s \<noteq> []" using read(2) by (simp add: step_readable_def)
  define st where "st = scanned sources steps"
  define bound where "bound = bound_ontologies bindings"
  obtain obj where obj: "doc = JObject obj" "Option.bind (map_of obj ''sources'') as_array = Some sources"
      "Option.bind (map_of obj ''pipeline'') as_array = Some steps"
    using doc by (cases doc) (simp_all add: get_array_def json_get_def)
  have scan: "try_fold scan_source empty_scan sources = Inr (fold (\<lambda>s st. source_effect st s) sources empty_scan)"
      "try_fold scan_step (fold (\<lambda>s st. source_effect st s) sources empty_scan) steps = Inr st"
    using read by (simp_all add: try_fold_Inr_iff [of scan_source, OF scan_source_Inr]
        try_fold_Inr_iff [of scan_step, OF scan_step_Inr] st_def scanned_def)
  obtain missing where missing: "(if req then required_binding_issues bound steps else Inr []) = Inr missing"
      "missing = [] \<longleftrightarrow> (req \<longrightarrow> (\<forall>s \<in> set steps.
         Option.bind (json_get s ''ontology_required'') as_bool = Some True \<longrightarrow> step_id s \<in> pb_block_id ` set bindings))"
    using required_binding_issues_Inr [OF ids, of bindings] unfolding bound_def by (cases req) auto
  have routes: "validate_branch_routes steps = Inr () \<longleftrightarrow> (\<forall>s \<in> set steps. route_ok steps s)"
    using ids by (simp add: validate_branch_routes_def try_each_Inr_iff validate_branch_route_Inr)
  define order where "order = topological_order (bs_collect (ps_sources st)) (ps_dependencies st)"
  have "validate_pipeline_internal doc bindings req = Inr ord \<longleftrightarrow>
      (\<forall>s \<in> set steps. route_ok steps s) \<and> ps_issues st = [] \<and> dangling_issues st = [] \<and> missing = [] \<and>
      (req \<longrightarrow> ontology_binding_issues bound (ps_ontologies st) = []) \<and> order = Some ord"
    unfolding validate_pipeline_internal_def Let_def bound_def [symmetric] obj(1) as_simps option_context_simps
      and_then_simps obj(2,3) scan missing(1) order_def [symmetric]
    by (auto simp: ensure_Inr_iff and_then_Inr_iff option_context_Inr_iff routes)
  also have "\<dots> \<longleftrightarrow> pipeline_ok sources steps \<and> (req \<longrightarrow> bindings_ok bindings steps) \<and> order = Some ord"
  proof (cases "distinct (pipeline_nodes sources steps)")
    case dist: True
    then have step_dist: "distinct (map step_id steps)" by (simp add: pipeline_nodes_def)
    have "acyclic (feeds steps)" if "order = Some ord"
      using topological_order_None_iff [of "bs_collect (ps_sources st)" "ps_dependencies st"] that
      unfolding order_def st_def scanned_fields dependencies_graph [OF step_dist] by simp
    then show ?thesis
      unfolding pipeline_ok_def bindings_ok_def missing(2) st_def scanned_fields(5) bound_def
        dangling_issues_Nil [OF step_dist] ontology_binding_issues_Nil [OF step_dist]
      using dist read by blast
  qed (simp add: st_def scanned_fields pipeline_ok_def)
  finally show ?thesis
    unfolding order_def st_def scanned_fields using doc by simp
qed

end
