(* ===== verification/Identifiers.thy ===== *)
theory Identifiers
  imports Prelude
begin

text \<open>
  Shapes of identifiers (\<open>valid_revision\<close> of \<open>platform/registry/src/storage.rs\<close>, \<open>identity\<close> of
  \<open>composition.rs\<close>) and decimal printing, as \<open>format!\<close> does it.
\<close>

section \<open>Definitions\<close>

definition is_name_byte :: "char \<Rightarrow> bool" where
  "is_name_byte c \<longleftrightarrow> is_ascii_alphanumeric c \<or> c \<in> {CHR ''_'', CHR ''-''}"

definition valid_revision :: "string \<Rightarrow> bool" where
  "valid_revision s \<longleftrightarrow> 20 \<le> length s \<and> length s \<le> 128 \<and> list_all is_name_byte s"

definition identity :: "string \<Rightarrow> bool" where
  "identity s \<longleftrightarrow> s \<noteq> [] \<and> length s \<le> 128 \<and> list_all is_name_byte s"

fun show_nat :: "nat \<Rightarrow> string" where
  "show_nat n = (if n < 10 then [char_of (48 + n)] else show_nat (n div 10) @ [char_of (48 + n mod 10)])"

declare show_nat.simps [simp del]

section \<open>Printing is injective\<close>

lemma char_of_digit_inject:
  assumes "m < 10" "n < 10" "(char_of (48 + m :: nat) :: char) = char_of (48 + n)"
  shows "m = n"
proof -
  have "of_char (char_of (48 + m) :: char) = (of_char (char_of (48 + n) :: char) :: nat)"
    using assms(3) by simp
  then show ?thesis using assms(1,2) by (simp add: of_char_of)
qed

lemma show_nat_not_Nil [simp]: "show_nat n \<noteq> []" "[] \<noteq> show_nat n"
  by (subst show_nat.simps, simp)+

lemma show_nat_inject [simp]: "show_nat m = show_nat n \<longleftrightarrow> m = n"
proof
  show "show_nat m = show_nat n \<Longrightarrow> m = n"
  proof (induction m arbitrary: n rule: less_induct)
    case (less m)
    consider "m < 10" "n < 10" | "m < 10" "\<not> n < 10" | "\<not> m < 10" "n < 10" | (big) "\<not> m < 10" "\<not> n < 10" by blast
    then show ?case
    proof cases
      case big
      with less.prems have "show_nat (m div 10) = show_nat (n div 10)" "m mod 10 = n mod 10"
        using char_of_digit_inject [of "m mod 10" "n mod 10"]
        by (simp_all add: show_nat.simps [of m] show_nat.simps [of n])
      with less.IH [of "m div 10" "n div 10"] big have "m div 10 = n div 10" by simp
      with \<open>m mod 10 = n mod 10\<close> show ?thesis by (metis div_mult_mod_eq)
    qed (use less.prems char_of_digit_inject [of m n] in
        \<open>auto simp: show_nat.simps [of m] show_nat.simps [of n]\<close>)
  qed
qed simp

end
