(* ===== verification/Authoring.thy ===== *)
theory Authoring
  imports Json_Merge Pipeline_Validation Identifiers
begin

text \<open>
  Pipeline authoring (\<open>platform/registry/src/authoring.rs\<close>): the persisted collaboration state, the
  draft and executability checks, the block-aware three-way merge, the comparison of revisions and
  the diagnostics. The serializer \<open>serde_json::to_vec\<close> and the SHA-256 digest are not part of the
  repository; they are the parameters \<open>to_vec\<close> and \<open>sha256_hex\<close>.
\<close>

section \<open>State\<close>

datatype merge_choice = Target | Source

type_synonym resolutions = "(string, merge_choice) btree_map"

datatype authoring_command =
    DeleteBranch string
  | SaveDraft string
  | BindOntology string string
  | CreateBranch string string
  | ProposeMerge string
  | Merge string resolutions
  | Approve
  | Publish
  | Deploy

record branch =
  br_parent_branch :: "string option"
  br_definition :: json
  br_base_definition :: json
  br_base_revision_id :: string
  br_author_id :: string
  br_updated_at_ms :: int

record merge_proposal =
  mp_source_branch :: string
  mp_source_hash :: string
  mp_target_hash :: string
  mp_author_id :: string
  mp_created_at_ms :: int

record content_review =
  cr_definition_hash :: string
  cr_author_id :: string
  cr_reviewed_at_ms :: int

record pipeline_release =
  rl_revision_id :: string
  rl_definition_hash :: string
  rl_author_id :: string
  rl_published_at_ms :: int

record authoring_state =
  as_enabled :: bool
  as_branches :: "(string, branch) btree_map"
  as_proposals :: "(string, merge_proposal) btree_map"
  as_approval :: "content_review option"
  as_release :: "pipeline_release option"

definition default_authoring :: authoring_state where
  "default_authoring = \<lparr>as_enabled = False, as_branches = [], as_proposals = [], as_approval = None, as_release = None\<rparr>"

record definition_conflict =
  dc_path :: string
  dc_base :: "json option"
  dc_target :: "json option"
  dc_source :: "json option"

record merge_preview =
  mv_definition :: json
  mv_conflicts :: "definition_conflict list"

section \<open>Drafts\<close>

definition definition_hash :: "(json \<Rightarrow> string) \<Rightarrow> (string \<Rightarrow> string) \<Rightarrow> json \<Rightarrow> string" where
  "definition_hash to_vec sha256_hex document = sha256_hex (to_vec document)"

definition valid_branch :: "string \<Rightarrow> bool" where
  "valid_branch name \<longleftrightarrow> name \<noteq> [] \<and> length name \<le> 128 \<and> list_all is_name_byte name"

definition DRAFT_FIELDS :: "string list" where
  "DRAFT_FIELDS = [''name'', ''version'', ''sources'', ''pipeline'', ''editor'']"

definition text_within :: "nat \<Rightarrow> string option \<Rightarrow> bool" where
  "text_within n s \<longleftrightarrow> (case s of None \<Rightarrow> False | Some x \<Rightarrow> \<not> trim_is_empty x \<and> length x \<le> n)"

definition draft_node :: "string \<Rightarrow> string list \<Rightarrow> json \<Rightarrow> string list result" where
  "draft_node key ids node =
     and_then (option_context ''pipeline block identity missing'' (get_str node key)) (\<lambda>x.
     ensure (valid_branch x \<and> \<not> starts_with ''__linked_'' x \<and> x \<notin> set ids)
       ''pipeline block identity invalid or duplicate'' (
     ensure (json_get node ''origin'' = None) ''reserved pipeline compiler field'' (
     Inr (x # ids))))"

definition validate_draft :: "(json \<Rightarrow> string) \<Rightarrow> json \<Rightarrow> unit result" where
  "validate_draft to_vec document =
     and_then (option_context ''pipeline draft not object'' (as_object document)) (\<lambda>obj.
     ensure (list_all (\<lambda>key. key \<in> set DRAFT_FIELDS) (map fst obj)) ''pipeline service settings forbidden'' (
     ensure (text_within 256 (Option.bind (map_of obj ''name'') as_str)) ''pipeline name required'' (
     and_then (option_context ''pipeline sources missing'' (Option.bind (map_of obj ''sources'') as_array)) (\<lambda>sources.
     and_then (option_context ''pipeline steps missing'' (Option.bind (map_of obj ''pipeline'') as_array)) (\<lambda>steps.
     ensure (length sources + length steps \<le> 256) ''pipeline block limit exceeded'' (
     ensure (length (to_vec document) \<le> 1048576) ''pipeline document limit exceeded'' (
     and_then (try_fold (draft_node ''id'') [] sources) (\<lambda>ids.
     and_then (try_fold (draft_node ''step'') ids steps) (\<lambda>_.
     Inr ())))))))))"

section \<open>Merging definitions\<close>

definition index_nodes :: "string \<Rightarrow> json list \<Rightarrow> json_map result" where
  "index_nodes key nodes =
     try_fold (\<lambda>indexed node.
       and_then (option_context ''pipeline block identity missing'' (get_str node key)) (\<lambda>x.
       ensure (map_of indexed x = None) ''duplicate pipeline block'' (
       Inr (json_insert x node indexed)))) [] nodes"

definition normalize_collection :: "json_map \<Rightarrow> string \<times> string \<Rightarrow> json_map result" where
  "normalize_collection obj ck =
     and_then (option_context ''pipeline collection missing'' (Option.bind (map_of obj (fst ck)) as_array)) (\<lambda>nodes.
     and_then (index_nodes (snd ck) nodes) (\<lambda>indexed.
     Inr (json_insert (fst ck) (JObject indexed) obj)))"

definition normalize :: "json \<Rightarrow> json result" where
  "normalize document =
     and_then (option_context ''pipeline definition not object'' (as_object document)) (\<lambda>obj.
     and_then (try_fold normalize_collection obj [(''sources'', ''id''), (''pipeline'', ''step'')]) (\<lambda>obj.
     Inr (JObject obj)))"

definition replace_char :: "char \<Rightarrow> string \<Rightarrow> string \<Rightarrow> string" where
  "replace_char c r s = concat (map (\<lambda>d. if d = c then r else [d]) s)"

definition pointer :: "string \<Rightarrow> string \<Rightarrow> string" where
  "pointer path key = path @ ''/'' @ replace_char (CHR ''/'') ''~1'' (replace_char (CHR ''~'') ''~0'' key)"

function merge_definition_value ::
  "resolutions \<Rightarrow> string \<Rightarrow> json option \<Rightarrow> json option \<Rightarrow> json option \<Rightarrow> nat
    \<Rightarrow> (json option \<times> definition_conflict list) result" where
  "merge_definition_value resolutions path base target source depth =
     ensure (depth \<le> 32) ''pipeline merge depth exceeded'' (
     if opt_eq target source \<or> opt_eq source base then Inr (target, [])
     else if opt_eq target base then Inr (source, [])
     else case (Option.bind target as_object, Option.bind source as_object,
                base = None \<or> Option.bind base as_object \<noteq> None) of
       (Some left, Some right, True) \<Rightarrow>
         (let ancestor = (case Option.bind base as_object of None \<Rightarrow> [] | Some m \<Rightarrow> m) in
          and_then (try_map (\<lambda>key.
            and_then (merge_definition_value resolutions (pointer path key) (map_of ancestor key)
              (map_of left key) (map_of right key) (depth + 1)) (\<lambda>vc. Inr (key, vc)))
            (bs_collect (map fst left @ map fst right @ map fst ancestor))) (\<lambda>parts.
          Inr (Some (JObject (assemble (map (\<lambda>(key, v, _). (key, v)) parts))),
               concat (map (\<lambda>(_, _, cs). cs) parts))))
     | _ \<Rightarrow>
         (case bt_get resolutions path of
            Some Target \<Rightarrow> Inr (target, [])
          | Some Source \<Rightarrow> Inr (source, [])
          | None \<Rightarrow>
              Inr (target, [\<lparr>dc_path = path, dc_base = base, dc_target = target, dc_source = source\<rparr>])))"
  by pat_completeness auto
termination
  by (relation "measure (\<lambda>(resolutions, path, base, target, source, depth). opt_size target)")
    (auto simp: opt_size_map_of)

declare merge_definition_value.simps [simp del]

definition denormalize_collection :: "json_map \<Rightarrow> string \<Rightarrow> json_map result" where
  "denormalize_collection obj key =
     and_then (option_context ''pipeline merge collection missing'' (Option.bind (map_of obj key) as_object)) (\<lambda>indexed.
     Inr (json_insert key (JArray (map snd indexed)) obj))"

definition merge_definitions :: "json \<Rightarrow> json \<Rightarrow> json \<Rightarrow> resolutions \<Rightarrow> merge_preview result" where
  "merge_definitions base target source resolutions =
     and_then (normalize base) (\<lambda>base.
     and_then (normalize target) (\<lambda>target.
     and_then (normalize source) (\<lambda>source.
     ensure (length resolutions \<le> 256) ''pipeline resolution limit exceeded'' (
     and_then (merge_definition_value resolutions [] (Some base) (Some target) (Some source) 0) (\<lambda>(merged, conflicts).
     and_then (option_context ''pipeline merge removed definition'' merged) (\<lambda>document.
     and_then (option_context ''pipeline merge not object'' (as_object document)) (\<lambda>obj.
     and_then (try_fold denormalize_collection obj [''sources'', ''pipeline'']) (\<lambda>obj.
     Inr \<lparr>mv_definition = JObject obj, mv_conflicts = conflicts\<rparr>))))))))"

section \<open>Executability\<close>

definition scheduled :: "json \<Rightarrow> bool" where
  "scheduled step \<longleftrightarrow> pointer_str step [''params'', ''trigger''] \<in> {Some ''cron'', Some ''on_demand''}"

definition valid_mailbox :: "string \<Rightarrow> bool" where
  "valid_mailbox s \<longleftrightarrow> length s = 32 \<and> list_all is_ascii_hexdigit s"

definition nonblank :: "string option \<Rightarrow> bool" where
  "nonblank s \<longleftrightarrow> (case s of None \<Rightarrow> False | Some x \<Rightarrow> \<not> trim_is_empty x)"

definition SOURCE_FIELDS :: "string list" where
  "SOURCE_FIELDS = [''topic'', ''match_pattern'', ''schema_path'']"

definition executable_source :: "json \<Rightarrow> unit result" where
  "executable_source source =
     ensure (get_str source ''capability_id'' = Some ''utils.input.email'' \<longrightarrow>
         (case get_str source ''account_id'' of None \<Rightarrow> False | Some x \<Rightarrow> valid_mailbox x))
       ''email receiving account required'' (
     try_each (\<lambda>field. ensure (nonblank (get_str source field))
       (''pipeline source field missing: '' @ field) (Inr ())) SOURCE_FIELDS)"

definition CONDITION_FIELDS :: "string list" where
  "CONDITION_FIELDS = [''sender'', ''recipient'', ''subject'', ''body'', ''account'']"

definition CONDITION_OPERATORS :: "string list" where
  "CONDITION_OPERATORS = [''equals'', ''contains'', ''starts_with'', ''not_equals'']"

definition executable_condition :: "json \<Rightarrow> unit result" where
  "executable_condition condition =
     ensure (get_str condition ''field'' \<in> Some ` set CONDITION_FIELDS) ''pipeline condition field invalid'' (
     ensure (get_str condition ''operator'' \<in> Some ` set CONDITION_OPERATORS) ''pipeline condition operator invalid'' (
     ensure (text_within 2048 (get_str condition ''value'')) ''pipeline condition value invalid'' (Inr ())))"

definition path_array :: "json \<Rightarrow> string list \<Rightarrow> json list option" where
  "path_array v ks = Option.bind (get_path ks v) as_array"

definition uses_conditions :: "json \<Rightarrow> string \<Rightarrow> bool" where
  "uses_conditions step kind \<longleftrightarrow> kind = ''filter'' \<or> get_str step ''routing'' = Some ''conditions''"

definition is_union :: "json \<Rightarrow> string \<Rightarrow> bool" where
  "is_union step kind \<longleftrightarrow> kind = ''forward'' \<and> pointer_str step [''params'', ''merge''] = Some ''union''"

definition executable_step :: "json \<Rightarrow> unit result" where
  "executable_step step =
     ensure (get_str step ''capability_id'' = Some ''utils.output.reply'' \<longrightarrow>
         (case pointer_str step [''params'', ''sender_account_id''] of
            None \<Rightarrow> False | Some x \<Rightarrow> x = ''source'' \<or> valid_mailbox x))
       ''email sending account required'' (
     ensure (get_str step ''capability_id'' = Some ''utils.output.reply'' \<longrightarrow>
         pointer_str step [''params'', ''delivery_mode''] \<in> {Some ''automatic'', Some ''approval'', Some ''draft''})
       ''email delivery mode required'' (
     and_then (option_context ''pipeline type missing'' (get_str step ''type'')) (\<lambda>kind.
     and_then (option_context ''pipeline input missing'' (get_array step ''input_from'')) (\<lambda>inputs.
     ensure (pointer_str step [''params'', ''trigger''] = Some ''cron'' \<longrightarrow>
         nonblank (pointer_str step [''params'', ''cron'']))
       ''scheduled pipeline requires a cron expression'' (
     ensure (if scheduled step then inputs = [] else inputs \<noteq> [] \<and> (length inputs = 1 \<or> is_union step kind))
       ''pipeline input cardinality invalid'' (
     if uses_conditions step kind then
       and_then (option_context ''pipeline conditions missing'' (path_array step [''params'', ''conditions''])) (\<lambda>conditions.
       ensure (conditions \<noteq> [] \<and> length conditions \<le> 16) ''pipeline condition count invalid'' (
       try_each executable_condition conditions))
     else Inr ()))))))"

definition validate_executable :: "(json \<Rightarrow> string) \<Rightarrow> json \<Rightarrow> unit result" where
  "validate_executable to_vec document =
     and_then (validate_draft to_vec document) (\<lambda>_.
     and_then (validate_pipeline_structure document) (\<lambda>_.
     and_then (option_context ''pipeline sources missing'' (get_array document ''sources'')) (\<lambda>sources.
     and_then (try_each executable_source sources) (\<lambda>_.
     and_then (option_context ''pipeline steps missing'' (get_array document ''pipeline'')) (\<lambda>steps.
     ensure (sources \<noteq> [] \<or> list_ex scheduled steps) ''pipeline source or schedule required'' (
     try_each executable_step steps))))))"

section \<open>Comparison\<close>

record definition_change =
  df_path :: string
  df_before :: "json option"
  df_after :: "json option"

function collect_changes ::
  "string \<Rightarrow> json option \<Rightarrow> json option \<Rightarrow> nat \<Rightarrow> definition_change list result" where
  "collect_changes path before after depth =
     ensure (depth \<le> 32) ''pipeline comparison depth exceeded'' (
     if opt_eq before after then Inr []
     else case (Option.bind before as_object, Option.bind after as_object) of
       (Some left, Some right) \<Rightarrow>
         and_then (try_map (\<lambda>key.
           collect_changes (pointer path key) (map_of left key) (map_of right key) (depth + 1))
           (bs_collect (map fst left @ map fst right))) (\<lambda>parts. Inr (concat parts))
     | _ \<Rightarrow> Inr [\<lparr>df_path = path, df_before = before, df_after = after\<rparr>])"
  by pat_completeness auto
termination
  by (relation "measure (\<lambda>(path, before, after, depth). opt_size before)") (auto simp: opt_size_map_of)

declare collect_changes.simps [simp del]

definition compare_definitions :: "json \<Rightarrow> json \<Rightarrow> definition_change list result" where
  "compare_definitions before after =
     and_then (normalize before) (\<lambda>before.
     and_then (normalize after) (\<lambda>after.
     collect_changes [] (Some before) (Some after) 0))"

section \<open>Diagnostics\<close>

record pipeline_diagnostic =
  pd_code :: string
  pd_node_id :: "string option"
  pd_field :: "string option"

definition diagnostic :: "bool \<Rightarrow> string \<Rightarrow> string option \<Rightarrow> string option \<Rightarrow> pipeline_diagnostic list" where
  "diagnostic c code node fld =
     (if c then [\<lparr>pd_code = code, pd_node_id = node, pd_field = fld\<rparr>] else [])"

definition missing_or_null :: "json \<Rightarrow> string \<Rightarrow> bool" where
  "missing_or_null v k \<longleftrightarrow> (case json_get v k of None \<Rightarrow> True | Some w \<Rightarrow> is_null w)"

definition diagnose_source :: "json \<Rightarrow> pipeline_diagnostic list" where
  "diagnose_source source =
     concat (map (\<lambda>field.
       diagnostic (\<not> nonblank (get_str source field)) ''field'' (get_str source ''id'') (Some field)) SOURCE_FIELDS)"

definition diagnose_step :: "string list \<Rightarrow> json \<Rightarrow> pipeline_diagnostic list" where
  "diagnose_step known step =
     (let node = get_str step ''step'';
          kind = (case get_str step ''type'' of None \<Rightarrow> [] | Some k \<Rightarrow> k);
          inputs = get_array step ''input_from'' in
      diagnostic (\<not> scheduled step \<and> (case inputs of None \<Rightarrow> True | Some xs \<Rightarrow> xs = []))
        ''input'' node (Some ''input_from'') @
      diagnostic (scheduled step \<and> (case inputs of None \<Rightarrow> False | Some xs \<Rightarrow> xs \<noteq> []))
        ''connection'' node (Some ''input_from'') @
      diagnostic (pointer_str step [''params'', ''trigger''] = Some ''cron'' \<and>
          \<not> nonblank (pointer_str step [''params'', ''cron'']))
        ''field'' node (Some ''cron'') @
      diagnostic (case inputs of None \<Rightarrow> False | Some xs \<Rightarrow>
          list_ex (\<lambda>input. case as_str input of None \<Rightarrow> True | Some x \<Rightarrow> x \<notin> set known) xs)
        ''connection'' node (Some ''input_from'') @
      diagnostic ((case inputs of None \<Rightarrow> False | Some xs \<Rightarrow> 1 < length xs) \<and> \<not> is_union step kind)
        ''join'' node (Some ''input_from'') @
      diagnostic (kind = ''inference'' \<and> missing_or_null step ''model'' \<and> missing_or_null step ''capability_id'')
        ''model'' node (Some ''model'') @
      diagnostic (kind = ''pipeline'' \<and> missing_or_null step ''pipeline_ref'')
        ''reference'' node (Some ''pipeline_ref'') @
      diagnostic (uses_conditions step kind \<and>
          \<not> (case path_array step [''params'', ''conditions''] of
                None \<Rightarrow> False
              | Some rules \<Rightarrow> rules \<noteq> [] \<and> list_all (\<lambda>rule. nonblank (get_str rule ''value'')) rules))
        ''field'' node (Some ''conditions''))"

definition diagnose_definition :: "(json \<Rightarrow> string) \<Rightarrow> json \<Rightarrow> pipeline_diagnostic list result" where
  "diagnose_definition to_vec document =
     and_then (validate_draft to_vec document) (\<lambda>_.
     and_then (option_context ''pipeline sources missing'' (get_array document ''sources'')) (\<lambda>sources.
     and_then (option_context ''pipeline steps missing'' (get_array document ''pipeline'')) (\<lambda>steps.
     let known = List.map_filter (\<lambda>s. get_str s ''id'') sources @ List.map_filter (\<lambda>s. get_str s ''step'') steps in
     Inr (diagnostic (sources = [] \<and> \<not> list_ex scheduled steps) ''source'' None None @
          concat (map diagnose_source sources) @
          concat (map (diagnose_step known) steps)))))"

end
