(* ===== verification/Tenant_State.thy ===== *)
theory Tenant_State
  imports Authoring
begin

text \<open>
  The persisted tenant state (\<open>platform/registry/src/state.rs\<close>, with the collaboration metadata of
  \<open>authoring.rs\<close> and \<open>ontology_authoring.rs\<close>). One record per struct, in the order of its fields; the
  key of a binding is injective on the identities that the service accepts.
\<close>

section \<open>State\<close>

record ontology_branch =
  ob_parent_branch :: string
  ob_definition :: json
  ob_display_name :: string
  ob_base_definition :: json
  ob_base_display_name :: string
  ob_base_revision_id :: string
  ob_author :: string
  ob_updated_at_ms :: int

record ontology_authoring_state =
  oa_branches :: "(string, ontology_branch) btree_map"
  oa_previous_revision_id :: "string option"
  oa_last_branch :: string
  oa_last_operation :: string
  oa_last_author :: string
  oa_updated_at_ms :: int
  oa_deleted_at_ms :: "int option"

definition default_ontology_authoring :: ontology_authoring_state where
  "default_ontology_authoring =
     \<lparr>oa_branches = [], oa_previous_revision_id = None, oa_last_branch = [], oa_last_operation = [],
      oa_last_author = [], oa_updated_at_ms = 0, oa_deleted_at_ms = None\<rparr>"

record pipeline_record =
  pipe_authoring :: authoring_state
  pipe_previous_revision_id :: "string option"
  pipe_pipeline_id :: string
  pipe_name :: string
  pipe_owner_id :: string
  pipe_published_revision_id :: "string option"
  pipe_definition :: json
  pipe_author_id :: string
  pipe_message :: string
  pipe_created_at_ms :: int
  pipe_updated_at_ms :: int
  pipe_deleted_at_ms :: "int option"

record ontology_publication_record =
  op_publication_id :: string
  op_revision_id :: string
  op_lifecycle :: string
  op_metadata :: json
  op_base_version :: string
  op_base_hash :: string
  op_effective_hash :: string
  op_author :: string
  op_message :: string
  op_published_at_ms :: int
  op_retired_at_ms :: "int option"

record ontology_record =
  or_authoring :: ontology_authoring_state
  or_ontology_id :: string
  or_display_name :: string
  or_ontology :: json
  or_author :: string
  or_message :: string
  or_created_at_ms :: int
  or_production_publication :: "ontology_publication_record option"

record ontology_binding_record =
  bd_pipeline_id :: string
  bd_block_id :: string
  bd_ontology_id :: string
  bd_resource_ids :: "string list"
  bd_resource_kinds :: "string list"
  bd_include_dependencies :: bool
  bd_metadata :: json
  bd_updated_at_ms :: int

record tenant_state =
  ts_pipelines :: "(string, pipeline_record) btree_map"
  ts_ontologies :: "(string, ontology_record) btree_map"
  ts_bindings :: "(string, ontology_binding_record) btree_map"

definition default_tenant_state :: tenant_state where
  "default_tenant_state = \<lparr>ts_pipelines = [], ts_ontologies = [], ts_bindings = []\<rparr>"

definition binding_key :: "string \<Rightarrow> string \<Rightarrow> string" where
  "binding_key pipeline_id block_id = pipeline_id @ [char_of (31 :: nat)] @ block_id"


section \<open>Binding keys\<close>

text \<open>
  Keys of the binding table are unambiguous: two bindings collide only if they bind the same
  block of the same pipeline, whatever the block is called.
\<close>

lemma binding_key_inject:
  assumes "binding_key p b = binding_key q c" "char_of (31 :: nat) \<notin> set p" "char_of (31 :: nat) \<notin> set q"
  shows "p = q \<and> b = c"
  using assms unfolding binding_key_def
proof (induction p arbitrary: q)
  case Nil
  then show ?case by (cases q) auto
next
  case (Cons x p)
  then show ?case by (cases q) auto
qed

lemma binding_key_inject_witness: "binding_key ''ab'' ''c'' \<noteq> binding_key ''a'' ''bc''"
proof -
  have "char_of (31 :: nat) \<notin> set ''ab''" "char_of (31 :: nat) \<notin> set ''a''" by code_simp+
  then show ?thesis using binding_key_inject [of "''ab''" "''c''" "''a''" "''bc''"] by blast
qed

end
