(* ===== verification/Codec.thy ===== *)
theory Codec
  imports Json
begin

text \<open>
  How serde's derives read and write the fields of structs: \<open>None\<close> as \<open>null\<close>, ordered maps as objects, unknown fields
  refused, defaulted fields optional. What each field codec writes it reads back (\<open>codec_simps\<close>).
\<close>

section \<open>Field codecs\<close>

definition I64_MAX :: int where
  "I64_MAX = 2 ^ 63 - 1"

definition encode_int :: "int \<Rightarrow> json" where
  "encode_int n = JNumber (if 0 \<le> n then PosInt (nat n) else NegInt n)"

definition decode_int :: "json \<Rightarrow> int result" where
  "decode_int v =
     (case v of
        JNumber (PosInt n) \<Rightarrow> if int n \<le> I64_MAX then Inr (int n) else Inl Deserialization
      | JNumber (NegInt n) \<Rightarrow> Inr n
      | _ \<Rightarrow> Inl Deserialization)"

definition decode_string :: "json \<Rightarrow> string result" where
  "decode_string v = (case v of JString s \<Rightarrow> Inr s | _ \<Rightarrow> Inl Deserialization)"

definition decode_bool :: "json \<Rightarrow> bool result" where
  "decode_bool v = (case v of JBool b \<Rightarrow> Inr b | _ \<Rightarrow> Inl Deserialization)"

definition encode_option :: "('a \<Rightarrow> json) \<Rightarrow> 'a option \<Rightarrow> json" where
  "encode_option f x = (case x of None \<Rightarrow> JNull | Some y \<Rightarrow> f y)"

definition decode_option :: "(json \<Rightarrow> 'a result) \<Rightarrow> json \<Rightarrow> 'a option result" where
  "decode_option g v = (if is_null v then Inr None else and_then (g v) (\<lambda>x. Inr (Some x)))"

definition decode_list :: "(json \<Rightarrow> 'a result) \<Rightarrow> json \<Rightarrow> 'a list result" where
  "decode_list g v = (case v of JArray xs \<Rightarrow> try_map g xs | _ \<Rightarrow> Inl Deserialization)"

definition encode_map :: "('a \<Rightarrow> json) \<Rightarrow> (string, 'a) btree_map \<Rightarrow> json" where
  "encode_map f m = JObject (map (\<lambda>(k, x). (k, f x)) m)"

definition decode_map :: "(json \<Rightarrow> 'a result) \<Rightarrow> json \<Rightarrow> (string, 'a) btree_map result" where
  "decode_map g v =
     (case v of
        JObject m \<Rightarrow> and_then (try_map (\<lambda>(k, w). and_then (g w) (\<lambda>x. Inr (k, x))) m) (\<lambda>xs. Inr (bt_collect xs))
      | _ \<Rightarrow> Inl Deserialization)"

text \<open>
  A struct is read from an object with no unknown field, or from an array of its leading fields in
  order. The flag tells the two apart: a missing optional field is \<open>None\<close> only in an object.
\<close>

type_synonym entries = "bool \<times> json_map"

definition struct_entries :: "string list \<Rightarrow> json \<Rightarrow> entries result" where
  "struct_entries names v =
     (case v of
        JObject m \<Rightarrow> if list_all (\<lambda>k. k \<in> set names) (map fst m) then Inr (False, m) else Inl Deserialization
      | JArray xs \<Rightarrow> if length xs \<le> length names then Inr (True, zip names xs) else Inl Deserialization
      | _ \<Rightarrow> Inl Deserialization)"

definition required :: "(json \<Rightarrow> 'a result) \<Rightarrow> string \<Rightarrow> entries \<Rightarrow> 'a result" where
  "required g k e = (case map_of (snd e) k of None \<Rightarrow> Inl Deserialization | Some v \<Rightarrow> g v)"

definition defaulted :: "'a \<Rightarrow> (json \<Rightarrow> 'a result) \<Rightarrow> string \<Rightarrow> entries \<Rightarrow> 'a result" where
  "defaulted d g k e = (case map_of (snd e) k of None \<Rightarrow> Inr d | Some v \<Rightarrow> g v)"

definition optional :: "(json \<Rightarrow> 'a result) \<Rightarrow> string \<Rightarrow> entries \<Rightarrow> 'a option result" where
  "optional g k e =
     (case map_of (snd e) k of
        None \<Rightarrow> if fst e then Inl Deserialization else Inr None
      | Some v \<Rightarrow> decode_option g v)"

named_theorems codec_simps

lemma bt_insert_last:
  "\<forall>x \<in> fst ` set m. x < k \<Longrightarrow> bt_insert k v m = m @ [(k, v)]"
  by (induction m) auto

lemma bt_collect_btree: "btree m \<Longrightarrow> bt_collect m = m"
proof -
  have "fold (\<lambda>(k, v). bt_insert k v) ys xs = xs @ ys" if "btree (xs @ ys)" for xs ys
    using that
  proof (induction ys arbitrary: xs)
    case (Cons y ys)
    obtain k v where y: "y = (k, v)" by (cases y)
    have "\<forall>x \<in> fst ` set xs. x < k"
      using Cons.prems unfolding btree_def y by (auto simp: sorted_wrt_append)
    then have "bt_insert k v xs = xs @ [y]" by (simp add: bt_insert_last y)
    then show ?case using Cons.IH [of "xs @ [y]"] Cons.prems by (simp add: y)
  qed simp
  from this [of "[]"] show "btree m \<Longrightarrow> bt_collect m = m" by (simp add: bt_collect_def)
qed

definition wf_map :: "('a \<Rightarrow> bool) \<Rightarrow> (string, 'a) btree_map \<Rightarrow> bool" where
  "wf_map P m \<longleftrightarrow> btree m \<and> (\<forall>x \<in> snd ` set m. P x)"

lemma wf_map_Nil [simp]: "wf_map P []"
  by (simp add: wf_map_def btree_def)

lemma set_bt_insert: "set (bt_insert k v m) \<subseteq> insert (k, v) (set m)"
  by (induction k v m rule: bt_insert.induct) auto

lemma wf_map_insert [intro]: "wf_map P m \<Longrightarrow> P v \<Longrightarrow> wf_map P (bt_insert k v m)"
  using set_bt_insert [of k v m] unfolding wf_map_def by (auto simp: btree_insert)

lemma wf_map_remove [intro]: "wf_map P m \<Longrightarrow> wf_map P (bt_remove k m)"
  using btree_remove [of m k] unfolding wf_map_def by (auto simp: bt_remove_def)

lemma wf_map_get: "wf_map P m \<Longrightarrow> bt_get m k = Some v \<Longrightarrow> P v"
  unfolding wf_map_def by (auto simp: bt_get_def dest!: map_of_SomeD)

lemma decode_encode_map [codec_simps]:
  assumes "btree m" "\<forall>x \<in> snd ` set m. g (f x) = Inr x"
  shows "decode_map g (encode_map f m) = Inr m"
proof -
  have "try_map (\<lambda>(k, w). and_then (g w) (\<lambda>x. Inr (k, x))) (map (\<lambda>(k, x). (k, f x)) m) = Inr m"
    using assms(2) by (induction m) auto
  then show ?thesis by (simp add: decode_map_def encode_map_def bt_collect_btree assms(1))
qed

lemma wf_map_mono: "wf_map P m \<Longrightarrow> (\<And>x. P x \<Longrightarrow> Q x) \<Longrightarrow> wf_map Q m"
  by (auto simp: wf_map_def)

lemma decode_encode_list [codec_simps]:
  "\<forall>x \<in> set xs. g (f x) = Inr x \<Longrightarrow> decode_list g (JArray (map f xs)) = Inr xs"
  unfolding decode_list_def by (induction xs) auto

definition i64 :: "int \<Rightarrow> bool" where
  "i64 n \<longleftrightarrow> - (2 ^ 63) \<le> n \<and> n \<le> I64_MAX"

lemma decode_encode_int [codec_simps]: "i64 n \<Longrightarrow> decode_int (encode_int n) = Inr n"
  by (simp add: decode_int_def encode_int_def i64_def)

lemma decode_encode_basic [codec_simps]:
  "decode_string (JString s) = Inr s" "decode_bool (JBool b) = Inr b"
  by (simp_all add: decode_string_def decode_bool_def)

lemma encode_not_null [simp]: "JString s \<noteq> JNull" "encode_int n \<noteq> JNull"
  by (simp_all add: encode_int_def)

lemmas struct_simps = struct_entries_def required_def defaulted_def optional_def

lemma decode_encode_option [codec_simps]:
  "\<forall>y. x = Some y \<longrightarrow> f y \<noteq> JNull \<and> g (f y) = Inr y \<Longrightarrow> decode_option g (encode_option f x) = Inr x"
  by (cases x) (simp_all add: decode_option_def encode_option_def is_null_def)

lemma decode_option_string [codec_simps]: "decode_option decode_string (JString s) = Inr (Some s)"
  by (simp add: decode_option_def is_null_def decode_string_def)

end
