(* ===== verification/State_Codec.thy ===== *)
theory State_Codec
  imports Tenant_State Codec
begin

text \<open>
  The JSON form of the persisted state, as the serde attributes on the structs of
  \<open>platform/registry/src/state.rs\<close>, \<open>authoring.rs\<close> and \<open>ontology_authoring.rs\<close> prescribe it: field by
  field in declaration order, \<open>None\<close> as \<open>null\<close>, ordered maps as objects, unknown fields refused,
  defaulted fields optional. Reading back what was written gives the same state.
\<close>

section \<open>Structs\<close>

definition BRANCH_FIELDS :: "string list" where
  "BRANCH_FIELDS = [''parent_branch'', ''definition'', ''base_definition'', ''base_revision_id'', ''author_id'', ''updated_at_ms'']"

definition encode_branch :: "branch \<Rightarrow> json" where
  "encode_branch r = JObject ((case br_parent_branch r of None \<Rightarrow> [] | Some p \<Rightarrow> [(''parent_branch'', JString p)]) @
     [(''definition'', br_definition r),
      (''base_definition'', br_base_definition r),
      (''base_revision_id'', JString (br_base_revision_id r)),
      (''author_id'', JString (br_author_id r)),
      (''updated_at_ms'', encode_int (br_updated_at_ms r))])"

definition decode_branch :: "json \<Rightarrow> branch result" where
  "decode_branch v =
     and_then (struct_entries BRANCH_FIELDS v) (\<lambda>e.
     and_then (defaulted None (decode_option decode_string) ''parent_branch'' e) (\<lambda>x_parent_branch.
     and_then (required Inr ''definition'' e) (\<lambda>x_definition.
     and_then (required Inr ''base_definition'' e) (\<lambda>x_base_definition.
     and_then (required decode_string ''base_revision_id'' e) (\<lambda>x_base_revision_id.
     and_then (required decode_string ''author_id'' e) (\<lambda>x_author_id.
     and_then (required decode_int ''updated_at_ms'' e) (\<lambda>x_updated_at_ms.
     Inr \<lparr>br_parent_branch = x_parent_branch, br_definition = x_definition, br_base_definition =
        x_base_definition, br_base_revision_id = x_base_revision_id, br_author_id = x_author_id,
        br_updated_at_ms = x_updated_at_ms\<rparr>)))))))"

definition wf_branch :: "branch \<Rightarrow> bool" where
  "wf_branch r \<longleftrightarrow> wf_json (br_definition r) \<and>
     wf_json (br_base_definition r) \<and>
     i64 (br_updated_at_ms r)"

lemma decode_encode_branch [codec_simps]: "wf_branch r \<Longrightarrow> decode_branch (encode_branch r) = Inr r"
  unfolding decode_branch_def encode_branch_def wf_branch_def BRANCH_FIELDS_def
  by (cases r) (simp add: struct_simps codec_simps wf_map_def pred_option_def split: option.splits)

lemma encode_branch_not_null [simp]: "encode_branch r \<noteq> JNull"
  by (simp add: encode_branch_def)

definition MERGE_PROPOSAL_FIELDS :: "string list" where
  "MERGE_PROPOSAL_FIELDS = [''source_branch'', ''source_hash'', ''target_hash'', ''author_id'', ''created_at_ms'']"

definition encode_merge_proposal :: "merge_proposal \<Rightarrow> json" where
  "encode_merge_proposal r = JObject
     [(''source_branch'', JString (mp_source_branch r)),
      (''source_hash'', JString (mp_source_hash r)),
      (''target_hash'', JString (mp_target_hash r)),
      (''author_id'', JString (mp_author_id r)),
      (''created_at_ms'', encode_int (mp_created_at_ms r))]"

definition decode_merge_proposal :: "json \<Rightarrow> merge_proposal result" where
  "decode_merge_proposal v =
     and_then (struct_entries MERGE_PROPOSAL_FIELDS v) (\<lambda>e.
     and_then (required decode_string ''source_branch'' e) (\<lambda>x_source_branch.
     and_then (required decode_string ''source_hash'' e) (\<lambda>x_source_hash.
     and_then (required decode_string ''target_hash'' e) (\<lambda>x_target_hash.
     and_then (required decode_string ''author_id'' e) (\<lambda>x_author_id.
     and_then (required decode_int ''created_at_ms'' e) (\<lambda>x_created_at_ms.
     Inr \<lparr>mp_source_branch = x_source_branch, mp_source_hash = x_source_hash, mp_target_hash =
        x_target_hash, mp_author_id = x_author_id, mp_created_at_ms = x_created_at_ms\<rparr>))))))"

definition wf_merge_proposal :: "merge_proposal \<Rightarrow> bool" where
  "wf_merge_proposal r \<longleftrightarrow> i64 (mp_created_at_ms r)"

lemma decode_encode_merge_proposal [codec_simps]: "wf_merge_proposal r \<Longrightarrow> decode_merge_proposal (encode_merge_proposal r) = Inr r"
  unfolding decode_merge_proposal_def encode_merge_proposal_def wf_merge_proposal_def MERGE_PROPOSAL_FIELDS_def
  by (cases r) (simp add: struct_simps codec_simps wf_map_def pred_option_def split: option.splits)

lemma encode_merge_proposal_not_null [simp]: "encode_merge_proposal r \<noteq> JNull"
  by (simp add: encode_merge_proposal_def)

definition CONTENT_REVIEW_FIELDS :: "string list" where
  "CONTENT_REVIEW_FIELDS = [''definition_hash'', ''author_id'', ''reviewed_at_ms'']"

definition encode_content_review :: "content_review \<Rightarrow> json" where
  "encode_content_review r = JObject
     [(''definition_hash'', JString (cr_definition_hash r)),
      (''author_id'', JString (cr_author_id r)),
      (''reviewed_at_ms'', encode_int (cr_reviewed_at_ms r))]"

definition decode_content_review :: "json \<Rightarrow> content_review result" where
  "decode_content_review v =
     and_then (struct_entries CONTENT_REVIEW_FIELDS v) (\<lambda>e.
     and_then (required decode_string ''definition_hash'' e) (\<lambda>x_definition_hash.
     and_then (required decode_string ''author_id'' e) (\<lambda>x_author_id.
     and_then (required decode_int ''reviewed_at_ms'' e) (\<lambda>x_reviewed_at_ms.
     Inr \<lparr>cr_definition_hash = x_definition_hash, cr_author_id = x_author_id, cr_reviewed_at_ms =
        x_reviewed_at_ms\<rparr>))))"

definition wf_content_review :: "content_review \<Rightarrow> bool" where
  "wf_content_review r \<longleftrightarrow> i64 (cr_reviewed_at_ms r)"

lemma decode_encode_content_review [codec_simps]: "wf_content_review r \<Longrightarrow> decode_content_review (encode_content_review r) = Inr r"
  unfolding decode_content_review_def encode_content_review_def wf_content_review_def CONTENT_REVIEW_FIELDS_def
  by (cases r) (simp add: struct_simps codec_simps wf_map_def pred_option_def split: option.splits)

lemma encode_content_review_not_null [simp]: "encode_content_review r \<noteq> JNull"
  by (simp add: encode_content_review_def)

definition PIPELINE_RELEASE_FIELDS :: "string list" where
  "PIPELINE_RELEASE_FIELDS = [''revision_id'', ''definition_hash'', ''author_id'', ''published_at_ms'']"

definition encode_pipeline_release :: "pipeline_release \<Rightarrow> json" where
  "encode_pipeline_release r = JObject
     [(''revision_id'', JString (rl_revision_id r)),
      (''definition_hash'', JString (rl_definition_hash r)),
      (''author_id'', JString (rl_author_id r)),
      (''published_at_ms'', encode_int (rl_published_at_ms r))]"

definition decode_pipeline_release :: "json \<Rightarrow> pipeline_release result" where
  "decode_pipeline_release v =
     and_then (struct_entries PIPELINE_RELEASE_FIELDS v) (\<lambda>e.
     and_then (required decode_string ''revision_id'' e) (\<lambda>x_revision_id.
     and_then (required decode_string ''definition_hash'' e) (\<lambda>x_definition_hash.
     and_then (required decode_string ''author_id'' e) (\<lambda>x_author_id.
     and_then (required decode_int ''published_at_ms'' e) (\<lambda>x_published_at_ms.
     Inr \<lparr>rl_revision_id = x_revision_id, rl_definition_hash = x_definition_hash, rl_author_id =
        x_author_id, rl_published_at_ms = x_published_at_ms\<rparr>)))))"

definition wf_pipeline_release :: "pipeline_release \<Rightarrow> bool" where
  "wf_pipeline_release r \<longleftrightarrow> i64 (rl_published_at_ms r)"

lemma decode_encode_pipeline_release [codec_simps]: "wf_pipeline_release r \<Longrightarrow> decode_pipeline_release (encode_pipeline_release r) = Inr r"
  unfolding decode_pipeline_release_def encode_pipeline_release_def wf_pipeline_release_def PIPELINE_RELEASE_FIELDS_def
  by (cases r) (simp add: struct_simps codec_simps wf_map_def pred_option_def split: option.splits)

lemma encode_pipeline_release_not_null [simp]: "encode_pipeline_release r \<noteq> JNull"
  by (simp add: encode_pipeline_release_def)

definition AUTHORING_STATE_FIELDS :: "string list" where
  "AUTHORING_STATE_FIELDS = [''enabled'', ''branches'', ''proposals'', ''approval'', ''release'']"

definition encode_authoring_state :: "authoring_state \<Rightarrow> json" where
  "encode_authoring_state r = JObject
     [(''enabled'', JBool (as_enabled r)),
      (''branches'', encode_map encode_branch (as_branches r)),
      (''proposals'', encode_map encode_merge_proposal (as_proposals r)),
      (''approval'', encode_option encode_content_review (as_approval r)),
      (''release'', encode_option encode_pipeline_release (as_release r))]"

definition decode_authoring_state :: "json \<Rightarrow> authoring_state result" where
  "decode_authoring_state v =
     and_then (struct_entries AUTHORING_STATE_FIELDS v) (\<lambda>e.
     and_then (defaulted False decode_bool ''enabled'' e) (\<lambda>x_enabled.
     and_then (defaulted [] (decode_map decode_branch) ''branches'' e) (\<lambda>x_branches.
     and_then (defaulted [] (decode_map decode_merge_proposal) ''proposals'' e) (\<lambda>x_proposals.
     and_then (defaulted None (decode_option decode_content_review) ''approval'' e) (\<lambda>x_approval.
     and_then (defaulted None (decode_option decode_pipeline_release) ''release'' e) (\<lambda>x_release.
     Inr \<lparr>as_enabled = x_enabled, as_branches = x_branches, as_proposals = x_proposals, as_approval =
        x_approval, as_release = x_release\<rparr>))))))"

definition wf_authoring_state :: "authoring_state \<Rightarrow> bool" where
  "wf_authoring_state r \<longleftrightarrow> wf_map wf_branch (as_branches r) \<and>
     wf_map wf_merge_proposal (as_proposals r) \<and>
     pred_option wf_content_review (as_approval r) \<and>
     pred_option wf_pipeline_release (as_release r)"

lemma decode_encode_authoring_state [codec_simps]: "wf_authoring_state r \<Longrightarrow> decode_authoring_state (encode_authoring_state r) = Inr r"
  unfolding decode_authoring_state_def encode_authoring_state_def wf_authoring_state_def AUTHORING_STATE_FIELDS_def
  by (cases r) (simp add: struct_simps codec_simps wf_map_def pred_option_def split: option.splits)

lemma encode_authoring_state_not_null [simp]: "encode_authoring_state r \<noteq> JNull"
  by (simp add: encode_authoring_state_def)

definition ONTOLOGY_BRANCH_FIELDS :: "string list" where
  "ONTOLOGY_BRANCH_FIELDS = [''parent_branch'', ''definition'', ''display_name'', ''base_definition'', ''base_display_name'', ''base_revision_id'', ''author'', ''updated_at_ms'']"

definition encode_ontology_branch :: "ontology_branch \<Rightarrow> json" where
  "encode_ontology_branch r = JObject
     [(''parent_branch'', JString (ob_parent_branch r)),
      (''definition'', ob_definition r),
      (''display_name'', JString (ob_display_name r)),
      (''base_definition'', ob_base_definition r),
      (''base_display_name'', JString (ob_base_display_name r)),
      (''base_revision_id'', JString (ob_base_revision_id r)),
      (''author'', JString (ob_author r)),
      (''updated_at_ms'', encode_int (ob_updated_at_ms r))]"

definition decode_ontology_branch :: "json \<Rightarrow> ontology_branch result" where
  "decode_ontology_branch v =
     and_then (struct_entries ONTOLOGY_BRANCH_FIELDS v) (\<lambda>e.
     and_then (required decode_string ''parent_branch'' e) (\<lambda>x_parent_branch.
     and_then (required Inr ''definition'' e) (\<lambda>x_definition.
     and_then (required decode_string ''display_name'' e) (\<lambda>x_display_name.
     and_then (required Inr ''base_definition'' e) (\<lambda>x_base_definition.
     and_then (required decode_string ''base_display_name'' e) (\<lambda>x_base_display_name.
     and_then (required decode_string ''base_revision_id'' e) (\<lambda>x_base_revision_id.
     and_then (required decode_string ''author'' e) (\<lambda>x_author.
     and_then (required decode_int ''updated_at_ms'' e) (\<lambda>x_updated_at_ms.
     Inr \<lparr>ob_parent_branch = x_parent_branch, ob_definition = x_definition, ob_display_name =
        x_display_name, ob_base_definition = x_base_definition, ob_base_display_name =
        x_base_display_name, ob_base_revision_id = x_base_revision_id, ob_author = x_author,
        ob_updated_at_ms = x_updated_at_ms\<rparr>)))))))))"

definition wf_ontology_branch :: "ontology_branch \<Rightarrow> bool" where
  "wf_ontology_branch r \<longleftrightarrow> wf_json (ob_definition r) \<and>
     wf_json (ob_base_definition r) \<and>
     i64 (ob_updated_at_ms r)"

lemma decode_encode_ontology_branch [codec_simps]: "wf_ontology_branch r \<Longrightarrow> decode_ontology_branch (encode_ontology_branch r) = Inr r"
  unfolding decode_ontology_branch_def encode_ontology_branch_def wf_ontology_branch_def ONTOLOGY_BRANCH_FIELDS_def
  by (cases r) (simp add: struct_simps codec_simps wf_map_def pred_option_def split: option.splits)

lemma encode_ontology_branch_not_null [simp]: "encode_ontology_branch r \<noteq> JNull"
  by (simp add: encode_ontology_branch_def)

definition ONTOLOGY_AUTHORING_STATE_FIELDS :: "string list" where
  "ONTOLOGY_AUTHORING_STATE_FIELDS = [''branches'', ''previous_revision_id'', ''last_branch'', ''last_operation'', ''last_author'', ''updated_at_ms'', ''deleted_at_ms'']"

definition encode_ontology_authoring_state :: "ontology_authoring_state \<Rightarrow> json" where
  "encode_ontology_authoring_state r = JObject
     [(''branches'', encode_map encode_ontology_branch (oa_branches r)),
      (''previous_revision_id'', encode_option JString (oa_previous_revision_id r)),
      (''last_branch'', JString (oa_last_branch r)),
      (''last_operation'', JString (oa_last_operation r)),
      (''last_author'', JString (oa_last_author r)),
      (''updated_at_ms'', encode_int (oa_updated_at_ms r)),
      (''deleted_at_ms'', encode_option encode_int (oa_deleted_at_ms r))]"

definition decode_ontology_authoring_state :: "json \<Rightarrow> ontology_authoring_state result" where
  "decode_ontology_authoring_state v =
     and_then (struct_entries ONTOLOGY_AUTHORING_STATE_FIELDS v) (\<lambda>e.
     and_then (defaulted [] (decode_map decode_ontology_branch) ''branches'' e) (\<lambda>x_branches.
     and_then (defaulted None (decode_option decode_string) ''previous_revision_id'' e) (\<lambda>x_previous_revision_id.
     and_then (defaulted [] decode_string ''last_branch'' e) (\<lambda>x_last_branch.
     and_then (defaulted [] decode_string ''last_operation'' e) (\<lambda>x_last_operation.
     and_then (defaulted [] decode_string ''last_author'' e) (\<lambda>x_last_author.
     and_then (defaulted 0 decode_int ''updated_at_ms'' e) (\<lambda>x_updated_at_ms.
     and_then (defaulted None (decode_option decode_int) ''deleted_at_ms'' e) (\<lambda>x_deleted_at_ms.
     Inr \<lparr>oa_branches = x_branches, oa_previous_revision_id = x_previous_revision_id, oa_last_branch =
        x_last_branch, oa_last_operation = x_last_operation, oa_last_author = x_last_author,
        oa_updated_at_ms = x_updated_at_ms, oa_deleted_at_ms = x_deleted_at_ms\<rparr>))))))))"

definition wf_ontology_authoring_state :: "ontology_authoring_state \<Rightarrow> bool" where
  "wf_ontology_authoring_state r \<longleftrightarrow> wf_map wf_ontology_branch (oa_branches r) \<and>
     i64 (oa_updated_at_ms r) \<and>
     pred_option i64 (oa_deleted_at_ms r)"

lemma decode_encode_ontology_authoring_state [codec_simps]: "wf_ontology_authoring_state r \<Longrightarrow> decode_ontology_authoring_state (encode_ontology_authoring_state r) = Inr r"
  unfolding decode_ontology_authoring_state_def encode_ontology_authoring_state_def wf_ontology_authoring_state_def ONTOLOGY_AUTHORING_STATE_FIELDS_def
  by (cases r) (simp add: struct_simps codec_simps wf_map_def pred_option_def split: option.splits)

lemma encode_ontology_authoring_state_not_null [simp]: "encode_ontology_authoring_state r \<noteq> JNull"
  by (simp add: encode_ontology_authoring_state_def)

definition PIPELINE_RECORD_FIELDS :: "string list" where
  "PIPELINE_RECORD_FIELDS = [''authoring'', ''previous_revision_id'', ''pipeline_id'', ''name'', ''owner_id'', ''published_revision_id'', ''definition'', ''author_id'', ''message'', ''created_at_ms'', ''updated_at_ms'', ''deleted_at_ms'']"

definition encode_pipeline_record :: "pipeline_record \<Rightarrow> json" where
  "encode_pipeline_record r = JObject
     [(''authoring'', encode_authoring_state (pipe_authoring r)),
      (''previous_revision_id'', encode_option JString (pipe_previous_revision_id r)),
      (''pipeline_id'', JString (pipe_pipeline_id r)),
      (''name'', JString (pipe_name r)),
      (''owner_id'', JString (pipe_owner_id r)),
      (''published_revision_id'', encode_option JString (pipe_published_revision_id r)),
      (''definition'', pipe_definition r),
      (''author_id'', JString (pipe_author_id r)),
      (''message'', JString (pipe_message r)),
      (''created_at_ms'', encode_int (pipe_created_at_ms r)),
      (''updated_at_ms'', encode_int (pipe_updated_at_ms r)),
      (''deleted_at_ms'', encode_option encode_int (pipe_deleted_at_ms r))]"

definition decode_pipeline_record :: "json \<Rightarrow> pipeline_record result" where
  "decode_pipeline_record v =
     and_then (struct_entries PIPELINE_RECORD_FIELDS v) (\<lambda>e.
     and_then (defaulted default_authoring decode_authoring_state ''authoring'' e) (\<lambda>x_authoring.
     and_then (defaulted None (decode_option decode_string) ''previous_revision_id'' e) (\<lambda>x_previous_revision_id.
     and_then (required decode_string ''pipeline_id'' e) (\<lambda>x_pipeline_id.
     and_then (required decode_string ''name'' e) (\<lambda>x_name.
     and_then (required decode_string ''owner_id'' e) (\<lambda>x_owner_id.
     and_then (optional decode_string ''published_revision_id'' e) (\<lambda>x_published_revision_id.
     and_then (required Inr ''definition'' e) (\<lambda>x_definition.
     and_then (required decode_string ''author_id'' e) (\<lambda>x_author_id.
     and_then (required decode_string ''message'' e) (\<lambda>x_message.
     and_then (required decode_int ''created_at_ms'' e) (\<lambda>x_created_at_ms.
     and_then (required decode_int ''updated_at_ms'' e) (\<lambda>x_updated_at_ms.
     and_then (optional decode_int ''deleted_at_ms'' e) (\<lambda>x_deleted_at_ms.
     Inr \<lparr>pipe_authoring = x_authoring, pipe_previous_revision_id = x_previous_revision_id, pipe_pipeline_id =
        x_pipeline_id, pipe_name = x_name, pipe_owner_id = x_owner_id, pipe_published_revision_id =
        x_published_revision_id, pipe_definition = x_definition, pipe_author_id = x_author_id, pipe_message =
        x_message, pipe_created_at_ms = x_created_at_ms, pipe_updated_at_ms = x_updated_at_ms,
        pipe_deleted_at_ms = x_deleted_at_ms\<rparr>)))))))))))))"

definition wf_pipeline_record :: "pipeline_record \<Rightarrow> bool" where
  "wf_pipeline_record r \<longleftrightarrow> wf_json (pipe_definition r) \<and>
     wf_authoring_state (pipe_authoring r) \<and>
     i64 (pipe_created_at_ms r) \<and>
     i64 (pipe_updated_at_ms r) \<and>
     pred_option i64 (pipe_deleted_at_ms r)"

lemma decode_encode_pipeline_record [codec_simps]: "wf_pipeline_record r \<Longrightarrow> decode_pipeline_record (encode_pipeline_record r) = Inr r"
  unfolding decode_pipeline_record_def encode_pipeline_record_def wf_pipeline_record_def PIPELINE_RECORD_FIELDS_def
  by (cases r) (simp add: struct_simps codec_simps wf_map_def pred_option_def split: option.splits)

lemma encode_pipeline_record_not_null [simp]: "encode_pipeline_record r \<noteq> JNull"
  by (simp add: encode_pipeline_record_def)

definition ONTOLOGY_PUBLICATION_RECORD_FIELDS :: "string list" where
  "ONTOLOGY_PUBLICATION_RECORD_FIELDS = [''publication_id'', ''revision_id'', ''lifecycle'', ''metadata'', ''base_version'', ''base_hash'', ''effective_hash'', ''author'', ''message'', ''published_at_ms'', ''retired_at_ms'']"

definition encode_ontology_publication_record :: "ontology_publication_record \<Rightarrow> json" where
  "encode_ontology_publication_record r = JObject
     [(''publication_id'', JString (op_publication_id r)),
      (''revision_id'', JString (op_revision_id r)),
      (''lifecycle'', JString (op_lifecycle r)),
      (''metadata'', op_metadata r),
      (''base_version'', JString (op_base_version r)),
      (''base_hash'', JString (op_base_hash r)),
      (''effective_hash'', JString (op_effective_hash r)),
      (''author'', JString (op_author r)),
      (''message'', JString (op_message r)),
      (''published_at_ms'', encode_int (op_published_at_ms r)),
      (''retired_at_ms'', encode_option encode_int (op_retired_at_ms r))]"

definition decode_ontology_publication_record :: "json \<Rightarrow> ontology_publication_record result" where
  "decode_ontology_publication_record v =
     and_then (struct_entries ONTOLOGY_PUBLICATION_RECORD_FIELDS v) (\<lambda>e.
     and_then (required decode_string ''publication_id'' e) (\<lambda>x_publication_id.
     and_then (required decode_string ''revision_id'' e) (\<lambda>x_revision_id.
     and_then (required decode_string ''lifecycle'' e) (\<lambda>x_lifecycle.
     and_then (required Inr ''metadata'' e) (\<lambda>x_metadata.
     and_then (required decode_string ''base_version'' e) (\<lambda>x_base_version.
     and_then (required decode_string ''base_hash'' e) (\<lambda>x_base_hash.
     and_then (required decode_string ''effective_hash'' e) (\<lambda>x_effective_hash.
     and_then (required decode_string ''author'' e) (\<lambda>x_author.
     and_then (required decode_string ''message'' e) (\<lambda>x_message.
     and_then (required decode_int ''published_at_ms'' e) (\<lambda>x_published_at_ms.
     and_then (optional decode_int ''retired_at_ms'' e) (\<lambda>x_retired_at_ms.
     Inr \<lparr>op_publication_id = x_publication_id, op_revision_id = x_revision_id, op_lifecycle =
        x_lifecycle, op_metadata = x_metadata, op_base_version = x_base_version, op_base_hash =
        x_base_hash, op_effective_hash = x_effective_hash, op_author = x_author, op_message =
        x_message, op_published_at_ms = x_published_at_ms, op_retired_at_ms = x_retired_at_ms\<rparr>))))))))))))"

definition wf_ontology_publication_record :: "ontology_publication_record \<Rightarrow> bool" where
  "wf_ontology_publication_record r \<longleftrightarrow> wf_json (op_metadata r) \<and>
     i64 (op_published_at_ms r) \<and>
     pred_option i64 (op_retired_at_ms r)"

lemma decode_encode_ontology_publication_record [codec_simps]: "wf_ontology_publication_record r \<Longrightarrow> decode_ontology_publication_record (encode_ontology_publication_record r) = Inr r"
  unfolding decode_ontology_publication_record_def encode_ontology_publication_record_def wf_ontology_publication_record_def ONTOLOGY_PUBLICATION_RECORD_FIELDS_def
  by (cases r) (simp add: struct_simps codec_simps wf_map_def pred_option_def split: option.splits)

lemma encode_ontology_publication_record_not_null [simp]: "encode_ontology_publication_record r \<noteq> JNull"
  by (simp add: encode_ontology_publication_record_def)

definition ONTOLOGY_RECORD_FIELDS :: "string list" where
  "ONTOLOGY_RECORD_FIELDS = [''authoring'', ''ontology_id'', ''display_name'', ''ontology'', ''author'', ''message'', ''created_at_ms'', ''production_publication'']"

definition encode_ontology_record :: "ontology_record \<Rightarrow> json" where
  "encode_ontology_record r = JObject
     [(''authoring'', encode_ontology_authoring_state (or_authoring r)),
      (''ontology_id'', JString (or_ontology_id r)),
      (''display_name'', JString (or_display_name r)),
      (''ontology'', or_ontology r),
      (''author'', JString (or_author r)),
      (''message'', JString (or_message r)),
      (''created_at_ms'', encode_int (or_created_at_ms r)),
      (''production_publication'', encode_option encode_ontology_publication_record (or_production_publication r))]"

definition decode_ontology_record :: "json \<Rightarrow> ontology_record result" where
  "decode_ontology_record v =
     and_then (struct_entries ONTOLOGY_RECORD_FIELDS v) (\<lambda>e.
     and_then (defaulted default_ontology_authoring decode_ontology_authoring_state ''authoring'' e) (\<lambda>x_authoring.
     and_then (required decode_string ''ontology_id'' e) (\<lambda>x_ontology_id.
     and_then (required decode_string ''display_name'' e) (\<lambda>x_display_name.
     and_then (required Inr ''ontology'' e) (\<lambda>x_ontology.
     and_then (required decode_string ''author'' e) (\<lambda>x_author.
     and_then (required decode_string ''message'' e) (\<lambda>x_message.
     and_then (required decode_int ''created_at_ms'' e) (\<lambda>x_created_at_ms.
     and_then (optional decode_ontology_publication_record ''production_publication'' e) (\<lambda>x_production_publication.
     Inr \<lparr>or_authoring = x_authoring, or_ontology_id = x_ontology_id, or_display_name = x_display_name,
        or_ontology = x_ontology, or_author = x_author, or_message = x_message, or_created_at_ms =
        x_created_at_ms, or_production_publication = x_production_publication\<rparr>)))))))))"

definition wf_ontology_record :: "ontology_record \<Rightarrow> bool" where
  "wf_ontology_record r \<longleftrightarrow> wf_json (or_ontology r) \<and>
     wf_ontology_authoring_state (or_authoring r) \<and>
     i64 (or_created_at_ms r) \<and>
     pred_option wf_ontology_publication_record (or_production_publication r)"

lemma decode_encode_ontology_record [codec_simps]: "wf_ontology_record r \<Longrightarrow> decode_ontology_record (encode_ontology_record r) = Inr r"
  unfolding decode_ontology_record_def encode_ontology_record_def wf_ontology_record_def ONTOLOGY_RECORD_FIELDS_def
  by (cases r) (simp add: struct_simps codec_simps wf_map_def pred_option_def split: option.splits)

lemma encode_ontology_record_not_null [simp]: "encode_ontology_record r \<noteq> JNull"
  by (simp add: encode_ontology_record_def)

definition ONTOLOGY_BINDING_RECORD_FIELDS :: "string list" where
  "ONTOLOGY_BINDING_RECORD_FIELDS = [''pipeline_id'', ''block_id'', ''ontology_id'', ''resource_ids'', ''resource_kinds'', ''include_dependencies'', ''metadata'', ''updated_at_ms'']"

definition encode_ontology_binding_record :: "ontology_binding_record \<Rightarrow> json" where
  "encode_ontology_binding_record r = JObject
     [(''pipeline_id'', JString (bd_pipeline_id r)),
      (''block_id'', JString (bd_block_id r)),
      (''ontology_id'', JString (bd_ontology_id r)),
      (''resource_ids'', JArray (map JString (bd_resource_ids r))),
      (''resource_kinds'', JArray (map JString (bd_resource_kinds r))),
      (''include_dependencies'', JBool (bd_include_dependencies r)),
      (''metadata'', bd_metadata r),
      (''updated_at_ms'', encode_int (bd_updated_at_ms r))]"

definition decode_ontology_binding_record :: "json \<Rightarrow> ontology_binding_record result" where
  "decode_ontology_binding_record v =
     and_then (struct_entries ONTOLOGY_BINDING_RECORD_FIELDS v) (\<lambda>e.
     and_then (required decode_string ''pipeline_id'' e) (\<lambda>x_pipeline_id.
     and_then (required decode_string ''block_id'' e) (\<lambda>x_block_id.
     and_then (required decode_string ''ontology_id'' e) (\<lambda>x_ontology_id.
     and_then (required (decode_list decode_string) ''resource_ids'' e) (\<lambda>x_resource_ids.
     and_then (required (decode_list decode_string) ''resource_kinds'' e) (\<lambda>x_resource_kinds.
     and_then (required decode_bool ''include_dependencies'' e) (\<lambda>x_include_dependencies.
     and_then (required Inr ''metadata'' e) (\<lambda>x_metadata.
     and_then (required decode_int ''updated_at_ms'' e) (\<lambda>x_updated_at_ms.
     Inr \<lparr>bd_pipeline_id = x_pipeline_id, bd_block_id = x_block_id, bd_ontology_id = x_ontology_id,
        bd_resource_ids = x_resource_ids, bd_resource_kinds = x_resource_kinds, bd_include_dependencies
        = x_include_dependencies, bd_metadata = x_metadata, bd_updated_at_ms = x_updated_at_ms\<rparr>)))))))))"

definition wf_ontology_binding_record :: "ontology_binding_record \<Rightarrow> bool" where
  "wf_ontology_binding_record r \<longleftrightarrow> wf_json (bd_metadata r) \<and>
     i64 (bd_updated_at_ms r)"

lemma decode_encode_ontology_binding_record [codec_simps]: "wf_ontology_binding_record r \<Longrightarrow> decode_ontology_binding_record (encode_ontology_binding_record r) = Inr r"
  unfolding decode_ontology_binding_record_def encode_ontology_binding_record_def wf_ontology_binding_record_def ONTOLOGY_BINDING_RECORD_FIELDS_def
  by (cases r) (simp add: struct_simps codec_simps wf_map_def pred_option_def split: option.splits)

lemma encode_ontology_binding_record_not_null [simp]: "encode_ontology_binding_record r \<noteq> JNull"
  by (simp add: encode_ontology_binding_record_def)

definition TENANT_STATE_FIELDS :: "string list" where
  "TENANT_STATE_FIELDS = [''pipelines'', ''ontologies'', ''bindings'']"

definition encode_tenant_state :: "tenant_state \<Rightarrow> json" where
  "encode_tenant_state r = JObject
     [(''pipelines'', encode_map encode_pipeline_record (ts_pipelines r)),
      (''ontologies'', encode_map encode_ontology_record (ts_ontologies r)),
      (''bindings'', encode_map encode_ontology_binding_record (ts_bindings r))]"

definition decode_tenant_state :: "json \<Rightarrow> tenant_state result" where
  "decode_tenant_state v =
     and_then (struct_entries TENANT_STATE_FIELDS v) (\<lambda>e.
     and_then (defaulted [] (decode_map decode_pipeline_record) ''pipelines'' e) (\<lambda>x_pipelines.
     and_then (defaulted [] (decode_map decode_ontology_record) ''ontologies'' e) (\<lambda>x_ontologies.
     and_then (defaulted [] (decode_map decode_ontology_binding_record) ''bindings'' e) (\<lambda>x_bindings.
     Inr \<lparr>ts_pipelines = x_pipelines, ts_ontologies = x_ontologies, ts_bindings = x_bindings\<rparr>))))"

definition wf_tenant_state :: "tenant_state \<Rightarrow> bool" where
  "wf_tenant_state r \<longleftrightarrow> wf_map wf_pipeline_record (ts_pipelines r) \<and>
     wf_map wf_ontology_record (ts_ontologies r) \<and>
     wf_map wf_ontology_binding_record (ts_bindings r)"

lemma decode_encode_tenant_state [codec_simps]: "wf_tenant_state r \<Longrightarrow> decode_tenant_state (encode_tenant_state r) = Inr r"
  unfolding decode_tenant_state_def encode_tenant_state_def wf_tenant_state_def TENANT_STATE_FIELDS_def
  by (cases r) (simp add: struct_simps codec_simps wf_map_def pred_option_def split: option.splits)

lemma encode_tenant_state_not_null [simp]: "encode_tenant_state r \<noteq> JNull"
  by (simp add: encode_tenant_state_def)

end
