(* ===== verification/Effects.thy ===== *)
theory Effects
  imports Prelude
begin

text \<open>
  Code that talks to the outside. An operation is a function from the world to a result and the world it leaves;
  \<open>io_then\<close>, \<open>io_ensure\<close> and \<open>lift_io\<close> are \<open>await\<close> followed by \<open>?\<close>, \<open>ensure!\<close> and pure fallible code. The type of the world is a
  parameter: each component says what it needs to know of it.
\<close>

section \<open>Operations\<close>

type_synonym ('s, 'a) io = "'s \<Rightarrow> 'a result \<times> 's"

definition lift_io :: "'a result \<Rightarrow> ('s, 'a) io" where
  "lift_io r s = (r, s)"

definition io_then :: "('s, 'a) io \<Rightarrow> ('a \<Rightarrow> ('s, 'b) io) \<Rightarrow> ('s, 'b) io" where
  "io_then m f s = (case m s of (Inl e, s') \<Rightarrow> (Inl e, s') | (Inr x, s') \<Rightarrow> f x s')"

definition io_ensure :: "bool \<Rightarrow> string \<Rightarrow> ('s, 'a) io \<Rightarrow> ('s, 'a) io" where
  "io_ensure c msg k s = (if c then k s else (bail msg, s))"

fun io_map :: "('a \<Rightarrow> ('s, 'b) io) \<Rightarrow> 'a list \<Rightarrow> ('s, 'b list) io" where
  "io_map f [] = lift_io (Inr [])"
| "io_map f (x # xs) = io_then (f x) (\<lambda>y. io_then (io_map f xs) (\<lambda>ys. lift_io (Inr (y # ys))))"

named_theorems io_simps

lemma lift_io_Inr [io_simps]: "lift_io r s = (Inr y, s') \<longleftrightarrow> r = Inr y \<and> s' = s"
  by (auto simp: lift_io_def)

lemma io_then_Inr [io_simps]:
  "io_then m f s = (Inr y, s') \<longleftrightarrow> (\<exists>x s1. m s = (Inr x, s1) \<and> f x s1 = (Inr y, s'))"
  by (auto simp: io_then_def split: prod.split sum.split)

lemma io_ensure_Inr [io_simps]: "io_ensure c msg k s = (Inr y, s') \<longleftrightarrow> c \<and> k s = (Inr y, s')"
  by (auto simp: io_ensure_def)

lemma io_then_run [simp]:
  "m s = (Inr x, s1) \<Longrightarrow> io_then m f s = f x s1" "m s = (Inl e, s1) \<Longrightarrow> io_then m f s = (Inl e, s1)"
  by (simp_all add: io_then_def)

lemma io_then_lift [simp]: "io_then (lift_io (Inr x)) f = f x" "io_then (lift_io (Inl e)) f = lift_io (Inl e)"
  by (auto simp: io_then_def lift_io_def fun_eq_iff)

lemma io_ensure_simps [simp]: "io_ensure True msg k = k" "io_ensure False msg k = lift_io (bail msg)"
  by (auto simp: io_ensure_def lift_io_def fun_eq_iff)

lemma succeeds:
  assumes "\<not> isl (fst (m s))"
  obtains v s' where "m s = (Inr v, s')"
  using assms by (cases "m s"; cases "fst (m s)") auto

text \<open>What an operation may do to the world, whatever it returns.\<close>

definition keeps :: "('s \<Rightarrow> bool) \<Rightarrow> ('s \<Rightarrow> 's \<Rightarrow> bool) \<Rightarrow> ('s, 'a) io \<Rightarrow> bool" where
  "keeps V R m \<longleftrightarrow> (\<forall>s res s'. V s \<longrightarrow> m s = (res, s') \<longrightarrow> V s' \<and> R s s')"

lemma keepsD: "keeps V R m \<Longrightarrow> V s \<Longrightarrow> m s = (res, s') \<Longrightarrow> V s' \<and> R s s'"
  by (auto simp: keeps_def)

lemma keeps_lift: "(\<And>s. R s s) \<Longrightarrow> keeps V R (lift_io r)"
  by (simp add: keeps_def lift_io_def)

lemma keeps_ensure: "(\<And>s. R s s) \<Longrightarrow> keeps V R k \<Longrightarrow> keeps V R (io_ensure c msg k)"
  by (cases c) (simp_all add: keeps_lift)

lemma keeps_then:
  assumes "\<And>s t u. R s t \<Longrightarrow> R t u \<Longrightarrow> R s u" "keeps V R m" "\<And>x. keeps V R (f x)"
  shows "keeps V R (io_then m f)"
  unfolding keeps_def
proof (intro allI impI)
  fix s res s'
  assume "V s" and run: "io_then m f s = (res, s')"
  obtain r s1 where m: "m s = (r, s1)" by (cases "m s")
  with keepsD [OF assms(2) \<open>V s\<close>] have s1: "V s1" "R s s1" by blast+
  show "V s' \<and> R s s'"
  proof (cases r)
    case (Inl e)
    with m run s1 show ?thesis by simp
  next
    case (Inr x)
    with m run have "f x s1 = (res, s')" by simp
    with keepsD [OF assms(3) s1(1)] s1(2) assms(1) show ?thesis by blast
  qed
qed

end
