(* ===== verification/Composition.thy ===== *)
theory Composition
  imports Pipeline_Validation Identifiers Fixtures
begin

text \<open>
  Expansion of pipeline transfers (\<open>platform/registry/src/composition.rs\<close>). The recursive method
  \<open>Expansion::append\<close> threads its mutable fields as a record; the recursion runs on fuel, and
  \<open>compile_fuel\<close> shows that four levels are enough for every input, because each level has
  consumed one of the three transfers.
\<close>

section \<open>Definitions\<close>

definition MAX_BLOCKS :: nat where
  "MAX_BLOCKS = 256"

definition MAX_TRANSFERS :: nat where
  "MAX_TRANSFERS = 3"

record pipeline_reference =
  pr_pipeline_id :: string
  pr_revision_id :: string
  pr_input_source :: string

text \<open>
  The derived deserializer: an object with exactly the three fields, all strings, or the
  sequence of the three values.
\<close>

definition reference_from_value :: "json \<Rightarrow> pipeline_reference result" where
  "reference_from_value v =
     (case v of
        JObject m \<Rightarrow>
          (if set (map fst m) \<subseteq> {''pipeline_id'', ''revision_id'', ''input_source''} then
             (case (Option.bind (map_of m ''pipeline_id'') as_str, Option.bind (map_of m ''revision_id'') as_str,
                    Option.bind (map_of m ''input_source'') as_str) of
                (Some p, Some r, Some i) \<Rightarrow>
                  Inr \<lparr>pr_pipeline_id = p, pr_revision_id = r, pr_input_source = i\<rparr>
              | _ \<Rightarrow> Inl Deserialization)
           else Inl Deserialization)
      | JArray [JString p, JString r, JString i] \<Rightarrow>
          Inr \<lparr>pr_pipeline_id = p, pr_revision_id = r, pr_input_source = i\<rparr>
      | _ \<Rightarrow> Inl Deserialization)"

definition absent_or_null :: "json \<Rightarrow> string \<Rightarrow> bool" where
  "absent_or_null v k \<longleftrightarrow> (case json_get v k of None \<Rightarrow> True | Some w \<Rightarrow> is_null w)"

definition node_id :: "json \<Rightarrow> string option" where
  "node_id node =
     Option.bind (case json_get node ''step'' of None \<Rightarrow> json_get node ''id'' | Some v \<Rightarrow> Some v) as_str"

definition feeds_some :: "json list \<Rightarrow> string \<Rightarrow> bool" where
  "feeds_some steps node \<longleftrightarrow>
     list_ex (\<lambda>step. case get_array step ''input_from'' of
        None \<Rightarrow> False
      | Some inputs \<Rightarrow> list_ex (\<lambda>input. as_str input = Some node) inputs) steps"

definition check_reference :: "json list \<Rightarrow> pipeline_reference list \<Rightarrow> json \<Rightarrow> pipeline_reference list result" where
  "check_reference steps result node =
     and_then (option_context ''Pipeline block identifier missing'' (node_id node)) (\<lambda>id'.
     ensure (\<not> starts_with ''__linked_'' id' \<and> absent_or_null node ''origin'')
       ''Reserved compiled pipeline field'' (
     if get_str node ''type'' = Some ''pipeline'' then
       ensure (absent_or_null node ''capability_id'' \<and> absent_or_null node ''model'')
         ''Native transfers cannot select plugin code or a model'' (
       and_then (option_context ''Pipeline reference missing'' (json_get node ''pipeline_ref'')) (\<lambda>v.
       and_then (reference_from_value v) (\<lambda>reference.
       ensure (identity (pr_pipeline_id reference) \<and> valid_revision (pr_revision_id reference) \<and>
           identity (pr_input_source reference)) ''Invalid pipeline reference'' (
       ensure (case json_get node ''params'' of
           None \<Rightarrow> True
         | Some p \<Rightarrow> (case json_get p ''trigger'' of None \<Rightarrow> True | Some v \<Rightarrow> v = JString ''manual''))
         ''Pipeline transfers must be event driven'' (
       ensure (\<not> feeds_some steps id')
         ''Pipeline transfers are terminal; continuations require explicit return semantics'' (
       ensure (length (result @ [reference]) \<le> MAX_TRANSFERS)
         ''Composition exceeds three pipeline transfers'' (
       Inr (result @ [reference]))))))))
     else
       ensure (absent_or_null node ''pipeline_ref'' \<and>
           (get_str node ''type'' \<noteq> Some ''forward'' \<or> pointer_str node [''params'', ''merge''] = Some ''union''))
         ''Pipeline references require a transfer block'' (
       Inr result)))"

definition references :: "json \<Rightarrow> pipeline_reference list result" where
  "references document =
     and_then (option_context ''Pipeline sources missing'' (get_array document ''sources'')) (\<lambda>sources.
     and_then (option_context ''Pipeline steps missing'' (get_array document ''pipeline'')) (\<lambda>steps.
     ensure (length sources + length steps \<le> MAX_BLOCKS) ''Pipeline exceeds 256 blocks'' (
     try_fold (check_reference steps) [] (sources @ steps))))"

type_synonym definitions = "(string \<times> string, json) btree_map"

text \<open>The entry of a linked pipeline: the receiving source and the transfer block that feeds it.\<close>

type_synonym entry = "(string \<times> string) option"

record expansion =
  ex_active :: "string list"
  ex_steps :: "json list"
  ex_blocks :: nat
  ex_transfers :: nat
  ex_next_id :: nat

definition reach_step :: "json list \<Rightarrow> string list \<Rightarrow> string \<Rightarrow> string list result" where
  "reach_step steps reachable node =
     (case List.find (\<lambda>step. get_str step ''step'' = Some node) steps of
        None \<Rightarrow> Inr reachable
      | Some step \<Rightarrow>
          if pointer_str step [''params'', ''trigger''] \<in> {Some ''cron'', Some ''on_demand''} then Inr reachable
          else
            and_then (option_context ''Step inputs missing'' (get_array step ''input_from'')) (\<lambda>inputs.
            if list_ex (\<lambda>input. case as_str input of None \<Rightarrow> False | Some x \<Rightarrow> x \<in> set reachable) inputs then
              ensure (length inputs = 1) ''Linked inputs cannot create an implicit stateful join'' (
              Inr (node # reachable))
            else Inr reachable))"

definition reachable_steps :: "entry \<Rightarrow> json list \<Rightarrow> json list \<Rightarrow> string list \<Rightarrow> string list result" where
  "reachable_steps entry sources steps order =
     (case entry of
        None \<Rightarrow> Inr []
      | Some (selected, _) \<Rightarrow>
          ensure (list_ex (\<lambda>source. get_str source ''id'' = Some selected) sources)
            ''Selected pipeline input is unavailable'' (
          try_fold (reach_step steps) [selected] order))"

type_synonym name_map = "(string, string) btree_map"

definition name_source :: "entry \<Rightarrow> name_map \<Rightarrow> json \<Rightarrow> name_map result" where
  "name_source entry names source =
     and_then (option_context ''Source identifier missing'' (get_str source ''id'')) (\<lambda>node.
     case entry of
       None \<Rightarrow> Inr (bt_insert node node names)
     | Some (input_source, transfer) \<Rightarrow>
         if node \<noteq> input_source then Inr names else Inr (bt_insert node transfer names))"

definition skipped :: "entry \<Rightarrow> string list \<Rightarrow> string \<Rightarrow> bool" where
  "skipped entry reachable node \<longleftrightarrow> entry \<noteq> None \<and> node \<notin> set reachable"

definition linked_name :: "nat \<Rightarrow> string" where
  "linked_name n = ''__linked_'' @ show_nat n"

definition name_step :: "entry \<Rightarrow> string list \<Rightarrow> nat \<times> name_map \<Rightarrow> json \<Rightarrow> (nat \<times> name_map) result" where
  "name_step entry reachable acc step =
     (case acc of (next_id, names) \<Rightarrow>
     and_then (option_context ''Step identifier missing'' (get_str step ''step'')) (\<lambda>node.
     if skipped entry reachable node then Inr (next_id, names)
     else if entry \<noteq> None then Inr (next_id + 1, bt_insert node (linked_name (next_id + 1)) names)
     else Inr (next_id, bt_insert node node names)))"

definition rename_all :: "string \<Rightarrow> name_map \<Rightarrow> json list \<Rightarrow> string list result" where
  "rename_all msg names vs =
     try_map (\<lambda>v. option_context msg (Option.bind (as_str v) (bt_get names))) vs"

definition rename_branches :: "name_map \<Rightarrow> json_map \<Rightarrow> json_map result" where
  "rename_branches names branches =
     try_map (\<lambda>(label, targets).
       and_then (option_context ''Invalid branch destinations'' (as_array targets)) (\<lambda>targets.
       and_then (rename_all ''Unknown branch destination'' names targets) (\<lambda>renamed.
       Inr (label, JArray (map JString renamed))))) branches"

definition origin_of :: "string \<Rightarrow> string \<Rightarrow> string \<Rightarrow> json" where
  "origin_of pipeline_id revision_id block_id =
     JObject [(''pipeline_id'', JString pipeline_id), (''revision_id'', JString revision_id),
       (''block_id'', JString block_id)]"

definition rename_step ::
  "string \<Rightarrow> string \<Rightarrow> entry \<Rightarrow> name_map \<Rightarrow> string \<Rightarrow> json \<Rightarrow> (string \<times> json_map) result" where
  "rename_step pipeline_id revision_id entry names node step =
     and_then (option_context ''Unknown step'' (bt_get names node)) (\<lambda>mapped.
     and_then (option_context ''Step inputs missing'' (get_array step ''input_from'')) (\<lambda>inputs.
     and_then (rename_all ''Unknown dependency'' names inputs) (\<lambda>mapped_inputs.
     and_then (option_context ''Invalid step'' (as_object step)) (\<lambda>obj.
     let obj = json_insert ''step'' (JString mapped) obj;
         obj = json_insert ''input_from'' (JArray (map JString mapped_inputs)) obj;
         obj = (if entry \<noteq> None then json_insert ''origin'' (origin_of pipeline_id revision_id node) obj else obj) in
     case Option.bind (map_of obj ''branches'') as_object of
       None \<Rightarrow> Inr (mapped, obj)
     | Some branches \<Rightarrow>
         and_then (rename_branches names branches) (\<lambda>branches.
         Inr (mapped, json_insert ''branches'' (JObject branches) obj))))))"

definition expand_step ::
  "(string \<Rightarrow> string \<Rightarrow> json \<Rightarrow> entry \<Rightarrow> expansion \<Rightarrow> expansion result) \<Rightarrow> definitions
    \<Rightarrow> string \<Rightarrow> string \<Rightarrow> entry \<Rightarrow> string list \<Rightarrow> name_map \<Rightarrow> expansion \<Rightarrow> json \<Rightarrow> expansion result" where
  "expand_step recurse definitions pipeline_id revision_id entry reachable names st step =
     and_then (option_context ''Step identifier missing'' (get_str step ''step'')) (\<lambda>node.
     if skipped entry reachable node then Inr st
     else
       and_then (rename_step pipeline_id revision_id entry names node step) (\<lambda>(mapped, obj).
       if get_str step ''type'' = Some ''pipeline'' then
         and_then (option_context ''Reference missing'' (map_of obj ''pipeline_ref'')) (\<lambda>v.
         and_then (reference_from_value v) (\<lambda>reference.
         let obj = json_insert ''type'' (JString ''forward'') (swap_remove ''pipeline_ref'' obj);
             st = st\<lparr>ex_steps := ex_steps st @ [JObject obj]\<rparr> in
         and_then (option_context ''Referenced pipeline revision unavailable''
           (bt_get definitions (pr_pipeline_id reference, pr_revision_id reference))) (\<lambda>child.
         recurse (pr_pipeline_id reference) (pr_revision_id reference) child
           (Some (pr_input_source reference, mapped)) st)))
       else Inr (st\<lparr>ex_steps := ex_steps st @ [JObject obj]\<rparr>)))"

fun expansion_append ::
  "nat \<Rightarrow> definitions \<Rightarrow> string \<Rightarrow> string \<Rightarrow> json \<Rightarrow> entry \<Rightarrow> expansion \<Rightarrow> expansion result" where
  "expansion_append 0 definitions pipeline_id revision_id document entry st = bail ''out of fuel''"
| "expansion_append (Suc fuel) definitions pipeline_id revision_id document entry st =
     ensure (pipeline_id \<notin> set (ex_active st)) ''Cross-pipeline cycle detected'' (
     let st = st\<lparr>ex_active := pipeline_id # ex_active st\<rparr> in
     and_then (references document) (\<lambda>refs.
     let st = st\<lparr>ex_transfers := ex_transfers st + length refs\<rparr> in
     ensure (ex_transfers st \<le> MAX_TRANSFERS) ''Composition exceeds three pipeline transfers'' (
     and_then (validate_pipeline_structure document) (\<lambda>order.
     and_then (option_context ''Pipeline sources missing'' (get_array document ''sources'')) (\<lambda>sources.
     and_then (option_context ''Pipeline steps missing'' (get_array document ''pipeline'')) (\<lambda>steps.
     let st = st\<lparr>ex_blocks := ex_blocks st + (length sources + length steps)\<rparr> in
     ensure (ex_blocks st \<le> MAX_BLOCKS) ''Expanded composition exceeds 256 blocks'' (
     and_then (reachable_steps entry sources steps order) (\<lambda>reachable.
     and_then (try_fold (name_source entry) [] sources) (\<lambda>names.
     and_then (try_fold (name_step entry reachable) (ex_next_id st, names) steps) (\<lambda>(next_id, names).
     let st = st\<lparr>ex_next_id := next_id\<rparr> in
     and_then (try_fold (expand_step (expansion_append fuel definitions) definitions pipeline_id revision_id entry
       reachable names) st steps) (\<lambda>st.
     Inr (st\<lparr>ex_active := filter (\<lambda>x. x \<noteq> pipeline_id) (ex_active st)\<rparr>))))))))))))"

record compiled_pipeline =
  cp_definition :: json
  cp_blocks :: nat
  cp_transfers :: nat

definition empty_expansion :: expansion where
  "empty_expansion = \<lparr>ex_active = [], ex_steps = [], ex_blocks = 0, ex_transfers = 0, ex_next_id = 0\<rparr>"

definition EXPANSION_FUEL :: nat where
  "EXPANSION_FUEL = 4"

definition compile_with_stats :: "string \<Rightarrow> string \<Rightarrow> json \<Rightarrow> definitions \<Rightarrow> compiled_pipeline result" where
  "compile_with_stats pipeline_id revision_id document definitions =
     and_then (expansion_append EXPANSION_FUEL definitions pipeline_id revision_id document None empty_expansion) (\<lambda>st.
     and_then (option_context ''Invalid pipeline'' (as_object document)) (\<lambda>obj.
     Inr \<lparr>cp_definition = JObject (json_insert ''pipeline'' (JArray (ex_steps st)) obj),
          cp_blocks = ex_blocks st, cp_transfers = ex_transfers st\<rparr>))"

definition compile :: "string \<Rightarrow> string \<Rightarrow> json \<Rightarrow> definitions \<Rightarrow> json result" where
  "compile pipeline_id revision_id document definitions =
     and_then (compile_with_stats pipeline_id revision_id document definitions) (\<lambda>c. Inr (cp_definition c))"

section \<open>One level of the expansion\<close>

lemma rename_all_Inr:
  assumes "rename_all msg names vs = Inr xs"
  shows "set xs \<subseteq> ran (bt_get names)"
  using assms unfolding rename_all_def try_map_Inr_iff option_context_Inr_iff
  by (induction rule: list_all2_induct) (auto simp: bind_eq_Some_conv ran_def)

text \<open>A renamed step carries its new name, renamed inputs, and otherwise its own fields.\<close>

lemma rename_step_Inr:
  assumes "rename_step pid rid e names node step = Inr (mapped, obj)" "wf_json step"
  shows "bt_get names node = Some mapped" "map_of obj ''step'' = Some (JString mapped)"
    "\<exists>xs. map_of obj ''input_from'' = Some (JArray (map JString xs)) \<and> set xs \<subseteq> ran (bt_get names)"
    "map_of obj ''type'' = json_get step ''type''" "distinct (map fst obj)"
proof -
  obtain mapped' where mapped': "bt_get names node = Some mapped'"
    using assms(1) by (cases "bt_get names node") (simp_all add: rename_step_def)
  obtain inputs where inputs: "get_array step ''input_from'' = Some inputs"
    using assms(1) mapped' by (cases "get_array step ''input_from''") (simp_all add: rename_step_def)
  obtain mapped_inputs where renamed: "rename_all ''Unknown dependency'' names inputs = Inr mapped_inputs"
    using assms(1) mapped' inputs
    by (cases "rename_all ''Unknown dependency'' names inputs") (simp_all add: rename_step_def)
  obtain obj0 where obj0: "as_object step = Some obj0"
    using assms(1) mapped' inputs renamed by (cases "as_object step") (simp_all add: rename_step_def)
  have r: "rename_step pid rid e names node step =
      (let obj = json_insert ''step'' (JString mapped') obj0;
         obj = json_insert ''input_from'' (JArray (map JString mapped_inputs)) obj;
         obj = (if e \<noteq> None then json_insert ''origin'' (origin_of pid rid node) obj else obj) in
       case Option.bind (map_of obj ''branches'') as_object of
         None \<Rightarrow> Inr (mapped', obj)
       | Some branches \<Rightarrow>
           and_then (rename_branches names branches) (\<lambda>branches.
           Inr (mapped', json_insert ''branches'' (JObject branches) obj)))"
    unfolding rename_step_def mapped' inputs renamed obj0 option_context_simps and_then_simps Let_def ..
  have "mapped' = mapped"
    using assms(1) unfolding r Let_def by (auto simp: and_then_Inr_iff split: option.splits)
  with mapped' have m: "bt_get names node = Some mapped" "set mapped_inputs \<subseteq> ran (bt_get names)" "step = JObject obj0"
    using rename_all_Inr [OF renamed] obj0 by simp_all
  note r = r [unfolded \<open>mapped' = mapped\<close>]
  define o1 where "o1 = json_insert ''input_from'' (JArray (map JString mapped_inputs))
    (json_insert ''step'' (JString mapped) obj0)"
  define o2 where "o2 = (if e \<noteq> None then json_insert ''origin'' (origin_of pid rid node) o1 else o1)"
  have "obj = o2 \<or> (\<exists>b. obj = json_insert ''branches'' b o2)"
    using assms(1) unfolding r Let_def o1_def [symmetric] o2_def [symmetric]
    by (auto simp: and_then_Inr_iff split: option.splits)
  moreover have "distinct (map fst o2)"
    using assms(2) m(3) by (simp add: o2_def o1_def distinct_update)
  moreover have "map_of o2 ''step'' = Some (JString mapped)"
      "map_of o2 ''input_from'' = Some (JArray (map JString mapped_inputs))"
      "map_of o2 ''type'' = json_get step ''type''"
    by (simp_all add: o2_def o1_def update_conv' json_get_def m(3))
  ultimately show "map_of obj ''step'' = Some (JString mapped)"
    "\<exists>xs. map_of obj ''input_from'' = Some (JArray (map JString xs)) \<and> set xs \<subseteq> ran (bt_get names)"
    "map_of obj ''type'' = json_get step ''type''" "distinct (map fst obj)"
    using m(2) by (auto simp: update_conv' distinct_update)
  show "bt_get names node = Some mapped" by (rule m(1))
qed

definition emitted :: "name_map \<Rightarrow> string \<Rightarrow> json \<Rightarrow> bool" where
  "emitted names mapped s \<longleftrightarrow>
     step_id s = mapped \<and> step_kind s \<noteq> ''pipeline'' \<and> set (step_inputs s) \<subseteq> ran (bt_get names)"

lemma names_of_map: "names_of (map JString xs) = xs"
  by (induction xs) (simp_all add: names_of_def List.map_filter_simps)

lemma emittedI:
  assumes "map_of obj ''step'' = Some (JString mapped)"
    "map_of obj ''input_from'' = Some (JArray (map JString xs))" "set xs \<subseteq> ran (bt_get names)"
    "map_of obj ''type'' \<noteq> Some (JString ''pipeline'')"
  shows "emitted names mapped (JObject obj)"
  using assms by (auto simp: emitted_def step_id_def step_kind_def step_inputs_def names_of_map get_str_def
      get_array_def json_get_def bind_eq_Some_conv split: option.splits)

text \<open>
  One iteration either skips the step, or emits it under its new name and then, for a
  transfer, expands the referenced pipeline behind it.
\<close>

lemma expand_step_cases:
  assumes "expand_step recurse defs pid rid e reachable names st step = Inr st'" "wf_json step"
  obtains (skip) "skipped e reachable (step_id step)" "st' = st"
  | (emit) mapped s where "\<not> skipped e reachable (step_id step)" "bt_get names (step_id step) = Some mapped"
      "emitted names mapped s" "st' = st\<lparr>ex_steps := ex_steps st @ [s]\<rparr>"
  | (transfer) mapped s and reference :: pipeline_reference and child where "\<not> skipped e reachable (step_id step)"
      "get_str step ''type'' = Some ''pipeline''"
      "bt_get names (step_id step) = Some mapped" "emitted names mapped s"
      "bt_get defs (pr_pipeline_id reference, pr_revision_id reference) = Some child"
      "recurse (pr_pipeline_id reference) (pr_revision_id reference) child
         (Some (pr_input_source reference, mapped)) (st\<lparr>ex_steps := ex_steps st @ [s]\<rparr>) = Inr st'"
proof -
  obtain node where node: "get_str step ''step'' = Some node"
    using assms(1) by (auto simp: expand_step_def and_then_Inr_iff option_context_Inr_iff)
  then have sid: "step_id step = node" by (simp add: step_id_def)
  show thesis
  proof (cases "skipped e reachable node")
    case True
    with assms(1) node sid skip show ?thesis by (simp add: expand_step_def)
  next
    case False
    then obtain mapped obj where r: "rename_step pid rid e names node step = Inr (mapped, obj)"
      using assms(1) node by (auto simp: expand_step_def and_then_Inr_iff)
    note obj = rename_step_Inr [OF r assms(2)]
    obtain xs where xs: "map_of obj ''input_from'' = Some (JArray (map JString xs))" "set xs \<subseteq> ran (bt_get names)"
      using obj(3) by blast
    show ?thesis
    proof (cases "get_str step ''type'' = Some ''pipeline''")
      case True
      define obj' where "obj' = json_insert ''type'' (JString ''forward'') (swap_remove ''pipeline_ref'' obj)"
      have "map_of obj' k = (if k = ''type'' then Some (JString ''forward'')
          else if k = ''pipeline_ref'' then None else map_of obj k)" for k
        using obj(5) by (simp add: obj'_def update_conv' map_of_swap_remove)
      then have "emitted names mapped (JObject obj')" using obj(2) xs by (intro emittedI) simp_all
      moreover have "\<exists>(reference :: pipeline_reference) child.
          bt_get defs (pr_pipeline_id reference, pr_revision_id reference) = Some child \<and>
          recurse (pr_pipeline_id reference) (pr_revision_id reference) child
             (Some (pr_input_source reference, mapped)) (st\<lparr>ex_steps := ex_steps st @ [JObject obj']\<rparr>) = Inr st'"
        using assms(1) node False r True unfolding expand_step_def Let_def obj'_def
        by (simp add: and_then_Inr_iff option_context_Inr_iff) blast
      ultimately show ?thesis using transfer False True obj(1) sid by blast
    next
      case no: False
      have "map_of obj ''type'' \<noteq> Some (JString ''pipeline'')" using no obj(4) by (simp add: get_eq_Some)
      then have "emitted names mapped (JObject obj)" using obj(2) xs by (intro emittedI)
      moreover have "st' = st\<lparr>ex_steps := ex_steps st @ [JObject obj]\<rparr>"
        using assms(1) node False r no by (simp add: expand_step_def)
      ultimately show ?thesis using emit False obj(1) sid by blast
    qed
  qed
qed

section \<open>Budgets and fuel\<close>

lemma compositionE:
  assumes "expansion_append (Suc fuel) defs pid rid doc e st = Inr st'"
  obtains refs order sources steps reachable names0 next_id names st1 st2 where
    "pid \<notin> set (ex_active st)" "references doc = Inr refs" "ex_transfers st + length refs \<le> MAX_TRANSFERS"
    "validate_pipeline_structure doc = Inr order"
    "get_array doc ''sources'' = Some sources" "get_array doc ''pipeline'' = Some steps"
    "ex_blocks st + (length sources + length steps) \<le> MAX_BLOCKS"
    "reachable_steps e sources steps order = Inr reachable"
    "try_fold (name_source e) [] sources = Inr names0"
    "try_fold (name_step e reachable) (ex_next_id st, names0) steps = Inr (next_id, names)"
    "st1 = st\<lparr>ex_active := pid # ex_active st, ex_transfers := ex_transfers st + length refs,
       ex_blocks := ex_blocks st + (length sources + length steps), ex_next_id := next_id\<rparr>"
    "try_fold (expand_step (expansion_append fuel defs) defs pid rid e reachable names) st1 steps = Inr st2"
    "st' = st2\<lparr>ex_active := filter (\<lambda>x. x \<noteq> pid) (ex_active st2)\<rparr>"
  using assms
  by (auto simp: Let_def ensure_Inr_iff and_then_Inr_iff option_context_Inr_iff)

definition within_budget :: "nat \<Rightarrow> expansion \<Rightarrow> bool" where
  "within_budget t u \<longleftrightarrow> ex_blocks u \<le> MAX_BLOCKS \<and> ex_transfers u \<le> MAX_TRANSFERS \<and> t \<le> ex_transfers u"

lemma within_budget_steps [simp]: "within_budget t (u\<lparr>ex_steps := ss\<rparr>) = within_budget t u"
  by (simp add: within_budget_def)

lemma expand_step_budget:
  assumes "expand_step recurse defs pid rid e reachable names u step = Inr u'" "within_budget t u"
    and "\<And>p r d e v v'. recurse p r d e v = Inr v' \<Longrightarrow> within_budget (ex_transfers v) v'"
  shows "within_budget t u'"
proof -
  have step: "within_budget t v'" if "recurse p r d e (u\<lparr>ex_steps := ss\<rparr>) = Inr v'" for p r d e ss v'
    using assms(3) [OF that] assms(2) by (auto simp: within_budget_def)
  show ?thesis
    using assms(1,2) step unfolding expand_step_def
    by (auto simp: and_then_Inr_iff option_context_Inr_iff Let_def split: if_splits)
qed

lemma append_budget:
  "expansion_append fuel defs pid rid doc e st = Inr st' \<Longrightarrow> within_budget (ex_transfers st) st'"
proof (induction fuel arbitrary: pid rid doc e st st')
  case (Suc fuel)
  from Suc.prems obtain refs :: "pipeline_reference list" and sources steps :: "json list"
      and reachable names next_id st1 st2 where
      le: "ex_transfers st + length refs \<le> MAX_TRANSFERS"
      "ex_blocks st + (length sources + length steps) \<le> MAX_BLOCKS"
    and st1: "st1 = st\<lparr>ex_active := pid # ex_active st, ex_transfers := ex_transfers st + length refs,
       ex_blocks := ex_blocks st + (length sources + length steps), ex_next_id := next_id\<rparr>"
    and loop: "try_fold (expand_step (expansion_append fuel defs) defs pid rid e reachable names) st1 steps = Inr st2"
    and st': "st' = st2\<lparr>ex_active := filter (\<lambda>x. x \<noteq> pid) (ex_active st2)\<rparr>"
    by (elim compositionE) blast
  have "within_budget (ex_transfers st) st1" using le by (simp add: st1 within_budget_def)
  then have "within_budget (ex_transfers st) st2"
    by (rule try_fold_invariant [OF loop]) (rule expand_step_budget, assumption, assumption, rule Suc.IH)
  then show ?case by (simp add: st' within_budget_def)
qed simp

text \<open>A transfer step is charged by \<open>references\<close>.\<close>

lemma check_reference_grows:
  "check_reference steps rs node = Inr rs' \<Longrightarrow>
    length rs \<le> length rs' \<and> (get_str node ''type'' = Some ''pipeline'' \<longrightarrow> length rs < length rs')"
  unfolding check_reference_def
  by (auto simp: ensure_Inr_iff and_then_Inr_iff option_context_Inr_iff split: if_splits)

lemma references_charged:
  assumes "references doc = Inr refs" "get_array doc ''pipeline'' = Some steps" "s \<in> set steps"
    "get_str s ''type'' = Some ''pipeline''"
  shows "refs \<noteq> []"
proof -
  obtain sources where loop: "try_fold (check_reference steps) [] (sources @ steps) = Inr refs"
    using assms(1,2) by (auto simp: references_def ensure_Inr_iff and_then_Inr_iff option_context_Inr_iff)
  have "length rs < length refs"
    if "try_fold (check_reference steps) rs nodes = Inr refs" "s \<in> set nodes" for rs nodes
    using that
  proof (induction nodes arbitrary: rs)
    case (Cons n nodes)
    then obtain rs' where rs': "check_reference steps rs n = Inr rs'" "try_fold (check_reference steps) rs' nodes = Inr refs"
      by (auto simp: and_then_Inr_iff)
    have "length rs' \<le> length refs"
      using try_fold_invariant [OF rs'(2), of "\<lambda>x. length rs' \<le> length x"] check_reference_grows by fastforce
    moreover have "length rs' < length refs" if "s \<in> set nodes" using Cons.IH [OF rs'(2) that] .
    ultimately show ?case using check_reference_grows [OF rs'(1)] Cons.prems(2) assms(4) by fastforce
  qed simp
  from this [OF loop] assms(3) show ?thesis by auto
qed

text \<open>Four levels of fuel are enough: more fuel never changes the outcome.\<close>

lemma append_fuel:
  assumes "0 < fuel" "MAX_TRANSFERS < fuel + ex_transfers st"
  shows "expansion_append (fuel + k) defs pid rid doc e st = expansion_append fuel defs pid rid doc e st"
  using assms
proof (induction fuel arbitrary: pid rid doc e st)
  case (Suc fuel)
  have loop: "try_fold (expand_step (expansion_append (fuel + k) defs) defs pid rid e reachable names) u steps =
      try_fold (expand_step (expansion_append fuel defs) defs pid rid e reachable names) u steps"
    if "references doc = Inr refs" "get_array doc ''pipeline'' = Some steps"
      "within_budget (ex_transfers st + length refs) u" for refs steps reachable names u
  proof (rule try_fold_cong_invariant [where P = "within_budget (ex_transfers st + length refs)"])
    fix v s
    assume s: "s \<in> set steps" and v: "within_budget (ex_transfers st + length refs) v"
    show "expand_step (expansion_append (fuel + k) defs) defs pid rid e reachable names v s =
        expand_step (expansion_append fuel defs) defs pid rid e reachable names v s"
    proof (cases "get_str s ''type'' = Some ''pipeline''")
      case True
      then have "refs \<noteq> []" using references_charged that s by blast
      then have "Suc (ex_transfers st) \<le> ex_transfers v" "ex_transfers v \<le> MAX_TRANSFERS"
        using v by (cases refs; simp add: within_budget_def)+
      then have "0 < fuel" "MAX_TRANSFERS < fuel + ex_transfers v" using Suc.prems by linarith+
      then have rec: "expansion_append (fuel + k) defs p r d x (v\<lparr>ex_steps := ss\<rparr>) =
          expansion_append fuel defs p r d x (v\<lparr>ex_steps := ss\<rparr>)" for p r d x ss
        by (intro Suc.IH) simp_all
      show ?thesis unfolding expand_step_def Let_def rec ..
    next
      case False
      show ?thesis unfolding expand_step_def if_not_P [OF False] ..
    qed
  next
    fix v s v'
    assume "within_budget (ex_transfers st + length refs) v"
      "expand_step (expansion_append (fuel + k) defs) defs pid rid e reachable names v s = Inr v'"
    then show "within_budget (ex_transfers st + length refs) v'"
      using expand_step_budget append_budget by blast
  qed (rule that(3))
  show ?case
    unfolding add_Suc expansion_append.simps Let_def
    by (intro ensure_fundef_cong and_then_fundef_cong refl prod.case_cong)
      (rule loop, assumption, simp add: option_context_Inr_iff, simp add: within_budget_def)
qed simp

section \<open>The shape of the expansion\<close>

lemma linked_name_inject [simp]: "linked_name m = linked_name n \<longleftrightarrow> m = n"
  by (simp add: linked_name_def)

lemma linked_name_starts: "starts_with ''__linked_'' (linked_name n)"
  by (simp only: linked_name_def starts_with_append)

text \<open>
  What a linked expansion adds behind the transfer block \<open>t\<close>: steps with fresh, distinct
  generated names, none of them a transfer, fed by the block or by each other.
\<close>

definition linked_ok :: "string \<Rightarrow> expansion \<Rightarrow> expansion \<Rightarrow> json list \<Rightarrow> bool" where
  "linked_ok t u u' N \<longleftrightarrow>
     ex_steps u' = ex_steps u @ N \<and> ex_next_id u \<le> ex_next_id u' \<and> distinct (map step_id N) \<and>
     step_id ` set N \<subseteq> linked_name ` {ex_next_id u <.. ex_next_id u'} \<and>
     (\<forall>s \<in> set N. step_kind s \<noteq> ''pipeline'' \<and> set (step_inputs s) \<subseteq> insert t (step_id ` set N))"

definition level_names :: "entry \<Rightarrow> string list \<Rightarrow> name_map \<Rightarrow> json list \<Rightarrow> string set" where
  "level_names e reachable names steps =
     {m. \<exists>s \<in> set steps. \<not> skipped e reachable (step_id s) \<and> bt_get names (step_id s) = Some m}"

text \<open>What one level adds: its own renamed steps, and those behind its transfers.\<close>

definition level_ok :: "entry \<Rightarrow> string list \<Rightarrow> name_map \<Rightarrow> json list \<Rightarrow> expansion \<Rightarrow> expansion \<Rightarrow> json list \<Rightarrow> bool" where
  "level_ok e reachable names steps u u' N \<longleftrightarrow>
     ex_steps u' = ex_steps u @ N \<and> ex_next_id u \<le> ex_next_id u' \<and> distinct (map step_id N) \<and>
     level_names e reachable names steps \<subseteq> step_id ` set N \<and>
     step_id ` set N \<subseteq> level_names e reachable names steps \<union> linked_name ` {ex_next_id u <.. ex_next_id u'} \<and>
     (\<forall>s \<in> set N. step_kind s \<noteq> ''pipeline'' \<and> set (step_inputs s) \<subseteq> ran (bt_get names) \<union> step_id ` set N)"

definition fresh_names :: "name_map \<Rightarrow> entry \<Rightarrow> string list \<Rightarrow> json list \<Rightarrow> nat \<Rightarrow> bool" where
  "fresh_names names e reachable steps n \<longleftrightarrow>
     level_names e reachable names steps \<inter> linked_name ` {n <..} = {} \<and>
     (\<forall>s \<in> set steps. \<forall>s' \<in> set steps. \<not> skipped e reachable (step_id s) \<longrightarrow> \<not> skipped e reachable (step_id s') \<longrightarrow>
        bt_get names (step_id s) \<noteq> None \<longrightarrow> bt_get names (step_id s) = bt_get names (step_id s') \<longrightarrow>
        step_id s = step_id s')"

lemma fresh_names_Cons:
  assumes "fresh_names names e reachable (s # ss) n" "n \<le> n'"
  shows "fresh_names names e reachable ss n'"
proof -
  have "level_names e reachable names ss \<subseteq> level_names e reachable names (s # ss)"
    by (auto simp: level_names_def)
  moreover have "linked_name ` {n' <..} \<subseteq> linked_name ` {n <..}" using assms(2) by auto
  ultimately show ?thesis using assms(1) unfolding fresh_names_def by (meson disjoint_iff list.set_intros(2) subsetD)
qed

lemma level_names_Cons:
  "level_names e reachable names (s # ss) =
    (if \<not> skipped e reachable (step_id s) then set_option (bt_get names (step_id s)) else {}) \<union>
    level_names e reachable names ss"
  by (auto simp: level_names_def)

lemma fresh_head:
  assumes "fresh_names names e reachable (s # ss) n" "distinct (map step_id (s # ss))"
    "\<not> skipped e reachable (step_id s)" "bt_get names (step_id s) = Some m"
  shows "m \<notin> level_names e reachable names ss" "m \<notin> linked_name ` {n <..}"
proof -
  have "step_id s = step_id s'" if "s' \<in> set ss" "\<not> skipped e reachable (step_id s')"
      "bt_get names (step_id s') = Some m" for s'
    using assms(1,3,4) that unfolding fresh_names_def
    by (metis list.set_intros(1,2) option.distinct(1))
  then show "m \<notin> level_names e reachable names ss"
    using assms(2) by (force simp: level_names_def)
  show "m \<notin> linked_name ` {n <..}"
    using assms(1,3,4) unfolding fresh_names_def level_names_Cons by auto
qed

lemma disjoint_layers:
  "A \<subseteq> L1 \<Longrightarrow> B \<subseteq> V \<union> L2 \<Longrightarrow> V \<inter> L = {} \<Longrightarrow> L1 \<subseteq> L \<Longrightarrow> L1 \<inter> L2 = {} \<Longrightarrow> A \<inter> B = {}"
  "A \<subseteq> L1 \<Longrightarrow> L1 \<subseteq> L \<Longrightarrow> m \<notin> L \<Longrightarrow> m \<notin> A"
  "B \<subseteq> V \<union> L2 \<Longrightarrow> L2 \<subseteq> L \<Longrightarrow> m \<notin> L \<Longrightarrow> m \<notin> V \<Longrightarrow> m \<notin> B"
  "A \<subseteq> L1 \<Longrightarrow> B \<subseteq> V \<union> L2 \<Longrightarrow> L1 \<subseteq> L \<Longrightarrow> L2 \<subseteq> L \<Longrightarrow> m \<in> W \<Longrightarrow> V \<subseteq> W \<Longrightarrow> insert m (A \<union> B) \<subseteq> W \<union> L"
  by blast+

lemma level_ok_emit:
  assumes fresh: "fresh_names names e reachable (s # ss) (ex_next_id u)"
    and dist: "distinct (map step_id (s # ss))"
    and head: "\<not> skipped e reachable (step_id s)" "bt_get names (step_id s) = Some m" "emitted names m s'"
    and linked: "linked_ok m (u\<lparr>ex_steps := ex_steps u @ [s']\<rparr>) u1 N1"
    and rest: "level_ok e reachable names ss u1 u' N2"
  shows "level_ok e reachable names (s # ss) u u' (s' # N1 @ N2)"
proof -
  note m = fresh_head [OF fresh dist head(1,2)]
  have s': "step_id s' = m" "step_kind s' \<noteq> ''pipeline''" "set (step_inputs s') \<subseteq> ran (bt_get names)"
    using head(3) by (simp_all add: emitted_def)
  have next_ids: "ex_next_id u \<le> ex_next_id u1" "ex_next_id u1 \<le> ex_next_id u'"
    using linked rest by (simp_all add: linked_ok_def level_ok_def)
  have ids1: "step_id ` set N1 \<subseteq> linked_name ` {ex_next_id u <.. ex_next_id u1}"
    using linked by (simp add: linked_ok_def)
  have ids2: "step_id ` set N2 \<subseteq> level_names e reachable names ss \<union> linked_name ` {ex_next_id u1 <.. ex_next_id u'}"
    using rest by (simp add: level_ok_def)
  have level: "level_names e reachable names ss \<inter> linked_name ` {ex_next_id u <..} = {}"
    using fresh_names_Cons [OF fresh order_refl] by (simp add: fresh_names_def)
  have above: "linked_name ` {ex_next_id u <.. ex_next_id u1} \<subseteq> linked_name ` {ex_next_id u <..}"
      "linked_name ` {ex_next_id u1 <.. ex_next_id u'} \<subseteq> linked_name ` {ex_next_id u <..}"
      "linked_name ` {ex_next_id u <.. ex_next_id u1} \<inter> linked_name ` {ex_next_id u1 <.. ex_next_id u'} = {}"
    using next_ids by (auto simp: image_iff)
  have "step_id ` set N1 \<inter> step_id ` set N2 = {}"
    by (rule disjoint_layers(1) [OF ids1 ids2 level above(1,3)])
  moreover have "m \<notin> step_id ` set N1" by (rule disjoint_layers(2) [OF ids1 above(1) m(2)])
  moreover have "m \<notin> step_id ` set N2" by (rule disjoint_layers(3) [OF ids2 above(2) m(2,1)])
  ultimately have "distinct (map step_id (s' # N1 @ N2))"
    using linked rest s'(1) by (auto simp: linked_ok_def level_ok_def)
  moreover have "step_id ` set (s' # N1 @ N2) \<subseteq>
      level_names e reachable names (s # ss) \<union> linked_name ` {ex_next_id u <.. ex_next_id u'}"
  proof -
    have "linked_name ` {ex_next_id u <.. ex_next_id u1} \<subseteq> linked_name ` {ex_next_id u <.. ex_next_id u'}"
        "linked_name ` {ex_next_id u1 <.. ex_next_id u'} \<subseteq> linked_name ` {ex_next_id u <.. ex_next_id u'}"
      using next_ids by auto
    moreover have "m \<in> level_names e reachable names (s # ss)"
        "level_names e reachable names ss \<subseteq> level_names e reachable names (s # ss)"
      using head(1,2) by (auto simp: level_names_Cons)
    moreover have "step_id ` set (s' # N1 @ N2) = insert m (step_id ` set N1 \<union> step_id ` set N2)"
      using s'(1) by auto
    ultimately show ?thesis using disjoint_layers(4) [OF ids1 ids2] by metis
  qed
  moreover have "level_names e reachable names (s # ss) \<subseteq> step_id ` set (s' # N1 @ N2)"
    using rest s'(1) head(1,2) unfolding level_names_Cons by (auto simp: level_ok_def)
  moreover have "\<forall>x \<in> set (s' # N1 @ N2). step_kind x \<noteq> ''pipeline'' \<and>
      set (step_inputs x) \<subseteq> ran (bt_get names) \<union> step_id ` set (s' # N1 @ N2)"
  proof -
    have "insert m (step_id ` set N1) \<subseteq> step_id ` set (s' # N1 @ N2)"
        "step_id ` set N2 \<subseteq> step_id ` set (s' # N1 @ N2)"
      using s'(1) by auto
    moreover have "\<forall>x \<in> set N1. step_kind x \<noteq> ''pipeline'' \<and> set (step_inputs x) \<subseteq> insert m (step_id ` set N1)"
      using linked by (simp add: linked_ok_def)
    moreover have "\<forall>x \<in> set N2. step_kind x \<noteq> ''pipeline'' \<and>
        set (step_inputs x) \<subseteq> ran (bt_get names) \<union> step_id ` set N2"
      using rest by (simp add: level_ok_def)
    ultimately show ?thesis unfolding set_simps set_append ball_simps ball_Un
      using s'(2,3) by (meson Un_mono order_refl subset_trans sup.coboundedI1 sup.coboundedI2)
  qed
  moreover have "ex_steps u' = ex_steps u @ s' # N1 @ N2"
    using linked rest by (simp add: linked_ok_def level_ok_def)
  ultimately show ?thesis using next_ids by (simp add: level_ok_def)
qed

lemma expand_level:
  assumes "try_fold (expand_step recurse defs pid rid e reachable names) u steps = Inr u'"
    and "\<forall>s \<in> set steps. wf_json s" "distinct (map step_id steps)"
    and "fresh_names names e reachable steps (ex_next_id u)"
    and rec: "\<And>p r key child i t v v'. bt_get defs key = Some child \<Longrightarrow>
      recurse p r child (Some (i, t)) v = Inr v' \<Longrightarrow> \<exists>N. linked_ok t v v' N"
  shows "\<exists>N. level_ok e reachable names steps u u' N"
  using assms(1-4)
proof (induction steps arbitrary: u)
  case Nil
  then show ?case by (simp add: level_ok_def level_names_def)
next
  case (Cons s ss)
  then obtain u1 where step: "expand_step recurse defs pid rid e reachable names u s = Inr u1"
    and rest: "try_fold (expand_step recurse defs pid rid e reachable names) u1 ss = Inr u'"
    by (auto simp: and_then_Inr_iff)
  have IH: "\<exists>N. level_ok e reachable names ss u1 u' N" if "ex_next_id u \<le> ex_next_id u1"
    by (rule Cons.IH [OF rest]) (use Cons.prems fresh_names_Cons that in auto)
  have wf: "wf_json s" using Cons.prems(2) by simp
  from step wf show ?case
  proof (cases rule: expand_step_cases)
    case skip
    with IH show ?thesis by (auto simp: level_ok_def level_names_Cons)
  next
    case (emit m s')
    have "linked_ok m (u\<lparr>ex_steps := ex_steps u @ [s']\<rparr>) u1 []" using emit(4) by (simp add: linked_ok_def)
    moreover obtain N2 where "level_ok e reachable names ss u1 u' N2" using IH emit(4) by auto
    ultimately show ?thesis using level_ok_emit [OF Cons.prems(4,3) emit(1-3)] by blast
  next
    case (transfer m s' reference child)
    obtain N1 where N1: "linked_ok m (u\<lparr>ex_steps := ex_steps u @ [s']\<rparr>) u1 N1"
      using rec [OF transfer(5,6)] by blast
    moreover obtain N2 where "level_ok e reachable names ss u1 u' N2"
      using IH N1 by (auto simp: linked_ok_def)
    ultimately show ?thesis using level_ok_emit [OF Cons.prems(4,3) transfer(1,3,4)] by blast
  qed
qed

section \<open>Naming\<close>

definition named_steps :: "entry \<Rightarrow> string list \<Rightarrow> nat \<Rightarrow> name_map \<Rightarrow> nat \<Rightarrow> name_map \<Rightarrow> json list \<Rightarrow> bool" where
  "named_steps e reachable n names n' names' steps \<longleftrightarrow>
     n \<le> n' \<and>
     (\<forall>x. x \<in> step_id ` set steps \<and> \<not> skipped e reachable x \<or> bt_get names' x = bt_get names x) \<and>
     (\<forall>s \<in> set steps. \<not> skipped e reachable (step_id s) \<longrightarrow>
        (\<exists>k. n < k \<and> k \<le> n' \<and> bt_get names' (step_id s) = Some (linked_name k))) \<and>
     (\<forall>s \<in> set steps. \<forall>s' \<in> set steps. \<not> skipped e reachable (step_id s) \<longrightarrow>
        \<not> skipped e reachable (step_id s') \<longrightarrow>
        bt_get names' (step_id s) = bt_get names' (step_id s') \<longrightarrow> step_id s = step_id s')"

lemma name_steps_linked:
  assumes "try_fold (name_step (Some et) reachable) (n, names) steps = Inr (n', names')"
    "distinct (map step_id steps)"
  shows "named_steps (Some et) reachable n names n' names' steps"
  using assms
proof (induction steps arbitrary: n names)
  case Nil
  then show ?case by (simp add: named_steps_def)
next
  case (Cons s ss)
  obtain node where node: "get_str s ''step'' = Some node" "step_id s = node"
    using Cons.prems(1) by (auto simp: name_step_def and_then_Inr_iff option_context_Inr_iff step_id_def)
  show ?case
  proof (cases "skipped (Some et) reachable node")
    case True
    then have "name_step (Some et) reachable (n, names) s = Inr (n, names)"
      using node by (simp add: name_step_def)
    then have "try_fold (name_step (Some et) reachable) (n, names) ss = Inr (n', names')"
      using Cons.prems(1) by simp
    from Cons.IH [OF this] Cons.prems(2) True node show ?thesis
      by (auto simp: named_steps_def)
  next
    case False
    define names1 where "names1 = bt_insert node (linked_name (n + 1)) names"
    have "name_step (Some et) reachable (n, names) s = Inr (n + 1, names1)"
      using node False by (simp add: name_step_def names1_def)
    then have "try_fold (name_step (Some et) reachable) (n + 1, names1) ss = Inr (n', names')"
      using Cons.prems(1) by simp
    from Cons.IH [OF this] Cons.prems(2)
    have IH: "named_steps (Some et) reachable (n + 1) names1 n' names' ss" by simp
    have head: "bt_get names' node = Some (linked_name (n + 1))"
      using IH Cons.prems(2) node(2) by (auto simp: named_steps_def names1_def)
    have "bt_get names' x = bt_get names x"
      if "\<not> (x \<in> step_id ` set (s # ss) \<and> \<not> skipped (Some et) reachable x)" for x
      using IH that node(2) False by (auto simp: named_steps_def names1_def split: if_splits)
    moreover have "\<exists>k. n < k \<and> k \<le> n' \<and> bt_get names' (step_id x) = Some (linked_name k)"
      if "x \<in> set (s # ss)" "\<not> skipped (Some et) reachable (step_id x)" for x
    proof (cases "x = s")
      case True
      with head node(2) IH show ?thesis by (intro exI [of _ "n + 1"]) (simp add: named_steps_def)
    next
      case False
      with IH that show ?thesis by (fastforce simp: named_steps_def)
    qed
    moreover have "step_id x = step_id y"
      if "x \<in> set (s # ss)" "y \<in> set (s # ss)" "\<not> skipped (Some et) reachable (step_id x)"
        "\<not> skipped (Some et) reachable (step_id y)" "bt_get names' (step_id x) = bt_get names' (step_id y)" for x y
    proof -
      have tail: "bt_get names' (step_id z) \<noteq> Some (linked_name (n + 1))"
        if "z \<in> set ss" "\<not> skipped (Some et) reachable (step_id z)" for z
        using IH that by (fastforce simp: named_steps_def)
      show ?thesis using that IH head tail node(2) by (auto simp: named_steps_def)
    qed
    moreover have "n \<le> n'" using IH by (simp add: named_steps_def)
    ultimately show ?thesis unfolding named_steps_def by blast
  qed
qed

lemma name_steps_root:
  assumes "try_fold (name_step None reachable) (n, names) steps = Inr (n', names')"
  shows "n' = n \<and> (\<forall>s \<in> set steps. bt_get names' (step_id s) = Some (step_id s)) \<and>
    (\<forall>x. x \<notin> step_id ` set steps \<longrightarrow> bt_get names' x = bt_get names x)"
  using assms
proof (induction steps arbitrary: names)
  case (Cons s ss)
  obtain node where node: "get_str s ''step'' = Some node" "step_id s = node"
    using Cons.prems(1) by (auto simp: name_step_def and_then_Inr_iff option_context_Inr_iff step_id_def)
  then have "name_step None reachable (n, names) s = Inr (n, bt_insert node node names)"
    by (simp add: name_step_def skipped_def)
  then have "try_fold (name_step None reachable) (n, bt_insert node node names) ss = Inr (n', names')"
    using Cons.prems by simp
  from Cons.IH [OF this] node(2) show ?case by (auto split: if_splits)
qed simp

lemma name_sources:
  assumes "try_fold (name_source e) names sources = Inr names'"
  shows "ran (bt_get names') \<subseteq> ran (bt_get names) \<union>
    (case e of None \<Rightarrow> source_id ` set sources | Some (i, t) \<Rightarrow> {t})"
  using assms
proof (induction sources arbitrary: names)
  case (Cons s ss)
  then obtain names1 where s: "name_source e names s = Inr names1" "try_fold (name_source e) names1 ss = Inr names'"
    by (auto simp: and_then_Inr_iff)
  have "ran (bt_get (bt_insert k v m)) \<subseteq> insert v (ran (bt_get m))" for k v and m :: name_map
    by (auto simp: ran_def)
  then have "ran (bt_get names1) \<subseteq> ran (bt_get names) \<union>
      (case e of None \<Rightarrow> {source_id s} | Some (i, t) \<Rightarrow> {t})"
    using s(1) by (fastforce simp: name_source_def and_then_Inr_iff option_context_Inr_iff source_id_def
        split: option.splits prod.splits if_splits)
  with Cons.IH [OF s(2)] show ?case by (cases e) fastforce+
qed simp

section \<open>Correctness of the expansion\<close>

lemma structure_distinct:
  assumes "validate_pipeline_structure doc = Inr order" "get_array doc ''sources'' = Some sources"
    "get_array doc ''pipeline'' = Some steps"
  shows "distinct (pipeline_nodes sources steps)"
  using assms unfolding validate_pipeline_structure_def validate_pipeline_internal_Inr
  by (auto simp: pipeline_ok_def)

lemma wf_get_array: "wf_json doc \<Longrightarrow> get_array doc k = Some vs \<Longrightarrow> \<forall>v \<in> set vs. wf_json v"
  using wf_json_get [of doc k] by (auto simp: get_eq_Some list_all_iff)

lemma linked_append:
  assumes "expansion_append fuel defs pid rid doc (Some (i, t)) st = Inr st'" "wf_json doc"
    and defs: "\<And>key d. bt_get defs key = Some d \<Longrightarrow> wf_json d"
  shows "\<exists>N. linked_ok t st st' N"
  using assms(1,2)
proof (induction fuel arbitrary: pid rid doc i t st st')
  case (Suc fuel)
  let ?e = "Some (i, t)"
  from Suc.prems(1) obtain refs :: "pipeline_reference list" and order sources steps reachable names0 n names st1 st2 where
      valid: "validate_pipeline_structure doc = Inr order"
      "get_array doc ''sources'' = Some sources" "get_array doc ''pipeline'' = Some steps"
    and sources: "try_fold (name_source ?e) [] sources = Inr names0"
    and naming: "try_fold (name_step ?e reachable) (ex_next_id st, names0) steps = Inr (n, names)"
    and st1: "st1 = st\<lparr>ex_active := pid # ex_active st, ex_transfers := ex_transfers st + length refs,
       ex_blocks := ex_blocks st + (length sources + length steps), ex_next_id := n\<rparr>"
    and loop: "try_fold (expand_step (expansion_append fuel defs) defs pid rid ?e reachable names) st1 steps = Inr st2"
    and st': "st' = st2\<lparr>ex_active := filter (\<lambda>x. x \<noteq> pid) (ex_active st2)\<rparr>"
    by (elim compositionE) blast
  have dist: "distinct (map step_id steps)"
    using structure_distinct [OF valid] by (simp add: pipeline_nodes_def)
  note named = name_steps_linked [OF naming dist]
  have level: "level_names ?e reachable names steps \<subseteq> linked_name ` {ex_next_id st <.. n}"
    using named by (fastforce simp: level_names_def named_steps_def)
  moreover have "linked_name ` {ex_next_id st <.. n} \<inter> linked_name ` {n <..} = {}" by (auto simp: image_iff)
  ultimately have "level_names ?e reachable names steps \<inter> linked_name ` {n <..} = {}" by blast
  then have fresh: "fresh_names names ?e reachable steps (ex_next_id st1)"
    using named by (simp add: fresh_names_def named_steps_def st1)
  have "\<exists>N. level_ok ?e reachable names steps st1 st2 N"
    by (rule expand_level [OF loop wf_get_array [OF Suc.prems(2) valid(3)] dist fresh], rule Suc.IH)
      (auto intro: defs)
  then obtain N where N: "level_ok ?e reachable names steps st1 st2 N" by blast
  have "ran (bt_get names0) \<subseteq> {t}" using name_sources [OF sources] by (simp add: ran_def)
  moreover have "ran (bt_get names) \<subseteq> ran (bt_get names0) \<union> level_names ?e reachable names steps"
  proof
    fix m
    assume "m \<in> ran (bt_get names)"
    then obtain x where x: "bt_get names x = Some m" by (auto simp: ran_def)
    have "x \<in> step_id ` set steps \<and> \<not> skipped ?e reachable x \<or> bt_get names x = bt_get names0 x"
      using named unfolding named_steps_def by blast
    with x show "m \<in> ran (bt_get names0) \<union> level_names ?e reachable names steps"
      by (auto simp: level_names_def intro: ranI)
  qed
  ultimately have ran: "ran (bt_get names) \<subseteq> insert t (step_id ` set N)"
    using N unfolding level_ok_def by blast
  have next_ids: "ex_next_id st \<le> n" "n \<le> ex_next_id st2"
    using named N by (simp_all add: named_steps_def level_ok_def st1)
  then have "linked_name ` {ex_next_id st <.. n} \<subseteq> linked_name ` {ex_next_id st <.. ex_next_id st2}"
      "linked_name ` {n <.. ex_next_id st2} \<subseteq> linked_name ` {ex_next_id st <.. ex_next_id st2}"
    by auto
  moreover have "step_id ` set N \<subseteq> level_names ?e reachable names steps \<union> linked_name ` {n <.. ex_next_id st2}"
    using N by (simp add: level_ok_def st1)
  ultimately have "step_id ` set N \<subseteq> linked_name ` {ex_next_id st <.. ex_next_id st2}"
    using level by (meson Un_least order_trans)
  moreover have "\<forall>s \<in> set N. step_kind s \<noteq> ''pipeline'' \<and> set (step_inputs s) \<subseteq> insert t (step_id ` set N)"
    using N ran unfolding level_ok_def by (meson Un_least order_refl order_trans subset_insertI)
  ultimately have "linked_ok t st st' N"
    using N next_ids by (simp add: linked_ok_def level_ok_def st1 st')
  then show ?case ..
qed simp

text \<open>
  The reserved prefix is refused on the block identifier, which for a source with a \<open>step\<close>
  field is that field.
\<close>

lemma references_node_ids:
  assumes "references doc = Inr refs" "get_array doc ''sources'' = Some sources"
    "get_array doc ''pipeline'' = Some steps" "n \<in> set (sources @ steps)"
  shows "\<exists>x. node_id n = Some x \<and> \<not> starts_with ''__linked_'' x"
proof -
  have "try_fold (check_reference steps) [] (sources @ steps) = Inr refs"
    using assms(1-3) by (simp add: references_def ensure_Inr_iff)
  then show ?thesis using assms(4)
  proof (induction "sources @ steps" arbitrary: rule: list.induct)
    case Nil
    then show ?case by simp
  next
    case (Cons x xs)
    have "\<exists>rs rs'. check_reference steps rs n = Inr rs'"
      if "try_fold (check_reference steps) rs0 nodes = Inr refs" "n \<in> set nodes" for rs0 nodes
      using that by (induction nodes arbitrary: rs0) (auto simp: and_then_Inr_iff)
    with Cons.prems obtain rs rs' where "check_reference steps rs n = Inr rs'" by blast
    then show ?case
      by (auto simp: check_reference_def and_then_Inr_iff option_context_Inr_iff ensure_Inr_iff)
  qed
qed

definition compiled_steps :: "json \<Rightarrow> json list" where
  "compiled_steps doc = (case get_array doc ''pipeline'' of None \<Rightarrow> [] | Some ss \<Rightarrow> ss)"

lemma compile_expansion:
  assumes "compile_with_stats pid rid doc defs = Inr c"
  obtains st where "expansion_append EXPANSION_FUEL defs pid rid doc None empty_expansion = Inr st"
    "compiled_steps (cp_definition c) = ex_steps st" "cp_blocks c = ex_blocks st" "cp_transfers c = ex_transfers st"
    "\<And>k. k \<noteq> ''pipeline'' \<Longrightarrow> json_get (cp_definition c) k = json_get doc k"
  using assms unfolding compile_with_stats_def
  by (auto simp: and_then_Inr_iff option_context_Inr_iff compiled_steps_def get_array_def json_get_def update_conv')

lemma node_id_step: "get_str s ''step'' = Some x \<Longrightarrow> node_id s = Some x"
  by (auto simp: node_id_def get_eq_Some)

lemma root_append:
  assumes "expansion_append (Suc fuel) defs pid rid doc None st = Inr st'" "wf_json doc" "ex_next_id st = 0" "ex_steps st = []"
    and defs: "\<forall>key d. bt_get defs key = Some d \<longrightarrow> wf_json d"
    and doc: "get_array doc ''sources'' = Some sources"
  shows "distinct (map step_id (ex_steps st'))" "\<forall>s \<in> set (ex_steps st'). step_kind s \<noteq> ''pipeline''"
    "\<forall>s \<in> set (ex_steps st'). set (step_inputs s) \<subseteq> source_id ` set sources \<union> step_id ` set (ex_steps st')"
    "\<forall>x \<in> step_id ` set (ex_steps st'). x \<notin> source_id ` set sources \<or> (\<exists>n. x = linked_name n)"
    "\<exists>steps. get_array doc ''pipeline'' = Some steps \<and> step_id ` set steps \<subseteq> step_id ` set (ex_steps st')"
proof -
  from assms(1) obtain refs :: "pipeline_reference list" and order srcs steps reachable names0 n names st1 st2 where
      valid: "validate_pipeline_structure doc = Inr order"
      "get_array doc ''sources'' = Some srcs" "get_array doc ''pipeline'' = Some steps"
    and refs: "references doc = Inr refs"
    and sources: "try_fold (name_source None) [] srcs = Inr names0"
    and naming: "try_fold (name_step None reachable) (ex_next_id st, names0) steps = Inr (n, names)"
    and st1: "st1 = st\<lparr>ex_active := pid # ex_active st, ex_transfers := ex_transfers st + length refs,
       ex_blocks := ex_blocks st + (length srcs + length steps), ex_next_id := n\<rparr>"
    and loop: "try_fold (expand_step (expansion_append fuel defs) defs pid rid None reachable names) st1 steps = Inr st2"
    and st': "st' = st2\<lparr>ex_active := filter (\<lambda>x. x \<noteq> pid) (ex_active st2)\<rparr>"
    by (elim compositionE) blast
  have srcs: "srcs = sources" using doc valid(2) by simp
  have nodes: "distinct (pipeline_nodes sources steps)" using structure_distinct [OF valid] srcs by simp
  then have dist: "distinct (map step_id steps)" by (simp add: pipeline_nodes_def)
  note named = name_steps_root [OF naming]
  have level: "level_names None reachable names steps = step_id ` set steps"
    using named by (auto simp: level_names_def skipped_def)
  have read: "\<forall>s \<in> set steps. get_str s ''step'' = Some (step_id s)"
    using valid unfolding validate_pipeline_structure_def validate_pipeline_internal_Inr
    by (auto simp: pipeline_ok_def step_readable_def step_id_def split: option.splits)
  have user: "\<not> starts_with ''__linked_'' (step_id s)" if "s \<in> set steps" for s
    using references_node_ids [OF refs valid(2,3), of s] node_id_step read that by auto
  then have "step_id ` set steps \<inter> linked_name ` {n <..} = {}"
    using linked_name_starts by fastforce
  then have "fresh_names names None reachable steps (ex_next_id st1)"
    using named by (simp add: fresh_names_def level st1)
  then have "\<exists>N. level_ok None reachable names steps st1 st2 N"
    by (rule expand_level [OF loop wf_get_array [OF assms(2) valid(3)] dist], intro linked_append)
      (use defs in auto)
  then obtain N where N: "level_ok None reachable names steps st1 st2 N" by blast
  have N_eq: "ex_steps st' = N" using N assms(4) by (simp add: level_ok_def st' st1)
  have sub: "step_id ` set steps \<subseteq> step_id ` set N" using N by (simp add: level_ok_def level)
  have "ran (bt_get names) \<subseteq> source_id ` set sources \<union> step_id ` set steps"
  proof
    fix m
    assume "m \<in> ran (bt_get names)"
    then obtain x where x: "bt_get names x = Some m" by (auto simp: ran_def)
    have "ran (bt_get names0) \<subseteq> source_id ` set sources" using name_sources [OF sources] srcs by (simp add: ran_def)
    then show "m \<in> source_id ` set sources \<union> step_id ` set steps"
      using x named by (cases "x \<in> step_id ` set steps") (auto intro: ranI)
  qed
  from order_trans [OF this Un_mono [OF order_refl sub]]
  have "ran (bt_get names) \<union> step_id ` set N \<subseteq> source_id ` set sources \<union> step_id ` set N"
    by (rule Un_least) (rule Un_upper2)
  moreover have "\<forall>s \<in> set N. set (step_inputs s) \<subseteq> ran (bt_get names) \<union> step_id ` set N"
    using N by (simp add: level_ok_def)
  ultimately show "\<forall>s \<in> set (ex_steps st'). set (step_inputs s) \<subseteq> source_id ` set sources \<union> step_id ` set (ex_steps st')"
    unfolding N_eq by (meson order_trans)
  show "distinct (map step_id (ex_steps st'))" "\<forall>s \<in> set (ex_steps st'). step_kind s \<noteq> ''pipeline''"
    using N unfolding N_eq by (simp_all add: level_ok_def)
  have "source_id ` set sources \<inter> step_id ` set steps = {}" using nodes by (auto simp: pipeline_nodes_def)
  moreover have "step_id ` set N \<subseteq> step_id ` set steps \<union> linked_name ` {n <.. ex_next_id st2}"
    using N by (simp add: level_ok_def level st1)
  ultimately show "\<forall>x \<in> step_id ` set (ex_steps st'). x \<notin> source_id ` set sources \<or> (\<exists>n. x = linked_name n)"
    unfolding N_eq by blast
  show "\<exists>steps. get_array doc ''pipeline'' = Some steps \<and> step_id ` set steps \<subseteq> step_id ` set (ex_steps st')"
    using valid(3) sub unfolding N_eq by blast
qed

text \<open>The expansion of a linked pipeline on a concrete pair of pipelines.\<close>

definition example_definitions :: definitions where
  "example_definitions = [((''child'', PINNED), example_pipeline)]"

lemma example_compiles:
  obtains out where "compile ''parent'' ''head'' linking_pipeline example_definitions = Inr out"
    "length (compiled_steps out) = 2"
proof -
  have "case compile ''parent'' ''head'' linking_pipeline example_definitions of
    Inl _ \<Rightarrow> False | Inr out \<Rightarrow> length (compiled_steps out) = 2" by code_simp
  then show thesis using that by (auto split: sum.splits)
qed

lemma wf_example_definitions: "\<forall>key d. bt_get example_definitions key = Some d \<longrightarrow> wf_json d"
proof -
  have "wf_json example_pipeline" by code_simp
  then show ?thesis by (auto simp: example_definitions_def bt_get_def split: if_splits)
qed

text \<open>
  C8. A compiled composition is flat and closed: its steps have different names, none of them is a
  transfer any more, every input is a source of the parent or a compiled step, every step of the
  parent is kept, and the root fields other than \<open>pipeline\<close> are the parent's.
\<close>

lemma compile_flat:
  assumes "compile pid rid doc defs = Inr out" "wf_json doc" "\<forall>key d. bt_get defs key = Some d \<longrightarrow> wf_json d"
  shows "\<exists>sources steps. get_array doc ''sources'' = Some sources \<and> get_array doc ''pipeline'' = Some steps \<and>
    distinct (map step_id (compiled_steps out)) \<and>
    (\<forall>s \<in> set (compiled_steps out). step_kind s \<noteq> ''pipeline'' \<and>
       set (step_inputs s) \<subseteq> source_id ` set sources \<union> step_id ` set (compiled_steps out)) \<and>
    step_id ` set steps \<subseteq> step_id ` set (compiled_steps out) \<and>
    (\<forall>k. k \<noteq> ''pipeline'' \<longrightarrow> json_get out k = json_get doc k)"
proof -
  obtain c where c: "compile_with_stats pid rid doc defs = Inr c" "out = cp_definition c"
    using assms(1) by (auto simp: compile_def and_then_Inr_iff)
  from compile_expansion [OF c(1)] obtain st where
    st: "expansion_append (Suc 3) defs pid rid doc None empty_expansion = Inr st" "compiled_steps out = ex_steps st"
    and fields: "\<And>k. k \<noteq> ''pipeline'' \<Longrightarrow> json_get out k = json_get doc k"
    by (auto simp: c(2) EXPANSION_FUEL_def eval_nat_numeral)
  obtain sources where sources: "get_array doc ''sources'' = Some sources" using st(1) by (elim compositionE) blast
  have start: "ex_next_id empty_expansion = 0" "ex_steps empty_expansion = []" by (simp_all add: empty_expansion_def)
  note flat = root_append [OF st(1) assms(2) start assms(3) sources]
  from flat(5) obtain steps where "get_array doc ''pipeline'' = Some steps" "step_id ` set steps \<subseteq> step_id ` set (ex_steps st)"
    by blast
  then show ?thesis unfolding st(2) using flat(1-3) sources fields by blast
qed

lemma compile_flat_witness:
  "\<exists>out. compile ''parent'' ''head'' linking_pipeline example_definitions = Inr out \<and>
    length (compiled_steps out) = 2 \<and> distinct (map step_id (compiled_steps out))"
proof (rule example_compiles)
  fix out
  assume out: "compile ''parent'' ''head'' linking_pipeline example_definitions = Inr out" "length (compiled_steps out) = 2"
  have "wf_json linking_pipeline" by code_simp
  from compile_flat [OF out(1) this wf_example_definitions] out show ?thesis by blast
qed



text \<open>
  C39. The bound on the recursion is never reached: more fuel than \<open>EXPANSION_FUEL\<close> gives the same
  expansion, success or error, because every level of the recursion consumes a transfer.
\<close>

lemma compile_fuel:
  "expansion_append (EXPANSION_FUEL + k) defs pid rid doc None empty_expansion =
     expansion_append EXPANSION_FUEL defs pid rid doc None empty_expansion"
  by (rule append_fuel) (simp_all add: EXPANSION_FUEL_def MAX_TRANSFERS_def empty_expansion_def)

end
