(* ===== verification/Revision_Store.thy ===== *)
theory Revision_Store
  imports State_Codec Effects Composition "HOL-Library.Product_Lexorder"
begin

text \<open>
  The storage boundary of the Registry (trait \<open>RevisionStore\<close> in \<open>platform/registry/src/storage.rs\<close>).
  The locale \<open>revision_store\<close> states what the trait promises: an immutable history of commits per
  tenant that only grows, pinned reads that return what was committed, and commits whose parent is
  the head the caller expected. It leaves room for other writers between two calls. The locale
  \<open>durable_store\<close> adds that what was committed can always be read.
\<close>

section \<open>The store\<close>

record snapshot =
  sn_revision_id :: string
  sn_state :: tenant_state

record tenant_snapshot =
  tn_revision_id :: string

text \<open>
  The store's five operations, with what the service takes from its libraries: the clock
  (\<open>Utc::now\<close>), the JSON printer (\<open>serde_json::to_vec\<close>) and the SHA-256 digest in hexadecimal.
\<close>

record 's platform =
  rs_tenant_exists :: "string \<Rightarrow> ('s, bool) io"
  rs_ensure_tenant :: "string \<Rightarrow> ('s, tenant_snapshot) io"
  rs_delete_tenant :: "string \<Rightarrow> ('s, unit) io"
  rs_load :: "string \<Rightarrow> string option \<Rightarrow> ('s, snapshot) io"
  rs_commit :: "string \<Rightarrow> string \<Rightarrow> tenant_state \<Rightarrow> string \<Rightarrow> string \<Rightarrow> ('s, string) io"
  pl_now :: "'s \<Rightarrow> int"
  pl_to_vec :: "json \<Rightarrow> string"
  pl_sha256_hex :: "string \<Rightarrow> string"

definition now :: "'s platform \<Rightarrow> ('s, int) io" where
  "now pf s = (Inr (pl_now pf s), s)"

lemma now_Inr [io_simps]: "now pf s = (Inr t, s') \<longleftrightarrow> t = pl_now pf s \<and> s' = s"
  by (auto simp: now_def)

section \<open>The contract\<close>

type_synonym commits = "string \<Rightarrow> string \<Rightarrow> (string \<times> tenant_state) option"

definition state_at :: "commits \<Rightarrow> string \<Rightarrow> string \<Rightarrow> tenant_state" where
  "state_at cs t r = (case cs t r of None \<Rightarrow> default_tenant_state | Some (_, st) \<Rightarrow> st)"

definition extends :: "('s \<Rightarrow> commits) \<Rightarrow> 's \<Rightarrow> 's \<Rightarrow> bool" where
  "extends commits_of s s' \<longleftrightarrow> (\<forall>t. commits_of s t \<subseteq>\<^sub>m commits_of s' t)"

lemma extends_refl [simp]: "extends c s s"
  by (simp add: extends_def)

lemma extends_trans: "extends c s t \<Longrightarrow> extends c t u \<Longrightarrow> extends c s u"
  by (meson extends_def map_le_trans)

lemma extends_commit: "extends c s s' \<Longrightarrow> c s t r = Some x \<Longrightarrow> c s' t r = Some x"
  by (auto simp: extends_def map_le_def) (metis domI)

locale revision_reader =
  fixes pf :: "'s platform"
    and valid :: "'s \<Rightarrow> bool"
    and commits_of :: "'s \<Rightarrow> commits"
  assumes exists_keeps: "keeps valid (extends commits_of) (rs_tenant_exists pf t)"
    and ensure_keeps: "keeps valid (extends commits_of) (rs_ensure_tenant pf t)"
    and load_keeps: "keeps valid (extends commits_of) (rs_load pf t pin)"
begin

lemma keeps_io [intro]:
  "keeps valid (extends commits_of) (lift_io x)"
  "keeps valid (extends commits_of) k \<Longrightarrow> keeps valid (extends commits_of) (io_ensure c msg k)"
  "keeps valid (extends commits_of) m \<Longrightarrow> (\<And>x. keeps valid (extends commits_of) (f x)) \<Longrightarrow>
    keeps valid (extends commits_of) (io_then m f)"
  by (rule keeps_lift keeps_ensure keeps_then; auto intro: extends_trans)+

lemma keeps_now [intro]: "keeps valid (extends commits_of) (now pf)"
  by (simp add: keeps_def now_def)

lemma load_extends:
  "valid s \<Longrightarrow> rs_load pf t pin s = (res, s') \<Longrightarrow> valid s' \<and> extends commits_of s s'"
  by (rule keepsD [OF load_keeps])

lemma ensure_extends:
  "valid s \<Longrightarrow> rs_ensure_tenant pf t s = (res, s') \<Longrightarrow> valid s' \<and> extends commits_of s s'"
  by (rule keepsD [OF ensure_keeps])

end

locale revision_store = revision_reader +
  assumes commit_keeps: "wf_tenant_state st \<Longrightarrow> keeps valid (extends commits_of) (rs_commit pf t e st a m)"
    and load_state:
    "\<lbrakk>valid s; rs_load pf t pin s = (Inr sn, s')\<rbrakk> \<Longrightarrow>
      sn_state sn = state_at (commits_of s') t (sn_revision_id sn) \<and> wf_tenant_state (sn_state sn) \<and>
      (\<forall>x. pin = Some x \<longrightarrow> sn_revision_id sn = x)"
    and commit_records:
    "\<lbrakk>valid s; wf_tenant_state st; rs_commit pf t e st a m s = (Inr r, s')\<rbrakk> \<Longrightarrow>
      commits_of s t r = None \<and> commits_of s' t r = Some (e, st)"
    and clock: "i64 (pl_now pf s)"
begin

lemma commit_extends:
  "valid s \<Longrightarrow> wf_tenant_state st \<Longrightarrow> rs_commit pf t e st a m s = (res, s') \<Longrightarrow> valid s' \<and> extends commits_of s s'"
  by (rule keepsD [OF commit_keeps])

end

text \<open>
  A durable store answers every read of what it has committed. A remote store may be down, or hold an
  artifact that it cannot parse, so this is a contract of its own.
\<close>

locale durable_store = revision_store +
  assumes load_committed:
    "\<lbrakk>valid s; commits_of s t r = Some (e, st); valid_revision r\<rbrakk> \<Longrightarrow>
      \<exists>s'. rs_load pf t (Some r) s = (Inr \<lparr>sn_revision_id = r, sn_state = st\<rparr>, s')"
begin

text \<open>A pinned read that returned a state with content returns it forever.\<close>

lemma pinned_forever:
  assumes "valid s" "rs_load pf t (Some r) s = (Inr sn, s')" "sn_state sn \<noteq> default_tenant_state"
    and "valid u" "extends commits_of s' u" "valid_revision r"
  shows "\<exists>u'. rs_load pf t (Some r) u = (Inr sn, u') \<and> valid u' \<and> extends commits_of s' u'"
proof -
  have sn: "sn_state sn = state_at (commits_of s') t r" "sn_revision_id sn = r"
    using load_state [OF assms(1,2)] by simp_all
  then obtain e where "commits_of s' t r = Some (e, sn_state sn)"
    using assms(3) by (auto simp: state_at_def split: option.splits)
  then have "commits_of u t r = Some (e, sn_state sn)" by (rule extends_commit [OF assms(5)])
  from load_committed [OF assms(4) this assms(6)] obtain u' where
    "rs_load pf t (Some r) u = (Inr \<lparr>sn_revision_id = r, sn_state = sn_state sn\<rparr>, u')" by blast
  moreover have "\<lparr>sn_revision_id = r, sn_state = sn_state sn\<rparr> = sn" using sn(2) by simp
  ultimately show ?thesis using load_extends [OF assms(4)] extends_trans assms(5) by metis
qed

end

end
