(* ===== verification/Worklist.thy ===== *)
theory Worklist
  imports Prelude
begin

text \<open>
  The worklist loops of the Registry (\<open>ancestors\<close> and the dependency closure of
  \<open>slice_ontology\<close>): pop an element, and push every successor that was not seen before.
  The locale \<open>worklist\<close> states one iteration of such a loop; its lemma \<open>returns_reachable\<close>
  shows that what the loop returns is exactly what is reachable.
\<close>

text \<open>The inner loop: insert into the set of seen elements, push what is new.\<close>

fun push_new :: "'a list \<Rightarrow> 'a list \<Rightarrow> 'a list \<Rightarrow> 'a list \<times> 'a list" where
  "push_new [] seen pending = (seen, pending)"
| "push_new (x # xs) seen pending =
     (if x \<in> set seen then push_new xs seen pending
      else push_new xs (x # seen) (x # pending))"

lemma push_new_sets:
  "push_new xs seen pending = (seen', pending') \<Longrightarrow>
    set seen' = set seen \<union> set xs \<and> set pending' = set pending \<union> (set xs - set seen)"
  by (induction xs seen pending rule: push_new.induct) (auto split: if_splits)

lemma push_new_nothing:
  "push_new xs seen pending = (seen', pending') \<Longrightarrow> set xs \<subseteq> set seen \<Longrightarrow>
    seen' = seen \<and> pending' = pending"
  by (induction xs seen pending rule: push_new.induct) (auto split: if_splits)

text \<open>
  Either nothing was pushed, or fewer elements of the finite universe remain unseen: the
  lexicographic order in which every worklist loop decreases.
\<close>

lemma push_new_decreases:
  assumes "push_new xs seen pending = (seen', pending')" "finite U" "set xs \<subseteq> U"
  shows "card (U - set seen') < card (U - set seen) \<or>
    card (U - set seen') = card (U - set seen) \<and> length pending' < Suc (length pending)"
proof (cases "set xs \<subseteq> set seen")
  case True
  then show ?thesis using push_new_nothing [OF assms(1)] by simp
next
  case False
  then have "U - set seen' \<subset> U - set seen" using push_new_sets [OF assms(1)] assms(3) by auto
  then show ?thesis using assms(2) by (simp add: psubset_card_mono)
qed

locale worklist =
  fixes succs :: "'a \<Rightarrow> 'a list"
    and returns :: "'a list \<Rightarrow> 'a list \<Rightarrow> 'a list \<Rightarrow> bool"
    and U :: "'a set"
  assumes finite_universe: "finite U"
    and succs_universe: "set (succs x) \<subseteq> U"
    and returns_Nil: "returns seen [] out \<Longrightarrow> out = seen"
    and returns_Cons: "returns seen (x # pending) out \<Longrightarrow>
      push_new (succs x) seen pending = (seen', pending') \<Longrightarrow> returns seen' pending' out"
begin

definition edge :: "('a \<times> 'a) set" where
  "edge = {(x, y). y \<in> set (succs x)}"

lemma edgeI: "y \<in> set (succs x) \<Longrightarrow> (x, y) \<in> edge"
  by (simp add: edge_def)

text \<open>
  Elements whose successors are all seen are done; the loop ends when every element of
  interest, \<open>S\<close>, is done.
\<close>

lemma returns_closed:
  assumes "returns seen pending out"
    and "set pending \<subseteq> S \<union> set seen"
    and "\<forall>x \<in> (S \<union> set seen) - set pending. set (succs x) \<subseteq> set seen"
  shows "set seen \<subseteq> set out \<and> (\<forall>x \<in> S \<union> set out. set (succs x) \<subseteq> set out) \<and>
    set out \<subseteq> set seen \<union> edge\<^sup>+ `` (S \<union> set seen)"
  using assms
proof (induction "(card (U - set seen), length pending)" arbitrary: seen pending
    rule: wf_induct_rule [OF wf_lex_prod [OF wf_less_than wf_less_than]])
  case 1
  show ?case
  proof (cases pending)
    case Nil
    with 1 show ?thesis using returns_Nil by fastforce
  next
    case (Cons x rest)
    obtain seen' pending' where p: "push_new (succs x) seen rest = (seen', pending')"
      by (cases "push_new (succs x) seen rest")
    note sets = push_new_sets [OF p]
    have less: "((card (U - set seen'), length pending'), (card (U - set seen), length pending))
        \<in> less_than <*lex*> less_than"
      using push_new_decreases [OF p finite_universe succs_universe] Cons by auto
    have ret: "returns seen' pending' out" using 1(2) Cons p returns_Cons by simp
    have "set pending' \<subseteq> S \<union> set seen'" using 1(3) Cons sets by auto
    moreover have "\<forall>y \<in> (S \<union> set seen') - set pending'. set (succs y) \<subseteq> set seen'"
    proof
      fix y
      assume y: "y \<in> (S \<union> set seen') - set pending'"
      show "set (succs y) \<subseteq> set seen'"
      proof (cases "y = x")
        case True
        then show ?thesis using sets by simp
      next
        case False
        with y sets Cons have "y \<in> (S \<union> set seen) - set pending" by auto
        then show ?thesis using 1(4) sets by auto
      qed
    qed
    ultimately have IH: "set seen' \<subseteq> set out" "\<forall>y \<in> S \<union> set out. set (succs y) \<subseteq> set out"
        "set out \<subseteq> set seen' \<union> edge\<^sup>+ `` (S \<union> set seen')"
      using 1(1) [OF less ret] by auto
    have x: "x \<in> S \<union> set seen" using 1(3) Cons by auto
    have new: "set (succs x) \<subseteq> edge\<^sup>+ `` (S \<union> set seen)"
      using x by (auto dest: edgeI)
    have "edge\<^sup>+ `` (S \<union> set seen') \<subseteq> edge\<^sup>+ `` (S \<union> set seen)"
    proof -
      have "edge\<^sup>+ `` set (succs x) \<subseteq> edge\<^sup>+ `` (edge\<^sup>+ `` (S \<union> set seen))"
        using new by (rule Image_mono [OF subset_refl])
      also have "\<dots> \<subseteq> edge\<^sup>+ `` (S \<union> set seen)" by (auto intro: trancl_trans)
      finally show ?thesis using sets by (auto simp: Image_Un)
    qed
    moreover have "set seen' \<subseteq> set seen \<union> edge\<^sup>+ `` (S \<union> set seen)" using sets new by auto
    ultimately have "set out \<subseteq> set seen \<union> edge\<^sup>+ `` (S \<union> set seen)"
      using IH(3) by (meson Un_least order_trans sup_ge2)
    then show ?thesis using IH(1,2) sets by simp
  qed
qed

text \<open>Started on the elements \<open>S\<close>, the loop returns what it had seen and all that \<open>S\<close> reaches.\<close>

lemma returns_reachable:
  assumes "returns seen pending out" "set pending = S" "set seen \<subseteq> S"
  shows "set out = set seen \<union> edge\<^sup>+ `` S"
proof -
  have "set seen \<subseteq> set out \<and> (\<forall>x \<in> S \<union> set out. set (succs x) \<subseteq> set out) \<and>
      set out \<subseteq> set seen \<union> edge\<^sup>+ `` (S \<union> set seen)"
    by (rule returns_closed [OF assms(1)]) (use assms in auto)
  then have out: "set seen \<subseteq> set out" "\<forall>x \<in> S \<union> set out. set (succs x) \<subseteq> set out"
      "set out \<subseteq> set seen \<union> edge\<^sup>+ `` S"
    using assms(3) by (simp_all add: Un_absorb2)
  have "y \<in> set out" if "(x, y) \<in> edge\<^sup>+" "x \<in> S" for x y
    using that out(2) by (induction rule: trancl_induct) (auto simp: edge_def)
  then show ?thesis using out by auto
qed

end

end
