(* ===== verification/Ontology_Graph.thy ===== *)
theory Ontology_Graph
  imports Ontology_Resource Worklist
begin

text \<open>
  Graph algorithms over the resources of an ontology (\<open>find_cycle\<close>, \<open>ancestors\<close> in
  \<open>platform/registry/src/semantics.rs\<close>): an iterative depth-first search with three colours
  (absent, 1 on the stack, 2 finished), and a worklist over inheritance edges. The search is
  proved to report a cycle exactly when the relation has one, the worklist to return exactly
  the transitive parents.
\<close>

type_synonym resource_index = "(string, resource) btree_map"

section \<open>Definitions\<close>

definition edge_at :: "bool \<Rightarrow> resource_index \<Rightarrow> string \<Rightarrow> nat \<Rightarrow> string option" where
  "edge_at owner_edges by_id current edge_index =
     Option.bind (bt_get by_id current) (\<lambda>r.
       if owner_edges then (if edge_index = 0 then r_owner r else None)
       else if edge_index < length (r_parents r) then Some (r_parents r ! edge_index) else None)"

definition edges_of :: "bool \<Rightarrow> resource \<Rightarrow> string list" where
  "edges_of owner_edges r =
     (if owner_edges then (case r_owner r of None \<Rightarrow> [] | Some x \<Rightarrow> [x]) else r_parents r)"

definition targets :: "bool \<Rightarrow> resource_index \<Rightarrow> string set" where
  "targets owner_edges by_id = (\<Union>r \<in> snd ` set by_id. set (edges_of owner_edges r))"

definition degree :: "bool \<Rightarrow> resource_index \<Rightarrow> string \<Rightarrow> nat" where
  "degree owner_edges by_id x =
     (case bt_get by_id x of None \<Rightarrow> 0 | Some r \<Rightarrow> length (edges_of owner_edges r))"

lemma edge_at_nth:
  "edge_at oe by_id x i = (if i < degree oe by_id x
     then Some (edges_of oe (the (bt_get by_id x)) ! i) else None)"
  by (cases "bt_get by_id x")
    (auto simp: edge_at_def degree_def edges_of_def split: option.splits)

lemma finite_targets [simp]: "finite (targets oe by_id)"
  by (simp add: targets_def)

lemma bt_get_in_values: "bt_get by_id x = Some r \<Longrightarrow> r \<in> snd ` set by_id"
  by (force simp: bt_get_def dest: map_of_SomeD)

lemma edge_at_Some:
  assumes "edge_at oe by_id x i = Some y"
  obtains r where "bt_get by_id x = Some r" "y \<in> set (edges_of oe r)"
  using assms by (cases "bt_get by_id x") (auto simp: edge_at_nth degree_def split: if_splits)

lemma edge_at_targets: "edge_at oe by_id x i = Some y \<Longrightarrow> y \<in> targets oe by_id"
  by (erule edge_at_Some) (auto simp: targets_def dest: bt_get_in_values)

definition unvisited :: "bool \<Rightarrow> resource_index \<Rightarrow> (string \<rightharpoonup> nat) \<Rightarrow> string set" where
  "unvisited oe by_id state = {x \<in> targets oe by_id. state x \<noteq> Some 1 \<and> state x \<noteq> Some 2}"

definition edges_left :: "bool \<Rightarrow> resource_index \<Rightarrow> (string \<times> nat) list \<Rightarrow> nat" where
  "edges_left oe by_id pending = sum_list (map (\<lambda>(x, i). Suc (degree oe by_id x - i)) pending)"

lemma card_unvisited_mono:
  "(\<And>x. state x = Some 1 \<or> state x = Some 2 \<Longrightarrow> state' x = Some 1 \<or> state' x = Some 2) \<Longrightarrow>
    card (unvisited oe by_id state') \<le> card (unvisited oe by_id state)"
  by (rule card_mono) (auto simp: unvisited_def)

lemma card_unvisited_less:
  "y \<in> targets oe by_id \<Longrightarrow> state y \<noteq> Some 1 \<Longrightarrow> state y \<noteq> Some 2 \<Longrightarrow>
    card (unvisited oe by_id (state(y \<mapsto> 1))) < card (unvisited oe by_id state)"
  by (rule psubset_card_mono) (auto simp: unvisited_def)

function cycle_loop ::
  "bool \<Rightarrow> resource_index \<Rightarrow> (string \<rightharpoonup> nat) \<Rightarrow> (string \<times> nat) list \<Rightarrow> string option \<times> (string \<rightharpoonup> nat)"
where
  "cycle_loop owner_edges by_id state [] = (None, state)"
| "cycle_loop owner_edges by_id state ((current, edge_index) # pending) =
     (case edge_at owner_edges by_id current edge_index of
        None \<Rightarrow> cycle_loop owner_edges by_id (state(current \<mapsto> 2)) pending
      | Some next_id \<Rightarrow>
          if state next_id = Some 1 then (Some next_id, state)
          else if state next_id = Some 2
          then cycle_loop owner_edges by_id state ((current, Suc edge_index) # pending)
          else cycle_loop owner_edges by_id (state(next_id \<mapsto> 1))
                 ((next_id, 0) # (current, Suc edge_index) # pending))"
  by pat_completeness auto
termination
proof (relation "measures [\<lambda>(oe, by_id, state, pending). card (unvisited oe by_id state),
    \<lambda>(oe, by_id, state, pending). edges_left oe by_id pending]", goal_cases)
  case 1
  show ?case by simp
next
  case (2 oe by_id state x i pending)
  have "card (unvisited oe by_id (state(x \<mapsto> 2))) \<le> card (unvisited oe by_id state)"
    by (rule card_unvisited_mono) simp
  then show ?case by (auto simp: edges_left_def)
next
  case (3 oe by_id state x i pending y)
  then have "i < degree oe by_id x" by (auto simp: edge_at_nth split: if_splits)
  then show ?case by (simp add: edges_left_def)
next
  case (4 oe by_id state x i pending y)
  then show ?case using card_unvisited_less [OF edge_at_targets] by simp
qed

fun find_cycle_from :: "bool \<Rightarrow> resource_index \<Rightarrow> (string \<rightharpoonup> nat) \<Rightarrow> resource list \<Rightarrow> string option" where
  "find_cycle_from owner_edges by_id state [] = None"
| "find_cycle_from owner_edges by_id state (r # resources) =
     (if state (r_id r) = Some 2 then find_cycle_from owner_edges by_id state resources
      else case cycle_loop owner_edges by_id (state(r_id r \<mapsto> 1)) [(r_id r, 0)] of
        (Some x, _) \<Rightarrow> Some x
      | (None, state') \<Rightarrow> find_cycle_from owner_edges by_id state' resources)"

definition find_cycle :: "resource list \<Rightarrow> resource_index \<Rightarrow> bool \<Rightarrow> string option" where
  "find_cycle resources by_id owner_edges = find_cycle_from owner_edges by_id Map.empty resources"

function ancestors_loop :: "resource_index \<Rightarrow> string list \<Rightarrow> string list \<Rightarrow> string list" where
  "ancestors_loop by_id res [] = res"
| "ancestors_loop by_id res (current # pending) =
     (case bt_get by_id current of
        None \<Rightarrow> ancestors_loop by_id res pending
      | Some r \<Rightarrow>
          (case push_new (r_parents r) res pending of
             (res', pending') \<Rightarrow> ancestors_loop by_id res' pending'))"
  by pat_completeness auto
termination
proof (relation "measures [\<lambda>(by_id, res, pending). card (targets False by_id - set res),
    \<lambda>(by_id, res, pending). length pending]", goal_cases)
  case (3 by_id res current pending r res' pending')
  have sub: "set (r_parents r) \<subseteq> targets False by_id"
    using 3(1) by (auto simp: targets_def edges_of_def dest!: bt_get_in_values)
  have p: "push_new (r_parents r) res pending = (res', pending')" using 3 by simp
  show ?case using push_new_decreases [OF p finite_targets sub] by (auto simp: p)
qed simp_all

definition ancestors :: "string \<Rightarrow> resource_index \<Rightarrow> string list" where
  "ancestors x by_id = bs_collect (ancestors_loop by_id [] [x])"

section \<open>The relation searched\<close>

definition edge_rel :: "bool \<Rightarrow> resource_index \<Rightarrow> (string \<times> string) set" where
  "edge_rel oe by_id = {(x, y). \<exists>r. bt_get by_id x = Some r \<and> y \<in> set (edges_of oe r)}"

lemma edge_rel_iff: "(x, y) \<in> edge_rel oe by_id \<longleftrightarrow> (\<exists>i. edge_at oe by_id x i = Some y)"
  by (cases "bt_get by_id x")
    (auto simp: edge_rel_def edge_at_nth degree_def in_set_conv_nth)

lemma edge_at_below: "edge_at oe by_id x i = None \<Longrightarrow> edge_at oe by_id x j = Some y \<Longrightarrow> j < i"
  by (auto simp: edge_at_nth split: if_splits)

section \<open>Correctness of the depth-first search\<close>

text \<open>
  Below the top of the stack, each entry was left along the edge to the entry above it
  (\<open>upper\<close>), and its earlier edges lead to finished nodes.
\<close>

fun below :: "bool \<Rightarrow> resource_index \<Rightarrow> (string \<rightharpoonup> nat) \<Rightarrow> string \<Rightarrow> (string \<times> nat) list \<Rightarrow> bool" where
  "below oe by_id state upper [] = True"
| "below oe by_id state upper ((x, i) # pending) =
     ((x, upper) \<in> edge_rel oe by_id \<and>
      (\<forall>j < i. \<forall>y. edge_at oe by_id x j = Some y \<longrightarrow> state y = Some 2 \<or> y = upper) \<and>
      below oe by_id state x pending)"

definition search_inv :: "bool \<Rightarrow> resource_index \<Rightarrow> (string \<rightharpoonup> nat) \<Rightarrow> (string \<times> nat) list \<Rightarrow> bool" where
  "search_inv oe by_id state pending \<longleftrightarrow>
     (\<forall>x. state x = Some 1 \<longleftrightarrow> x \<in> fst ` set pending) \<and>
     (\<forall>x. state x \<in> {None, Some 1, Some 2}) \<and>
     distinct (map fst pending) \<and>
     (\<forall>x y. state x = Some 2 \<longrightarrow> (x, y) \<in> edge_rel oe by_id \<longrightarrow> state y = Some 2) \<and>
     (\<forall>x. state x = Some 2 \<longrightarrow> (x, x) \<notin> (edge_rel oe by_id)\<^sup>+) \<and>
     (case pending of
        [] \<Rightarrow> True
      | (x, i) # rest \<Rightarrow>
          (\<forall>j < i. \<forall>y. edge_at oe by_id x j = Some y \<longrightarrow> state y = Some 2) \<and>
          below oe by_id state x rest)"

lemma search_inv_facts:
  assumes "search_inv oe by_id state pending"
  shows "\<And>x. state x = Some 1 \<longleftrightarrow> x \<in> fst ` set pending"
    "\<And>x. state x = None \<or> state x = Some 1 \<or> state x = Some 2"
    "distinct (map fst pending)"
    "\<And>x y. state x = Some 2 \<Longrightarrow> (x, y) \<in> edge_rel oe by_id \<Longrightarrow> state y = Some 2"
    "\<And>x. state x = Some 2 \<Longrightarrow> (x, x) \<notin> (edge_rel oe by_id)\<^sup>+"
  using assms unfolding search_inv_def by blast+

lemma search_inv_top:
  assumes "search_inv oe by_id state ((x, i) # pending)"
  shows "\<And>j y. j < i \<Longrightarrow> edge_at oe by_id x j = Some y \<Longrightarrow> state y = Some 2"
    "below oe by_id state x pending"
  using assms unfolding search_inv_def by auto

lemma search_invI:
  assumes "\<And>x. state x = Some 1 \<longleftrightarrow> x \<in> fst ` set pending"
    "\<And>x. state x = None \<or> state x = Some 1 \<or> state x = Some 2"
    "distinct (map fst pending)"
    "\<And>x y. state x = Some 2 \<Longrightarrow> (x, y) \<in> edge_rel oe by_id \<Longrightarrow> state y = Some 2"
    "\<And>x. state x = Some 2 \<Longrightarrow> (x, x) \<notin> (edge_rel oe by_id)\<^sup>+"
    "\<And>x i rest. pending = (x, i) # rest \<Longrightarrow>
      (\<forall>j < i. \<forall>y. edge_at oe by_id x j = Some y \<longrightarrow> state y = Some 2) \<and> below oe by_id state x rest"
  shows "search_inv oe by_id state pending"
  unfolding search_inv_def
  by (intro conjI allI impI) (use assms in \<open>auto split: list.splits\<close>)

lemma below_mono:
  "below oe by_id state a p \<Longrightarrow> (\<And>y. state y = Some 2 \<Longrightarrow> state' y = Some 2) \<Longrightarrow>
    below oe by_id state' a p"
  by (induction p arbitrary: a) (auto, blast)

text \<open>The stack is a path: every entry reaches the top.\<close>

lemma below_reaches:
  "below oe by_id state a p \<Longrightarrow> x \<in> fst ` set p \<Longrightarrow> (x, a) \<in> (edge_rel oe by_id)\<^sup>+"
proof (induction p arbitrary: a)
  case (Cons e p)
  obtain y i where e: "e = (y, i)" by (cases e)
  then have y: "(y, a) \<in> edge_rel oe by_id" "below oe by_id state y p" using Cons.prems(1) by auto
  show ?case
  proof (cases "x = y")
    case False
    with Cons.prems(2) e have "x \<in> fst ` set p" by auto
    with Cons.IH y(2) have "(x, y) \<in> (edge_rel oe by_id)\<^sup>+" by blast
    then show ?thesis using y(1) by (rule trancl_into_trancl)
  qed (use y in auto)
qed simp

lemma finished_closed:
  assumes "\<And>x y. state x = Some (2::nat) \<Longrightarrow> (x, y) \<in> E \<Longrightarrow> state y = Some 2" "(x, y) \<in> E\<^sup>+" "state x = Some 2"
  shows "state y = Some 2"
  using assms(2,3) by (induction rule: trancl_induct) (auto intro: assms(1))

lemma search_inv_finish:
  assumes inv: "search_inv oe by_id state ((x, i) # pending)" and edge: "edge_at oe by_id x i = None"
  shows "search_inv oe by_id (state(x \<mapsto> 2)) pending"
proof -
  let ?E = "edge_rel oe by_id" and ?state = "state(x \<mapsto> (2::nat))"
  have x: "state x = Some 1" using search_inv_facts(1) [OF inv] by simp
  have out: "state y = Some 2" if "(x, y) \<in> ?E" for y
  proof -
    obtain j where j: "edge_at oe by_id x j = Some y" using \<open>(x, y) \<in> ?E\<close> edge_rel_iff by blast
    have "\<forall>j < i. \<forall>y. edge_at oe by_id x j = Some y \<longrightarrow> state y = Some 2"
      using inv by (simp add: search_inv_def)
    with j edge_at_below [OF edge j] show ?thesis by blast
  qed
  note closed = search_inv_facts(4) [OF inv]
  have acyc: "(y, y) \<notin> ?E\<^sup>+" if "?state y = Some 2" for y
  proof (cases "y = x")
    case True
    show ?thesis
    proof
      assume "(y, y) \<in> ?E\<^sup>+"
      then obtain z where "(x, z) \<in> ?E" "z = x \<or> (z, x) \<in> ?E\<^sup>+"
        using True by (metis tranclD rtranclD)
      then have "state x = Some 2" using out finished_closed [of state ?E] closed by blast
      with x show False by simp
    qed
  next
    case False
    then show ?thesis using search_inv_facts(5) [OF inv] that by simp
  qed
  show ?thesis
  proof (rule search_invI)
    show "(?state y = Some 1) = (y \<in> fst ` set pending)" for y
      using search_inv_facts(1) [OF inv, of y] search_inv_facts(3) [OF inv] by auto
    show "?state y = None \<or> ?state y = Some 1 \<or> ?state y = Some 2" for y
      using search_inv_facts(2) [OF inv, of y] by auto
    show "distinct (map fst pending)" using search_inv_facts(3) [OF inv] by simp
    show "?state z = Some 2" if "?state y = Some 2" "(y, z) \<in> ?E" for y z
      using that out closed by (auto split: if_splits)
    show "(y, y) \<notin> ?E\<^sup>+" if "?state y = Some 2" for y using that by (rule acyc)
  next
    fix y j rest
    assume p: "pending = (y, j) # rest"
    have "below oe by_id state x pending" using inv by (rule search_inv_top)
    then have b: "\<forall>k < j. \<forall>z. edge_at oe by_id y k = Some z \<longrightarrow> state z = Some 2 \<or> z = x"
        "below oe by_id state y rest"
      using p by auto
    have "below oe by_id ?state y rest" by (rule below_mono [OF b(2)]) simp
    with b(1) show "(\<forall>k < j. \<forall>z. edge_at oe by_id y k = Some z \<longrightarrow> ?state z = Some 2) \<and>
        below oe by_id ?state y rest" by auto
  qed
qed

lemma search_inv_skip:
  assumes "search_inv oe by_id state ((x, i) # pending)" "edge_at oe by_id x i = Some y"
    "state y = Some 2"
  shows "search_inv oe by_id state ((x, Suc i) # pending)"
proof -
  have "\<forall>j < i. \<forall>z. edge_at oe by_id x j = Some z \<longrightarrow> state z = Some 2"
    using assms(1) by (simp add: search_inv_def)
  then have "\<forall>j < Suc i. \<forall>z. edge_at oe by_id x j = Some z \<longrightarrow> state z = Some 2"
    using assms(2,3) by (auto simp: less_Suc_eq)
  then show ?thesis
    using search_inv_facts [OF assms(1)] search_inv_top(2) [OF assms(1)] by (intro search_invI) auto
qed

lemma search_inv_push:
  assumes inv: "search_inv oe by_id state ((x, i) # pending)" and edge: "edge_at oe by_id x i = Some y"
    and y: "state y \<noteq> Some 1" "state y \<noteq> Some 2"
  shows "search_inv oe by_id (state(y \<mapsto> 1)) ((y, 0) # (x, Suc i) # pending)"
proof -
  let ?state = "state(y \<mapsto> (1::nat))"
  have E: "(x, y) \<in> edge_rel oe by_id" using edge edge_rel_iff by blast
  have "state y = None" using search_inv_facts(2) [OF inv, of y] y by auto
  then have black: "?state z = Some 2 \<longleftrightarrow> state z = Some 2" for z by auto
  have "\<forall>j < i. \<forall>z. edge_at oe by_id x j = Some z \<longrightarrow> state z = Some 2"
    using inv by (simp add: search_inv_def)
  then have left: "\<forall>j < Suc i. \<forall>z. edge_at oe by_id x j = Some z \<longrightarrow> ?state z = Some 2 \<or> z = y"
    unfolding black using edge by (auto simp: less_Suc_eq)
  have rest: "below oe by_id ?state x pending"
    by (rule below_mono [OF search_inv_top(2) [OF inv]]) (use black in simp)
  show ?thesis
  proof (rule search_invI)
    show "(?state z = Some 1) = (z \<in> fst ` set ((y, 0) # (x, Suc i) # pending))" for z
      using search_inv_facts(1) [OF inv, of z] by auto
    show "?state z = None \<or> ?state z = Some 1 \<or> ?state z = Some 2" for z
      using search_inv_facts(2) [OF inv, of z] by auto
    show "distinct (map fst ((y, 0) # (x, Suc i) # pending))"
      using search_inv_facts(1) [OF inv, of y] search_inv_facts(3) [OF inv] y(1) by auto
    show "?state w = Some 2" if "?state z = Some 2" "(z, w) \<in> edge_rel oe by_id" for z w
      using that search_inv_facts(4) [OF inv] unfolding black by blast
    show "(z, z) \<notin> (edge_rel oe by_id)\<^sup>+" if "?state z = Some 2" for z
      using that search_inv_facts(5) [OF inv] unfolding black by blast
  qed (use E left rest in auto)
qed

definition loop_ok ::
  "bool \<Rightarrow> resource_index \<Rightarrow> (string \<rightharpoonup> nat) \<Rightarrow> string option \<times> (string \<rightharpoonup> nat) \<Rightarrow> bool" where
  "loop_ok oe by_id state res =
     (case res of
        (Some x, _) \<Rightarrow> (x, x) \<in> (edge_rel oe by_id)\<^sup>+
      | (None, state') \<Rightarrow> search_inv oe by_id state' [] \<and> dom state \<subseteq> dom state')"

lemma loop_ok_weaken:
  "loop_ok oe by_id state' res \<Longrightarrow> dom state \<subseteq> dom state' \<Longrightarrow> loop_ok oe by_id state res"
  by (cases res; cases "fst res") (auto simp: loop_ok_def)

lemma cycle_loop_correct:
  assumes "search_inv oe by_id state pending"
  shows "loop_ok oe by_id state (cycle_loop oe by_id state pending)"
  using assms
proof (induction oe by_id state pending rule: cycle_loop.induct)
  case (1 oe by_id state)
  then show ?case by (simp add: loop_ok_def)
next
  case (2 oe by_id state x i pending)
  show ?case
  proof (cases "edge_at oe by_id x i")
    case None
    from 2(1) [OF None search_inv_finish [OF 2(4) None]]
    have "loop_ok oe by_id state (cycle_loop oe by_id (state(x \<mapsto> 2)) pending)"
      by (rule loop_ok_weaken) auto
    then show ?thesis using None by simp
  next
    case (Some y)
    consider (cycle) "state y = Some 1" | (skip) "state y = Some 2" | (new) "state y \<noteq> Some 1" "state y \<noteq> Some 2"
      by blast
    then show ?thesis
    proof cases
      case cycle
      have "(x, y) \<in> edge_rel oe by_id" using Some edge_rel_iff by blast
      moreover have "y = x \<or> (y, x) \<in> (edge_rel oe by_id)\<^sup>+"
        using 2(4) cycle below_reaches [of oe by_id state x pending y] by (auto simp: search_inv_def)
      ultimately show ?thesis using Some cycle by (auto simp: loop_ok_def intro: trancl_into_trancl)
    next
      case skip
      from 2(2) [OF Some _ skip search_inv_skip [OF 2(4) Some skip]] show ?thesis
        using Some skip by simp
    next
      case new
      from 2(3) [OF Some new search_inv_push [OF 2(4) Some new]]
      have "loop_ok oe by_id state (cycle_loop oe by_id (state(y \<mapsto> 1)) ((y, 0) # (x, Suc i) # pending))"
        by (rule loop_ok_weaken) auto
      then show ?thesis using Some new by simp
    qed
  qed
qed

lemma search_inv_start:
  assumes "search_inv oe by_id state []" "state x \<noteq> Some 2"
  shows "search_inv oe by_id (state(x \<mapsto> 1)) [(x, 0)]"
proof -
  have "state x = None" using assms by (auto simp: search_inv_def)
  with assms(1) show ?thesis by (auto simp: search_inv_def split: if_splits)
qed

lemma find_cycle_from_correct:
  assumes "search_inv oe by_id state []"
  shows "case find_cycle_from oe by_id state rs of
      Some x \<Rightarrow> (x, x) \<in> (edge_rel oe by_id)\<^sup>+
    | None \<Rightarrow> \<forall>r \<in> set rs. (r_id r, r_id r) \<notin> (edge_rel oe by_id)\<^sup>+"
  using assms
proof (induction oe by_id state rs rule: find_cycle_from.induct)
  case (1 oe by_id state)
  then show ?case by simp
next
  case (2 oe by_id state r rs)
  show ?case
  proof (cases "state (r_id r) = Some 2")
    case True
    with 2(1) [OF True 2(3)] 2(3) show ?thesis by (auto simp: search_inv_def split: option.splits)
  next
    case False
    obtain res state' where loop: "cycle_loop oe by_id (state(r_id r \<mapsto> 1)) [(r_id r, 0)] = (res, state')"
      by fastforce
    note correct = cycle_loop_correct [OF search_inv_start [OF 2(3) False], unfolded loop loop_ok_def]
    show ?thesis
    proof (cases res)
      case None
      with correct have inv: "search_inv oe by_id state' []" and "r_id r \<in> dom state'" by auto
      then have "state' (r_id r) = Some 2" using search_inv_facts(1,2) [OF inv, of "r_id r"] by auto
      then have "(r_id r, r_id r) \<notin> (edge_rel oe by_id)\<^sup>+" by (rule search_inv_facts(5) [OF inv])
      with 2(2) [OF False loop [symmetric] None inv] loop None False show ?thesis
        by (auto split: option.splits)
    next
      case (Some x)
      with correct loop False show ?thesis by simp
    qed
  qed
qed

text \<open>
  The search reports a node exactly when the relation has a cycle, provided that every node
  with outgoing edges is among the resources searched.
\<close>

lemma find_cycle_Some: "find_cycle rs by_id oe = Some x \<Longrightarrow> (x, x) \<in> (edge_rel oe by_id)\<^sup>+"
  using find_cycle_from_correct [of oe by_id Map.empty rs] by (simp add: find_cycle_def search_inv_def)

lemma find_cycle_None_iff:
  assumes "\<And>x r. bt_get by_id x = Some r \<Longrightarrow> \<exists>s \<in> set rs. r_id s = x"
  shows "find_cycle rs by_id oe = None \<longleftrightarrow> acyclic (edge_rel oe by_id)"
proof
  assume "find_cycle rs by_id oe = None"
  then have none: "\<forall>r \<in> set rs. (r_id r, r_id r) \<notin> (edge_rel oe by_id)\<^sup>+"
    using find_cycle_from_correct [of oe by_id Map.empty rs] by (simp add: find_cycle_def search_inv_def)
  show "acyclic (edge_rel oe by_id)"
  proof (rule acyclicI, intro allI notI)
    fix x
    assume cyc: "(x, x) \<in> (edge_rel oe by_id)\<^sup>+"
    then obtain y where "(x, y) \<in> edge_rel oe by_id" by (meson tranclD)
    then obtain s where "s \<in> set rs" "r_id s = x" using assms by (auto simp: edge_rel_def)
    with cyc none show False by blast
  qed
next
  assume "acyclic (edge_rel oe by_id)"
  then show "find_cycle rs by_id oe = None"
    using find_cycle_Some [of rs by_id oe] by (cases "find_cycle rs by_id oe") (auto simp: acyclic_def)
qed

section \<open>Correctness of the ancestor worklist\<close>

definition parents_of :: "resource_index \<Rightarrow> string \<Rightarrow> string list" where
  "parents_of by_id x = (case bt_get by_id x of None \<Rightarrow> [] | Some r \<Rightarrow> r_parents r)"

lemma set_parents_of: "y \<in> set (parents_of by_id x) \<longleftrightarrow> (x, y) \<in> edge_rel False by_id"
  by (cases "bt_get by_id x") (auto simp: parents_of_def edge_rel_def edges_of_def)

interpretation ancestors_search: worklist "parents_of by_id"
  "\<lambda>res pending out. ancestors_loop by_id res pending = out" "targets False by_id" for by_id
proof (unfold_locales, goal_cases)
  case (2 x)
  then show ?case using edge_at_targets by (auto simp: set_parents_of edge_rel_iff)
next
  case (4 seen x pending out seen' pending')
  then show ?case by (auto simp: parents_of_def split: option.splits)
qed auto

lemma set_ancestors: "set (ancestors x by_id) = {y. (x, y) \<in> (edge_rel False by_id)\<^sup>+}"
proof -
  have "ancestors_search.edge by_id = edge_rel False by_id"
    by (auto simp: ancestors_search.edge_def set_parents_of)
  then show ?thesis
    using ancestors_search.returns_reachable [of by_id "[]" "[x]" _ "{x}"]
    by (auto simp: ancestors_def)
qed

end
