(* ===== verification/Ontology_Validation.thy ===== *)
theory Ontology_Validation
  imports Ontology_Graph
begin

text \<open>
  The ontology validator (\<open>validate_ontology\<close> and its helpers in
  \<open>platform/registry/src/semantics.rs\<close>). It collects issue strings; the model returns the issues
  that each loop of the code appends, in order. The declarative contract \<open>ontology_ok\<close> says what a
  valid ontology graph is, without index, worklist or colours, and \<open>validate_ontology_iff\<close>
  shows that the validator decides it.
\<close>

section \<open>Definitions\<close>

definition is_type_kind :: "string \<Rightarrow> bool" where
  "is_type_kind kind \<longleftrightarrow> kind = ''object_type'' \<or> kind = ''event_type''"

definition owner_issues :: "resource_index \<Rightarrow> resource \<Rightarrow> string list" where
  "owner_issues by_id r =
     (case r_owner r of
        None \<Rightarrow> []
      | Some owner \<Rightarrow>
          (case bt_get by_id owner of
             None \<Rightarrow> [''dangling_owner:'' @ r_id r @ '':'' @ owner]
           | Some owner_resource \<Rightarrow>
               if \<not> is_type_kind (r_kind owner_resource)
               then [''invalid_owner_kind:'' @ r_id r @ '':'' @ owner] else []))"

definition reference_issues :: "resource_index \<Rightarrow> resource \<Rightarrow> string list" where
  "reference_issues by_id r =
     concat (map (\<lambda>reference.
       if \<not> bt_contains by_id reference
       then [''dangling_reference:'' @ r_id r @ '':'' @ reference] else []) (r_references r))"

definition parent_issues :: "resource_index \<Rightarrow> resource \<Rightarrow> string list" where
  "parent_issues by_id r =
     concat (map (\<lambda>parent.
       case bt_get by_id parent of
         None \<Rightarrow> [''dangling_inheritance:'' @ r_id r @ '':'' @ parent]
       | Some parent_resource \<Rightarrow>
           if \<not> is_type_kind (r_kind parent_resource)
           then [''invalid_inheritance_type:'' @ r_id r @ '':'' @ parent] else []) (r_parents r))"

definition property_issues :: "resource_index \<Rightarrow> resource \<Rightarrow> string list" where
  "property_issues by_id r =
     (if r_kind r = ''property'' then
        (case r_value_type r of
           None \<Rightarrow> [''missing_property_type:'' @ r_id r]
         | Some value_type \<Rightarrow>
             if value_type = [] then [''missing_property_type:'' @ r_id r]
             else if value_type \<notin> set SCALAR_TYPES \<and> \<not> bt_contains by_id value_type
             then [''invalid_value_type:'' @ r_id r @ '':'' @ value_type] else [])
      else [])"

definition validate_link_endpoint :: "resource \<Rightarrow> string \<Rightarrow> resource_index \<Rightarrow> string list" where
  "validate_link_endpoint r field by_id =
     (case Option.bind (Option.bind (map_of (r_attributes r) field) as_str) (bt_get by_id) of
        None \<Rightarrow> [''dangling_link_'' @ field @ '':'' @ r_id r]
      | Some target \<Rightarrow>
          if \<not> is_type_kind (r_kind target)
          then [''incompatible_link_'' @ field @ '':'' @ r_id r] else [])"

definition resource_issues :: "resource_index \<Rightarrow> resource \<Rightarrow> string list" where
  "resource_issues by_id r =
     owner_issues by_id r @ reference_issues by_id r @ parent_issues by_id r @
     property_issues by_id r @
     (if r_kind r = ''link_type''
      then validate_link_endpoint r ''source_type'' by_id @ validate_link_endpoint r ''target_type'' by_id
      else [])"

definition detect_cycles :: "resource list \<Rightarrow> resource_index \<Rightarrow> string list" where
  "detect_cycles resources by_id =
     (case find_cycle resources by_id False of
        None \<Rightarrow> [] | Some x \<Rightarrow> [''inheritance_cycle:'' @ x]) @
     (case find_cycle resources by_id True of
        None \<Rightarrow> [] | Some x \<Rightarrow> [''owner_cycle:'' @ x])"

definition properties_by_owner :: "resource list \<Rightarrow> (string, resource list) btree_map" where
  "properties_by_owner resources =
     group_by (\<lambda>r. if r_kind r = ''property'' then map_option (\<lambda>owner. (owner, r)) (r_owner r) else None)
       resources"

definition validate_inherited_properties :: "resource list \<Rightarrow> resource_index \<Rightarrow> string list" where
  "validate_inherited_properties resources by_id =
     (let properties = properties_by_owner resources in
      concat (map (\<lambda>r.
        case bt_get properties (r_id r) of
          None \<Rightarrow> []
        | Some own_properties \<Rightarrow>
            concat (map (\<lambda>ancestor.
              case bt_get properties ancestor of
                None \<Rightarrow> []
              | Some inherited \<Rightarrow>
                  concat (map (\<lambda>own.
                    concat (map (\<lambda>parent.
                      if r_display_name own = r_display_name parent \<and>
                         r_value_type own \<noteq> r_value_type parent
                      then [''incompatible_property_type:'' @ r_id own @ '':'' @ r_id parent]
                      else []) inherited)) own_properties))
              (ancestors (r_id r) by_id))) resources))"

definition index_resources :: "resource list \<Rightarrow> resource_index" where
  "index_resources resources = bt_collect (map (\<lambda>r. (r_id r, r)) resources)"

definition ontology_issues :: "resource list \<Rightarrow> string list" where
  "ontology_issues resources =
     (let by_id = index_resources resources in
      concat (map (resource_issues by_id) resources) @
      detect_cycles resources by_id @
      validate_inherited_properties resources by_id)"

definition validate_ontology :: "json \<Rightarrow> unit result" where
  "validate_ontology ontology =
     and_then (parse_resources ontology) (\<lambda>resources.
     let issues = ontology_issues resources in
     ensure (issues = []) (join ''; '' issues) (Inr ()))"

section \<open>What a valid ontology is\<close>

definition has_type :: "resource list \<Rightarrow> string \<Rightarrow> bool" where
  "has_type rs x \<longleftrightarrow> (\<exists>t \<in> set rs. r_id t = x \<and> is_type_kind (r_kind t))"

definition inherits :: "resource list \<Rightarrow> (string \<times> string) set" where
  "inherits rs = {(r_id r, p) | r p. r \<in> set rs \<and> p \<in> set (r_parents r)}"

definition owned_by :: "resource list \<Rightarrow> (string \<times> string) set" where
  "owned_by rs = {(r_id r, x) | r x. r \<in> set rs \<and> r_owner r = Some x}"

definition link_endpoint_ok :: "resource list \<Rightarrow> resource \<Rightarrow> string \<Rightarrow> bool" where
  "link_endpoint_ok rs r field \<longleftrightarrow>
     (\<exists>x. map_of (r_attributes r) field = Some (JString x) \<and> has_type rs x)"

definition resource_ok :: "resource list \<Rightarrow> resource \<Rightarrow> bool" where
  "resource_ok rs r \<longleftrightarrow>
     (\<forall>x. r_owner r = Some x \<longrightarrow> has_type rs x) \<and>
     (\<forall>x \<in> set (r_references r). x \<in> r_id ` set rs) \<and>
     (\<forall>x \<in> set (r_parents r). has_type rs x) \<and>
     (r_kind r = ''property'' \<longrightarrow>
        (\<exists>t. r_value_type r = Some t \<and> t \<noteq> [] \<and> (t \<in> set SCALAR_TYPES \<or> t \<in> r_id ` set rs))) \<and>
     (r_kind r = ''link_type'' \<longrightarrow>
        link_endpoint_ok rs r ''source_type'' \<and> link_endpoint_ok rs r ''target_type'')"

definition overrides_ok :: "resource list \<Rightarrow> bool" where
  "overrides_ok rs \<longleftrightarrow>
     (\<forall>own \<in> set rs. \<forall>parent \<in> set rs. \<forall>x y.
        r_kind own = ''property'' \<longrightarrow> r_kind parent = ''property'' \<longrightarrow>
        r_owner own = Some x \<longrightarrow> r_owner parent = Some y \<longrightarrow> x \<in> r_id ` set rs \<longrightarrow>
        (x, y) \<in> (inherits rs)\<^sup>+ \<longrightarrow> r_display_name own = r_display_name parent \<longrightarrow>
        r_value_type own = r_value_type parent)"

definition ontology_ok :: "resource list \<Rightarrow> bool" where
  "ontology_ok rs \<longleftrightarrow>
     (\<forall>r \<in> set rs. resource_ok rs r) \<and>
     acyclic (inherits rs) \<and> acyclic (owned_by rs) \<and> overrides_ok rs"

section \<open>The validator decides it\<close>

lemma index_get:
  "distinct (map r_id rs) \<Longrightarrow> bt_get (index_resources rs) x = Some r \<longleftrightarrow> r \<in> set rs \<and> r_id r = x"
  unfolding index_resources_def
  by (subst bt_get_collect_distinct) (auto simp: comp_def)

lemma index_contains [simp]: "bt_contains (index_resources rs) x \<longleftrightarrow> x \<in> r_id ` set rs"
  by (simp add: index_resources_def image_comp)

lemma edge_rel_index:
  assumes "distinct (map r_id rs)"
  shows "edge_rel False (index_resources rs) = inherits rs"
    "edge_rel True (index_resources rs) = owned_by rs"
proof -
  have own: "y \<in> set (edges_of True r) \<longleftrightarrow> r_owner r = Some y" for r y
    by (cases "r_owner r") (auto simp: edges_of_def)
  have sub: "edges_of False r = r_parents r" for r by (simp add: edges_of_def)
  have "edge_rel False (index_resources rs) = {(x, y). \<exists>r. (r \<in> set rs \<and> r_id r = x) \<and> y \<in> set (r_parents r)}"
    by (simp only: edge_rel_def index_get [OF assms] sub)
  also have "\<dots> = inherits rs" unfolding inherits_def by (intro equalityI subrelI) auto
  finally show "edge_rel False (index_resources rs) = inherits rs" .
  have "edge_rel True (index_resources rs) = {(x, y). \<exists>r. (r \<in> set rs \<and> r_id r = x) \<and> r_owner r = Some y}"
    by (simp only: edge_rel_def index_get [OF assms] own)
  also have "\<dots> = owned_by rs" unfolding owned_by_def by (intro equalityI subrelI) auto
  finally show "edge_rel True (index_resources rs) = owned_by rs" .
qed

lemma typed_lookup:
  assumes "distinct (map r_id rs)"
  shows "(case bt_get (index_resources rs) x of None \<Rightarrow> [e] | Some t \<Rightarrow>
      if \<not> is_type_kind (r_kind t) then [e'] else []) = [] \<longleftrightarrow> has_type rs x"
proof (cases "bt_get (index_resources rs) x")
  case None
  then have "x \<notin> r_id ` set rs" using index_contains [of rs x] by (simp add: bt_contains_get)
  with None show ?thesis by (auto simp: has_type_def)
next
  case (Some t)
  then have "t \<in> set rs" "r_id t = x" using index_get [OF assms] by blast+
  moreover have "s = t" if "s \<in> set rs" "r_id s = x" for s
    using that Some index_get [OF assms, of x s] by simp
  ultimately have "has_type rs x \<longleftrightarrow> is_type_kind (r_kind t)" unfolding has_type_def by metis
  with Some show ?thesis by simp
qed

lemma owner_issues_iff:
  "distinct (map r_id rs) \<Longrightarrow>
    owner_issues (index_resources rs) r = [] \<longleftrightarrow> (\<forall>x. r_owner r = Some x \<longrightarrow> has_type rs x)"
  by (simp add: owner_issues_def typed_lookup split: option.split)

lemma reference_issues_iff:
  "reference_issues (index_resources rs) r = [] \<longleftrightarrow> (\<forall>x \<in> set (r_references r). x \<in> r_id ` set rs)"
  by (auto simp: reference_issues_def)

lemma parent_issues_iff:
  "distinct (map r_id rs) \<Longrightarrow>
    parent_issues (index_resources rs) r = [] \<longleftrightarrow> (\<forall>x \<in> set (r_parents r). has_type rs x)"
  by (simp add: parent_issues_def typed_lookup)

lemma property_issues_iff:
  "property_issues (index_resources rs) r = [] \<longleftrightarrow>
    (r_kind r = ''property'' \<longrightarrow>
      (\<exists>t. r_value_type r = Some t \<and> t \<noteq> [] \<and> (t \<in> set SCALAR_TYPES \<or> t \<in> r_id ` set rs)))"
  by (auto simp: property_issues_def split: option.split)

lemma link_endpoint_iff:
  assumes "distinct (map r_id rs)"
  shows "validate_link_endpoint r field (index_resources rs) = [] \<longleftrightarrow> link_endpoint_ok rs r field"
proof (cases "Option.bind (map_of (r_attributes r) field) as_str")
  case None
  then have "\<nexists>x. map_of (r_attributes r) field = Some (JString x)" by (auto simp: as_str_def)
  with None show ?thesis by (auto simp: validate_link_endpoint_def link_endpoint_ok_def)
next
  case (Some x)
  then have "map_of (r_attributes r) field = Some (JString x)"
    by (simp add: bind_eq_Some_conv)
  moreover have "as_str (JString x) = Some x" by simp
  ultimately show ?thesis
    by (simp del: as_str_eq_Some
        add: validate_link_endpoint_def link_endpoint_ok_def typed_lookup [OF assms])
qed

lemma resource_issues_iff:
  "distinct (map r_id rs) \<Longrightarrow> resource_issues (index_resources rs) r = [] \<longleftrightarrow> resource_ok rs r"
  by (auto simp: resource_issues_def resource_ok_def owner_issues_iff reference_issues_iff
      parent_issues_iff property_issues_iff link_endpoint_iff)

lemma detect_cycles_iff:
  assumes "distinct (map r_id rs)"
  shows "detect_cycles rs (index_resources rs) = [] \<longleftrightarrow> acyclic (inherits rs) \<and> acyclic (owned_by rs)"
proof -
  have "find_cycle rs (index_resources rs) oe = None \<longleftrightarrow> acyclic (edge_rel oe (index_resources rs))" for oe
    by (rule find_cycle_None_iff) (auto simp: index_get [OF assms])
  from this [of False] this [of True] show ?thesis
    unfolding edge_rel_index [OF assms]
    by (cases "find_cycle rs (index_resources rs) False"; cases "find_cycle rs (index_resources rs) True")
      (simp_all add: detect_cycles_def)
qed

lemma properties_group:
  "r \<in> set (group (properties_by_owner rs) x) \<longleftrightarrow>
    r \<in> set rs \<and> r_kind r = ''property'' \<and> r_owner r = Some x"
  by (auto simp: properties_by_owner_def set_group_by)

lemma concat_group:
  "(case bt_get m k of None \<Rightarrow> [] | Some vs \<Rightarrow> concat (map f vs)) = concat (map f (group m k))"
  by (simp add: group_def split: option.split)

lemma nested_groups_Nil_iff:
  "(case bt_get m k of None \<Rightarrow> [] | Some vs \<Rightarrow>
      concat (map (\<lambda>a. case bt_get m a of None \<Rightarrow> [] | Some ws \<Rightarrow>
        concat (map (\<lambda>v. concat (map (f v) ws)) vs)) as)) = [] \<longleftrightarrow>
    (\<forall>v \<in> set (group m k). \<forall>a \<in> set as. \<forall>w \<in> set (group m a). f v w = [])"
proof (cases "bt_get m k")
  case (Some vs)
  then have vs: "group m k = vs" by (simp add: group_def)
  have "(case bt_get m a of None \<Rightarrow> [] | Some ws \<Rightarrow> concat (map (\<lambda>v. concat (map (f v) ws)) vs)) = []
      \<longleftrightarrow> (\<forall>v \<in> set vs. \<forall>w \<in> set (group m a). f v w = [])" for a
    by (cases "bt_get m a") (simp_all add: group_def)
  then show ?thesis by (simp add: Some vs) blast
qed (simp add: group_def)

lemma inherited_issues_iff:
  assumes "distinct (map r_id rs)"
  shows "validate_inherited_properties rs (index_resources rs) = [] \<longleftrightarrow> overrides_ok rs"
proof -
  let ?by = "index_resources rs" and ?props = "properties_by_owner rs"
  have "validate_inherited_properties rs ?by = [] \<longleftrightarrow>
    (\<forall>r \<in> set rs. \<forall>own \<in> set (group ?props (r_id r)). \<forall>a \<in> set (ancestors (r_id r) ?by).
       \<forall>parent \<in> set (group ?props a).
       r_display_name own = r_display_name parent \<longrightarrow> r_value_type own = r_value_type parent)"
    by (simp add: validate_inherited_properties_def Let_def nested_groups_Nil_iff)
  also have "\<dots> \<longleftrightarrow> overrides_ok rs"
    unfolding Ball_def properties_group set_ancestors edge_rel_index [OF assms] overrides_ok_def
      mem_Collect_eq by blast
  finally show ?thesis .
qed

lemma ontology_issues_iff:
  "distinct (map r_id rs) \<Longrightarrow> ontology_issues rs = [] \<longleftrightarrow> ontology_ok rs"
  by (simp add: ontology_issues_def Let_def ontology_ok_def resource_issues_iff detect_cycles_iff
      inherited_issues_iff)

lemma validate_ontology_Inr_iff:
  "validate_ontology doc = Inr () \<longleftrightarrow> (\<exists>rs. parse_resources doc = Inr rs \<and> ontology_ok rs)"
  using ontology_issues_iff parse_resources_distinct
  by (auto simp: validate_ontology_def Let_def result_simps)

end
