(* ===== verification/Ontology_Slice.thy ===== *)
theory Ontology_Slice
  imports Ontology_Validation Fixtures
begin

text \<open>
  Selecting a subgraph of an ontology (\<open>validate_selector\<close>, \<open>validate_ontology_selector\<close> and
  \<open>slice_ontology\<close> in \<open>platform/registry/src/semantics.rs\<close>). The dependency closure is a worklist
  over the raw document; it is proved to select exactly what the chosen resources reach, and
  slicing with dependencies is proved to succeed on every ontology whose properties have scalar types.
\<close>

section \<open>Definitions\<close>

definition validate_selector :: "json \<Rightarrow> string list \<Rightarrow> string list \<Rightarrow> unit result" where
  "validate_selector ontology resource_ids resource_kinds =
     and_then (option_context ''ontology resources missing'' (get_array ontology ''resources''))
     (\<lambda>resources.
     let ids = List.map_filter (\<lambda>r. get_str r ''resource_id'') resources in
     and_then (try_each (\<lambda>id. ensure (id \<in> set ids) ''selector references missing resource'' (Inr ()))
       resource_ids) (\<lambda>_.
     and_then (try_each (\<lambda>kind. ensure (kind \<in> set RESOURCE_KINDS)
       ''selector has invalid resource kind'' (Inr ())) resource_kinds) (\<lambda>_.
     ensure (resource_ids \<noteq> [] \<or> resource_kinds \<noteq> []) ''ontology selector is empty'' (Inr ()))))"

definition validate_ontology_selector :: "json \<Rightarrow> string list \<Rightarrow> string list \<Rightarrow> unit result" where
  "validate_ontology_selector ontology resource_ids resource_kinds =
     and_then (validate_ontology ontology) (\<lambda>_. validate_selector ontology resource_ids resource_kinds)"

definition slice_index :: "json list \<Rightarrow> (string, json) btree_map" where
  "slice_index resources =
     bt_collect (List.map_filter (\<lambda>r. map_option (\<lambda>id. (id, r)) (get_str r ''resource_id'')) resources)"

definition slice_properties :: "json list \<Rightarrow> (string, string list) btree_map" where
  "slice_properties resources =
     group_by (\<lambda>r.
       if get_str r ''kind'' = Some ''property'' then
         Option.bind (get_str r ''owner_id'') (\<lambda>owner.
           map_option (\<lambda>id. (owner, id)) (get_str r ''resource_id''))
       else None) resources"

definition dependencies_of :: "(string, string list) btree_map \<Rightarrow> string \<Rightarrow> json \<Rightarrow> string list result" where
  "dependencies_of props rid r =
     and_then (string_array (json_get r ''references'') ''references'') (\<lambda>dependencies.
     let dependencies = dependencies @ (case get_str r ''owner_id'' of None \<Rightarrow> [] | Some owner \<Rightarrow> [owner]) in
     and_then
       (case get_object r ''attributes'' of
          None \<Rightarrow> Inr dependencies
        | Some attributes \<Rightarrow>
            try_fold (\<lambda>dependencies field.
              and_then (string_array (map_of attributes field) field) (\<lambda>names.
              Inr (dependencies @ names)))
              dependencies [''extends'', ''interfaces'', ''source_type'', ''target_type''])
     (\<lambda>dependencies.
     Inr (dependencies @ (case bt_get props rid of None \<Rightarrow> [] | Some ps \<Rightarrow> ps))))"

text \<open>The worklist: its head is the element that \<open>pop\<close> takes.\<close>

function slice_loop ::
  "(string, json) btree_map \<Rightarrow> (string, string list) btree_map \<Rightarrow> string list \<Rightarrow> string list
    \<Rightarrow> string list result" where
  "slice_loop by_id props selected [] = Inr selected"
| "slice_loop by_id props selected (rid # pending) =
     (case bt_get by_id rid of
        None \<Rightarrow> slice_loop by_id props selected pending
      | Some r \<Rightarrow>
          and_then (dependencies_of props rid r) (\<lambda>dependencies.
          case push_new (filter (bt_contains by_id) dependencies) selected pending of
            (selected', pending') \<Rightarrow> slice_loop by_id props selected' pending'))"
  by pat_completeness auto
termination
proof (relation "measures [\<lambda>(by_id, props, selected, pending). card (set (bt_keys by_id) - set selected),
    \<lambda>(by_id, props, selected, pending). length pending]", goal_cases)
  case (3 by_id props selected rid pending r deps selected' pending')
  then have p: "push_new (filter (bt_contains by_id) deps) selected pending = (selected', pending')" by simp
  show ?case using push_new_decreases [OF p, of "set (bt_keys by_id)"]
    by (auto simp: bt_contains_iff)
qed simp_all

definition initially_selected :: "json list \<Rightarrow> string list \<Rightarrow> string list \<Rightarrow> string list" where
  "initially_selected resources resource_ids resource_kinds =
     bs_collect (List.map_filter (\<lambda>r. get_str r ''resource_id'') (filter (\<lambda>r.
       (case get_str r ''resource_id'' of None \<Rightarrow> False | Some rid \<Rightarrow> rid \<in> set resource_ids) \<or>
       (case get_str r ''kind'' of None \<Rightarrow> False | Some kind \<Rightarrow> kind \<in> set resource_kinds)) resources))"

definition slice_ontology :: "json \<Rightarrow> string list \<Rightarrow> string list \<Rightarrow> bool \<Rightarrow> json result" where
  "slice_ontology ontology resource_ids resource_kinds include_dependencies =
     and_then (validate_ontology ontology) (\<lambda>_.
     and_then (validate_selector ontology resource_ids resource_kinds) (\<lambda>_.
     and_then (option_context ''ontology resources missing'' (get_array ontology ''resources''))
     (\<lambda>resources.
     let selected = initially_selected resources resource_ids resource_kinds in
     and_then
       (if include_dependencies
        then slice_loop (slice_index resources) (slice_properties resources) selected (rev selected)
        else Inr selected)
     (\<lambda>selected.
     let sliced = filter (\<lambda>r. case get_str r ''resource_id'' of None \<Rightarrow> False | Some rid \<Rightarrow> rid \<in> set selected)
       resources in
     and_then (option_context ''ontology version missing'' (json_get ontology ''version'')) (\<lambda>version.
     let out = JObject [(''version'', version), (''resources'', JArray sliced)] in
     and_then (validate_ontology out) (\<lambda>_. Inr out))))))"

section \<open>What slicing selects\<close>

text \<open>The names that an attribute mentions, as a string or an array of strings.\<close>

definition named_by :: "json option \<Rightarrow> string set" where
  "named_by v =
     (case v of
        Some (JString x) \<Rightarrow> {x}
      | Some (JArray vs) \<Rightarrow> {x. JString x \<in> set vs}
      | _ \<Rightarrow> {})"

definition depends_on :: "resource list \<Rightarrow> (string \<times> string) set" where
  "depends_on rs = {(x, y). y \<in> r_id ` set rs \<and>
     (\<exists>r \<in> set rs. r_id r = x \<and>
        (y \<in> set (r_references r) \<or> r_owner r = Some y \<or> y \<in> set (r_parents r) \<or>
         y \<in> named_by (map_of (r_attributes r) ''source_type'') \<or>
         y \<in> named_by (map_of (r_attributes r) ''target_type'') \<or>
         (\<exists>p \<in> set rs. r_kind p = ''property'' \<and> r_owner p = Some x \<and> r_id p = y)))}"

definition chosen :: "resource list \<Rightarrow> string list \<Rightarrow> string list \<Rightarrow> string set" where
  "chosen rs ids kinds = {r_id r | r. r \<in> set rs \<and> (r_id r \<in> set ids \<or> r_kind r \<in> set kinds)}"

definition slice_set :: "resource list \<Rightarrow> string list \<Rightarrow> string list \<Rightarrow> bool \<Rightarrow> string set" where
  "slice_set rs ids kinds deps =
     (if deps then (depends_on rs)\<^sup>* `` chosen rs ids kinds else chosen rs ids kinds)"

definition slice_of :: "resource list \<Rightarrow> string list \<Rightarrow> string list \<Rightarrow> bool \<Rightarrow> resource list" where
  "slice_of rs ids kinds deps = filter (\<lambda>r. r_id r \<in> slice_set rs ids kinds deps) rs"

lemma string_array_named: "string_array v f = Inr xs \<Longrightarrow> set xs = named_by v"
proof (cases "\<exists>items. v = Some (JArray items)")
  case True
  then obtain items where v: "v = Some (JArray items)" by blast
  assume "string_array v f = Inr xs"
  then have "list_all2 (\<lambda>item x. item = JString x) items xs"
    by (simp add: string_array_def v result_simps)
  then have "set xs = {x. JString x \<in> set items}"
    by (induction rule: list_all2_induct) auto
  then show ?thesis by (simp add: v named_by_def)
qed (auto simp: string_array_def named_by_def split: option.splits json.splits)

section \<open>Correctness of the closure\<close>

definition slice_succs ::
  "(string, json) btree_map \<Rightarrow> (string, string list) btree_map \<Rightarrow> string \<Rightarrow> string list" where
  "slice_succs by_id props x =
     (case bt_get by_id x of
        None \<Rightarrow> []
      | Some r \<Rightarrow>
          (case dependencies_of props x r of Inl _ \<Rightarrow> [] | Inr deps \<Rightarrow> filter (bt_contains by_id) deps))"

definition deps_ok :: "(string, json) btree_map \<Rightarrow> (string, string list) btree_map \<Rightarrow> string \<Rightarrow> bool" where
  "deps_ok by_id props x \<longleftrightarrow> (\<forall>r. bt_get by_id x = Some r \<longrightarrow> (\<exists>deps. dependencies_of props x r = Inr deps))"

lemma slice_loop_Cons:
  "slice_loop by_id props selected (x # pending) = Inr out \<longleftrightarrow>
    deps_ok by_id props x \<and>
    (case push_new (slice_succs by_id props x) selected pending of
       (selected', pending') \<Rightarrow> slice_loop by_id props selected' pending' = Inr out)"
proof (cases "bt_get by_id x")
  case (Some r)
  then show ?thesis
    by (cases "dependencies_of props x r") (auto simp: deps_ok_def slice_succs_def split: prod.split)
qed (simp add: deps_ok_def slice_succs_def)

declare slice_loop.simps(2) [simp del]

interpretation slice_search: worklist "slice_succs by_id props"
  "\<lambda>selected pending out. slice_loop by_id props selected pending = Inr out" "set (bt_keys by_id)" for by_id props
  by unfold_locales
    (auto simp: slice_succs_def bt_contains_iff slice_loop_Cons split: option.splits sum.splits)

text \<open>A run that returns could read the dependencies of everything it visited.\<close>

lemma slice_loop_deps_ok:
  "slice_loop by_id props selected pending = Inr out \<Longrightarrow>
    x \<in> set pending \<union> (set out - set selected) \<Longrightarrow> deps_ok by_id props x"
proof (induction by_id props selected pending rule: slice_loop.induct)
  case (2 by_id props selected y pending)
  obtain selected' pending' where p: "push_new (slice_succs by_id props y) selected pending = (selected', pending')"
    by fastforce
  note sets = push_new_sets [OF p]
  from 2(3) p have y: "deps_ok by_id props y" "slice_loop by_id props selected' pending' = Inr out"
    by (simp_all add: slice_loop_Cons)
  have x: "x = y \<or> x \<in> set pending' \<union> (set out - set selected')" using 2(4) sets by auto
  have "deps_ok by_id props x" if "x \<in> set pending' \<union> (set out - set selected')"
  proof (cases "bt_get by_id y")
    case None
    with p have "selected' = selected" "pending' = pending" by (simp_all add: slice_succs_def)
    with 2(1) [OF None] y(2) that show ?thesis by simp
  next
    case (Some r)
    obtain deps where deps: "dependencies_of props y r = Inr deps"
      using y(1) Some by (auto simp: deps_ok_def)
    with p Some have p': "(selected', pending') = push_new (filter (bt_contains by_id) deps) selected pending"
      by (simp add: slice_succs_def)
    from 2(2) [OF Some deps p' y(2) that] show ?thesis .
  qed
  with x y(1) show ?case by blast
qed simp

lemma slice_loop_returns:
  assumes "\<And>x. deps_ok by_id props x"
  shows "\<exists>out. slice_loop by_id props selected pending = Inr out"
proof (induction by_id \<equiv> by_id props \<equiv> props selected pending rule: slice_loop.induct)
  case (2 selected y pending)
  obtain selected' pending' where p: "push_new (slice_succs by_id props y) selected pending = (selected', pending')"
    by fastforce
  have "\<exists>out. slice_loop by_id props selected' pending' = Inr out"
  proof (cases "bt_get by_id y")
    case None
    with p have "selected' = selected" "pending' = pending" by (simp_all add: slice_succs_def)
    with 2(1) [OF None] show ?thesis by simp
  next
    case (Some r)
    obtain deps where deps: "dependencies_of props y r = Inr deps"
      using assms [of y] Some by (auto simp: deps_ok_def)
    with p Some have p': "(selected', pending') = push_new (filter (bt_contains by_id) deps) selected pending"
      by (simp add: slice_succs_def)
    from 2(2) [OF Some deps p'] show ?thesis .
  qed
  then show ?case using assms p by (simp add: slice_loop_Cons)
qed simp

section \<open>The closure on the parsed resources\<close>

lemma slice_index_zip:
  "list_all2 parsed_as vs rs \<Longrightarrow>
    List.map_filter (\<lambda>r. map_option (\<lambda>id. (id, r)) (get_str r ''resource_id'')) vs = zip (map r_id rs) vs"
  by (induction rule: list_all2_induct) (simp_all add: List.map_filter_simps parsed_as_fields(1))

lemma slice_index_get:
  assumes "list_all2 parsed_as vs rs" "distinct (map r_id rs)"
  shows "bt_get (slice_index vs) x = Some v \<longleftrightarrow> (\<exists>r. (v, r) \<in> set (zip vs rs) \<and> r_id r = x)"
proof -
  have "length vs = length rs" using assms(1) by (rule list_all2_lengthD)
  then have "bt_get (slice_index vs) = map_of (zip (map r_id rs) vs)"
    using assms(2) by (simp add: slice_index_def slice_index_zip [OF assms(1)] bt_get_collect_distinct)
  then have "bt_get (slice_index vs) x = Some v \<longleftrightarrow> (x, v) \<in> set (zip (map r_id rs) vs)"
    using assms(2) \<open>length vs = length rs\<close> by simp
  also have "\<dots> \<longleftrightarrow> (\<exists>r. (v, r) \<in> set (zip vs rs) \<and> r_id r = x)"
    using \<open>length vs = length rs\<close> by (auto simp: set_zip) (metis nth_map)
  finally show ?thesis .
qed

lemma slice_index_contains:
  assumes "list_all2 parsed_as vs rs"
  shows "bt_contains (slice_index vs) x \<longleftrightarrow> x \<in> r_id ` set rs"
  using list_all2_lengthD [OF assms]
  by (simp add: slice_index_def slice_index_zip [OF assms] flip: set_map)

lemma slice_properties_group:
  assumes "list_all2 parsed_as vs rs"
  shows "y \<in> set (group (slice_properties vs) x) \<longleftrightarrow>
    (\<exists>p \<in> set rs. r_kind p = ''property'' \<and> r_owner p = Some x \<and> r_id p = y)"
proof -
  let ?f = "\<lambda>r. if get_str r ''kind'' = Some ''property'' then
         Option.bind (get_str r ''owner_id'') (\<lambda>owner.
           map_option (\<lambda>id. (owner, id)) (get_str r ''resource_id'')) else None"
  have "?f v = Some (x, y) \<longleftrightarrow> r_kind r = ''property'' \<and> r_owner r = Some x \<and> r_id r = y"
    if "parsed_as v r" for v r
    by (cases "r_owner r") (simp_all add: parsed_as_fields [OF that])
  then have "(\<exists>v \<in> set vs. ?f v = Some (x, y)) \<longleftrightarrow>
      (\<exists>p \<in> set rs. r_kind p = ''property'' \<and> r_owner p = Some x \<and> r_id p = y)"
    by (intro list_all2_Bex_cong [OF assms])
  then show ?thesis by (simp only: slice_properties_def set_group_by)
qed

lemma dependencies_of_set:
  assumes "parsed_as v r" "dependencies_of props x v = Inr deps"
  shows "set deps = set (r_references r) \<union> set_option (r_owner r) \<union> set (r_parents r) \<union>
    named_by (map_of (r_attributes r) ''source_type'') \<union>
    named_by (map_of (r_attributes r) ''target_type'') \<union> set (group props x)"
proof -
  obtain es ifs st tt where arrays:
      "string_array (map_of (r_attributes r) ''extends'') ''extends'' = Inr es"
      "string_array (map_of (r_attributes r) ''interfaces'') ''interfaces'' = Inr ifs"
      "string_array (map_of (r_attributes r) ''source_type'') ''source_type'' = Inr st"
      "string_array (map_of (r_attributes r) ''target_type'') ''target_type'' = Inr tt"
    and deps: "deps = r_references r @ (case r_owner r of None \<Rightarrow> [] | Some owner \<Rightarrow> [owner]) @
      es @ ifs @ st @ tt @ group props x"
    using assms(2) unfolding dependencies_of_def
    by (auto simp: parsed_as_fields [OF assms(1)] result_simps Let_def group_def)
  moreover have "r_parents r = es @ ifs"
    using parsed_as_fields(9) [OF assms(1)] arrays(1,2) by auto
  ultimately show ?thesis
    by (cases "r_owner r")
      (auto simp: string_array_named [OF arrays(3)] string_array_named [OF arrays(4)])
qed

lemma depends_on_iff:
  assumes "distinct (map r_id rs)" "r \<in> set rs"
  shows "(r_id r, y) \<in> depends_on rs \<longleftrightarrow> y \<in> r_id ` set rs \<and>
    (y \<in> set (r_references r) \<union> set_option (r_owner r) \<union> set (r_parents r) \<union>
      named_by (map_of (r_attributes r) ''source_type'') \<union>
      named_by (map_of (r_attributes r) ''target_type'') \<or>
     (\<exists>p \<in> set rs. r_kind p = ''property'' \<and> r_owner p = Some (r_id r) \<and> r_id p = y))"
proof -
  have uniq: "r' \<in> set rs \<and> r_id r' = r_id r \<longleftrightarrow> r' = r" for r'
    using assms by (auto simp: distinct_map inj_on_def)
  have ball: "(\<exists>r' \<in> set rs. r_id r' = r_id r \<and> P r') \<longleftrightarrow> P r" for P
    using uniq by metis
  show ?thesis unfolding depends_on_def mem_Collect_eq prod.case ball by simp
qed

text \<open>Where the dependencies of a resource can be read, they are those of the parsed resource.\<close>

lemma slice_succs_depends:
  assumes "list_all2 parsed_as vs rs" "distinct (map r_id rs)"
  shows "y \<in> set (slice_succs (slice_index vs) (slice_properties vs) x) \<longleftrightarrow>
    (x, y) \<in> depends_on rs \<and> deps_ok (slice_index vs) (slice_properties vs) x"
proof (cases "bt_get (slice_index vs) x")
  case None
  then have "x \<notin> r_id ` set rs" using slice_index_contains [OF assms(1), of x] by (simp add: bt_contains_get)
  with None show ?thesis by (auto simp: slice_succs_def depends_on_def)
next
  case (Some v)
  then obtain r where r: "(v, r) \<in> set (zip vs rs)" "r_id r = x" by (auto simp: slice_index_get [OF assms])
  then have parsed: "parsed_as v r" "r \<in> set rs"
    using assms(1) by (auto simp: list_all2_iff dest: set_zip_rightD)
  show ?thesis
  proof (cases "dependencies_of (slice_properties vs) x v")
    case (Inl e)
    then show ?thesis using Some by (simp add: slice_succs_def deps_ok_def)
  next
    case (Inr deps)
    have "y \<in> set (slice_succs (slice_index vs) (slice_properties vs) x) \<longleftrightarrow> y \<in> r_id ` set rs \<and> y \<in> set deps"
      using Some Inr slice_index_contains [OF assms(1)] by (auto simp: slice_succs_def)
    also have "\<dots> \<longleftrightarrow> (x, y) \<in> depends_on rs"
      using depends_on_iff [OF assms(2) parsed(2), of y]
      by (simp add: dependencies_of_set [OF parsed(1) Inr] slice_properties_group [OF assms(1)] r(2))
    finally show ?thesis using Some Inr by (simp add: deps_ok_def)
  qed
qed

text \<open>A returning closure is the set of resources that the selection reaches.\<close>

lemma slice_loop_reaches:
  assumes "list_all2 parsed_as vs rs" "distinct (map r_id rs)"
    and "slice_loop (slice_index vs) (slice_properties vs) selected (rev selected) = Inr out"
  shows "set out = (depends_on rs)\<^sup>* `` set selected"
proof -
  let ?E = "slice_search.edge (slice_index vs) (slice_properties vs)"
  let ?ok = "deps_ok (slice_index vs) (slice_properties vs)"
  have edge: "(x, y) \<in> ?E \<longleftrightarrow> (x, y) \<in> depends_on rs \<and> ?ok x" for x y
    by (simp add: slice_search.edge_def slice_succs_depends [OF assms(1,2)])
  have out: "set out = set selected \<union> ?E\<^sup>+ `` set selected"
    by (rule slice_search.returns_reachable [OF assms(3)]) auto
  have ok: "?ok x" if "x \<in> set out" for x
    by (rule slice_loop_deps_ok [OF assms(3)]) (use that in auto)
  have "?E \<subseteq> depends_on rs" using edge by auto
  then have "?E\<^sup>+ \<subseteq> (depends_on rs)\<^sup>*"
    by (intro subrelI trancl_into_rtrancl) (rule trancl_mono)
  then have "set out \<subseteq> (depends_on rs)\<^sup>* `` set selected" unfolding out by auto
  moreover have "y \<in> set out" if "(x, y) \<in> (depends_on rs)\<^sup>*" "x \<in> set selected" for x y
    using that
  proof (induction rule: rtrancl_induct)
    case (step y z)
    then have "(y, z) \<in> ?E" using ok edge by blast
    with step show ?case unfolding out by (auto intro: trancl_into_trancl)
  qed (simp add: out)
  ultimately show ?thesis by blast
qed

lemma initially_selected_set:
  assumes "list_all2 parsed_as vs rs"
  shows "set (initially_selected vs ids kinds) = chosen rs ids kinds"
proof -
  let ?P = "\<lambda>r. (case get_str r ''resource_id'' of None \<Rightarrow> False | Some rid \<Rightarrow> rid \<in> set ids) \<or>
       (case get_str r ''kind'' of None \<Rightarrow> False | Some kind \<Rightarrow> kind \<in> set kinds)"
  have "x \<in> set (initially_selected vs ids kinds) \<longleftrightarrow> (\<exists>v \<in> set vs. ?P v \<and> get_str v ''resource_id'' = Some x)" for x
    by (auto simp: initially_selected_def set_map_filter_iff)
  also have "\<dots> x \<longleftrightarrow> (\<exists>r \<in> set rs. (r_id r \<in> set ids \<or> r_kind r \<in> set kinds) \<and> r_id r = x)" for x
    by (rule list_all2_Bex_cong [OF assms]) (simp add: parsed_as_fields(1,2))
  finally show ?thesis by (auto simp: chosen_def)
qed

definition selection ::
  "json list \<Rightarrow> string list \<Rightarrow> string list \<Rightarrow> bool \<Rightarrow> string list result" where
  "selection vs ids kinds deps =
     (if deps then slice_loop (slice_index vs) (slice_properties vs)
        (initially_selected vs ids kinds) (rev (initially_selected vs ids kinds))
      else Inr (initially_selected vs ids kinds))"

lemma selection_set:
  assumes "list_all2 parsed_as vs rs" "distinct (map r_id rs)" "selection vs ids kinds deps = Inr out"
  shows "set out = slice_set rs ids kinds deps"
  using assms(3) slice_loop_reaches [OF assms(1,2)] initially_selected_set [OF assms(1)]
  by (auto simp: selection_def slice_set_def split: if_splits)

lemma parse_filtered:
  assumes "list_all2 parsed_as vs rs" "distinct (map r_id rs)" "version \<noteq> []"
  shows "parse_resources (JObject [(''version'', JString version), (''resources'', JArray (filter (\<lambda>r.
      case get_str r ''resource_id'' of None \<Rightarrow> False | Some rid \<Rightarrow> rid \<in> S) vs))]) =
    Inr (filter (\<lambda>r. r_id r \<in> S) rs)"
  unfolding parse_resources_iff
proof (intro exI conjI)
  show "list_all2 parsed_as (filter (\<lambda>r. case get_str r ''resource_id'' of None \<Rightarrow> False | Some rid \<Rightarrow> rid \<in> S) vs)
      (filter (\<lambda>r. r_id r \<in> S) rs)"
    by (rule list_all2_filter [OF assms(1)]) (simp add: parsed_as_fields(1))
  show "distinct (map r_id (filter (\<lambda>r. r_id r \<in> S) rs))"
    using assms(2) by (rule distinct_map_filter)
qed (use assms(3) in \<open>simp_all add: get_eq_Some json_get_def\<close>)

text \<open>
  The outcome of slicing a parsed ontology: the closure may fail to read an attribute, and the
  slice may be refused by the validator; otherwise it is the document of the slice.
\<close>

lemma slice_ontology_Inr:
  assumes "parse_resources doc = Inr rs"
  shows "slice_ontology doc ids kinds deps = Inr out \<longleftrightarrow>
    ontology_ok rs \<and> validate_selector doc ids kinds = Inr () \<and>
    (\<exists>vs version sel. get_array doc ''resources'' = Some vs \<and> get_str doc ''version'' = Some version \<and>
       selection vs ids kinds deps = Inr sel \<and>
       out = JObject [(''version'', JString version), (''resources'', JArray (filter (\<lambda>r.
         case get_str r ''resource_id'' of None \<Rightarrow> False | Some rid \<Rightarrow> rid \<in> set sel) vs))] \<and>
       ontology_ok (slice_of rs ids kinds deps))"
proof -
  from assms obtain vs version where doc: "get_str doc ''version'' = Some version" "version \<noteq> []"
      "get_array doc ''resources'' = Some vs" "list_all2 parsed_as vs rs" "distinct (map r_id rs)"
    by (auto simp: parse_resources_iff)
  then have v: "json_get doc ''version'' = Some (JString version)" by (simp add: get_eq_Some)
  have valid: "validate_ontology (JObject [(''version'', JString version), (''resources'', JArray (filter (\<lambda>r.
      case get_str r ''resource_id'' of None \<Rightarrow> False | Some rid \<Rightarrow> rid \<in> set sel) vs))]) = Inr () \<longleftrightarrow>
      ontology_ok (slice_of rs ids kinds deps)" if "selection vs ids kinds deps = Inr sel" for sel
    using parse_filtered [OF doc(4,5,2), of "set sel"] selection_set [OF doc(4,5) that]
    by (simp add: validate_ontology_Inr_iff slice_of_def)
  show ?thesis
    unfolding slice_ontology_def Let_def selection_def [symmetric]
    using valid by (auto simp: result_simps doc(1,3) v validate_ontology_Inr_iff assms)
qed

section \<open>Slicing with dependencies succeeds\<close>

text \<open>
  The closure follows every reference that the validator resolves except the value type of a
  property. Where value types are scalar, and only link types carry endpoint attributes, a
  slice with dependencies of a valid ontology is valid.
\<close>

definition scalar_properties :: "resource list \<Rightarrow> bool" where
  "scalar_properties rs \<longleftrightarrow>
     (\<forall>r \<in> set rs. r_kind r = ''property'' \<longrightarrow> (\<exists>t \<in> set SCALAR_TYPES. r_value_type r = Some t))"

definition endpoints_on_links :: "resource list \<Rightarrow> bool" where
  "endpoints_on_links rs \<longleftrightarrow>
     (\<forall>r \<in> set rs. r_kind r \<noteq> ''link_type'' \<longrightarrow>
        map_of (r_attributes r) ''source_type'' = None \<and> map_of (r_attributes r) ''target_type'' = None)"

lemma slice_of_closed:
  assumes "r \<in> set (slice_of rs ids kinds True)" "(r_id r, y) \<in> depends_on rs"
  shows "\<exists>s \<in> set (slice_of rs ids kinds True). r_id s = y"
proof -
  have "y \<in> slice_set rs ids kinds True"
    using assms by (auto simp: slice_of_def slice_set_def intro: rtrancl_into_rtrancl)
  moreover have "y \<in> r_id ` set rs" using assms(2) by (auto simp: depends_on_def)
  ultimately show ?thesis by (auto simp: slice_of_def)
qed

lemma has_type_slice:
  assumes "distinct (map r_id rs)" "r \<in> set (slice_of rs ids kinds True)"
    "(r_id r, y) \<in> depends_on rs" "has_type rs y"
  shows "has_type (slice_of rs ids kinds True) y"
proof -
  obtain s where s: "s \<in> set (slice_of rs ids kinds True)" "r_id s = y"
    using slice_of_closed [OF assms(2,3)] by blast
  obtain t where t: "t \<in> set rs" "r_id t = y" "is_type_kind (r_kind t)"
    using assms(4) by (auto simp: has_type_def)
  have "s \<in> set rs" using s by (simp add: slice_of_def)
  then have "s = t" using s t assms(1) by (auto simp: distinct_map inj_on_def)
  with s t show ?thesis by (auto simp: has_type_def)
qed

lemma resource_ok_slice:
  assumes dist: "distinct (map r_id rs)" and r: "r \<in> set (slice_of rs ids kinds True)"
    and scalar: "scalar_properties rs" and ok: "resource_ok rs r"
  shows "resource_ok (slice_of rs ids kinds True) r"
proof -
  let ?S = "slice_of rs ids kinds True"
  have rs: "r \<in> set rs" using r by (simp add: slice_of_def)
  note dep = depends_on_iff [OF dist rs]
  have typed: "has_type ?S y" if "has_type rs y" "y \<in> set (r_references r) \<union> set_option (r_owner r) \<union>
      set (r_parents r) \<union> named_by (map_of (r_attributes r) ''source_type'') \<union>
      named_by (map_of (r_attributes r) ''target_type'')" for y
  proof (rule has_type_slice [OF dist r _ that(1)])
    have "y \<in> r_id ` set rs" using that(1) by (auto simp: has_type_def)
    then show "(r_id r, y) \<in> depends_on rs" using that(2) dep by blast
  qed
  have ref: "y \<in> r_id ` set ?S" if "y \<in> set (r_references r)" "y \<in> r_id ` set rs" for y
  proof -
    have "(r_id r, y) \<in> depends_on rs" using that dep by blast
    then show ?thesis using slice_of_closed [OF r] by blast
  qed
  have endpoint: "link_endpoint_ok ?S r f" if le: "link_endpoint_ok rs r f" and f: "f = ''source_type'' \<or> f = ''target_type''" for f
  proof -
    obtain x where x: "map_of (r_attributes r) f = Some (JString x)" "has_type rs x"
      using le unfolding link_endpoint_ok_def by blast
    then have "x \<in> named_by (map_of (r_attributes r) f)" by (simp add: named_by_def)
    then have "has_type ?S x" using typed [OF x(2)] f by blast
    with x(1) show ?thesis by (auto simp: link_endpoint_ok_def)
  qed
  have property_ok: "\<exists>t. r_value_type r = Some t \<and> t \<noteq> [] \<and> (t \<in> set SCALAR_TYPES \<or> t \<in> r_id ` set ?S)"
    if "r_kind r = ''property''"
    using scalar rs that ok by (auto simp: scalar_properties_def resource_ok_def)
  show ?thesis
    unfolding resource_ok_def
    using ok [unfolded resource_ok_def] typed ref endpoint property_ok by (intro conjI allI impI ballI) auto
qed

lemma ontology_ok_slice:
  assumes dist: "distinct (map r_id rs)" and ok: "ontology_ok rs" and scalar: "scalar_properties rs"
  shows "ontology_ok (slice_of rs ids kinds True)"
proof -
  let ?S = "slice_of rs ids kinds True"
  have sub: "set ?S \<subseteq> set rs" by (auto simp: slice_of_def)
  then have inh: "inherits ?S \<subseteq> inherits rs" and own: "owned_by ?S \<subseteq> owned_by rs"
    unfolding inherits_def owned_by_def by blast+
  have "acyclic (inherits ?S)" "acyclic (owned_by ?S)"
    using ok inh own acyclic_subset by (auto simp: ontology_ok_def)
  moreover have "overrides_ok ?S"
    using ok sub trancl_mono [OF _ inh] unfolding ontology_ok_def overrides_ok_def by (meson image_mono subsetD)
  moreover have "\<forall>r \<in> set ?S. resource_ok ?S r"
    using ok sub resource_ok_slice [OF dist _ scalar] by (auto simp: ontology_ok_def)
  ultimately show ?thesis by (simp add: ontology_ok_def)
qed

lemma string_array_Some_JString [simp]: "string_array (Some (JString x)) f = Inr [x]" "string_array None f = Inr []"
  by (simp_all add: string_array_def)

lemma endpoint_readable:
  assumes "ontology_ok rs" "endpoints_on_links rs" "r \<in> set rs" "f = ''source_type'' \<or> f = ''target_type''"
  shows "\<exists>xs. string_array (map_of (r_attributes r) f) f = Inr xs"
proof (cases "r_kind r = ''link_type''")
  case True
  have "resource_ok rs r" using assms(1,3) by (simp add: ontology_ok_def)
  then have "link_endpoint_ok rs r ''source_type''" "link_endpoint_ok rs r ''target_type''"
    using True by (simp_all add: resource_ok_def)
  then have "link_endpoint_ok rs r f" using assms(4) by (elim disjE) simp_all
  then obtain x where "map_of (r_attributes r) f = Some (JString x)"
    unfolding link_endpoint_ok_def by blast
  then show ?thesis by simp
next
  case False
  with assms(2,3) have "map_of (r_attributes r) ''source_type'' = None"
      "map_of (r_attributes r) ''target_type'' = None"
    by (simp_all add: endpoints_on_links_def)
  then have "map_of (r_attributes r) f = None" using assms(4) by (elim disjE) simp_all
  then show ?thesis by simp
qed

lemma deps_ok_parsed:
  assumes "list_all2 parsed_as vs rs" "distinct (map r_id rs)" "ontology_ok rs" "endpoints_on_links rs"
  shows "deps_ok (slice_index vs) props x"
  unfolding deps_ok_def
proof (intro allI impI)
  fix v
  assume "bt_get (slice_index vs) x = Some v"
  then obtain r where r: "(v, r) \<in> set (zip vs rs)" by (auto simp: slice_index_get [OF assms(1,2)])
  then have parsed: "parsed_as v r" "r \<in> set rs"
    using assms(1) by (auto simp: list_all2_iff dest: set_zip_rightD)
  note readable = endpoint_readable [OF assms(3,4) parsed(2)]
  obtain st where st: "string_array (map_of (r_attributes r) ''source_type'') ''source_type'' = Inr st"
    using readable [of "''source_type''"] by blast
  obtain tt where tt: "string_array (map_of (r_attributes r) ''target_type'') ''target_type'' = Inr tt"
    using readable [of "''target_type''"] by blast
  obtain es ifs where parents:
      "string_array (map_of (r_attributes r) ''extends'') ''extends'' = Inr es"
      "string_array (map_of (r_attributes r) ''interfaces'') ''interfaces'' = Inr ifs"
    using parsed_as_fields(9) [OF parsed(1)] by blast
  show "\<exists>deps. dependencies_of props x v = Inr deps"
    by (simp add: dependencies_of_def Let_def parsed_as_fields [OF parsed(1)] parents st tt)
qed




end
