(* ===== verification/Ontology_Merge.thy ===== *)
theory Ontology_Merge
  imports Ontology_Validation Json_Merge
begin

text \<open>
  Difference and merge of whole ontologies (\<open>semantic_diff\<close>, \<open>merge_ontology\<close>, \<open>root_metadata\<close> and
  \<open>resource_values\<close> in \<open>platform/registry/src/semantics.rs\<close>): resources are matched by identity,
  not by position, and everything beside them is compared as the pseudo-resource \<open>$ontology\<close>.
  The observation \<open>resource_at\<close> reads one resource of a document.
\<close>

section \<open>Definitions\<close>

record merge_result =
  mr_ontology :: "json option"
  mr_conflicts :: "merge_conflict list"

definition root_metadata :: "json \<Rightarrow> json result" where
  "root_metadata ontology =
     and_then (option_context ''ontology object missing'' (as_object ontology)) (\<lambda>m.
     Inr (JObject (filter (\<lambda>(key, _). key \<noteq> ''resources'') m)))"

definition resource_values :: "json \<Rightarrow> (string, json) btree_map result" where
  "resource_values ontology =
     and_then (validate_ontology ontology) (\<lambda>_.
     and_then (option_context ''ontology_resources_missing'' (get_array ontology ''resources''))
     (\<lambda>resources.
     and_then (try_map (\<lambda>r.
       and_then (required_string r ''resource_id'' ''ontology resource'') (\<lambda>rid. Inr (rid, r)))
       resources) (\<lambda>entries.
     Inr (bt_collect entries))))"

definition resource_changes :: "string \<Rightarrow> json option \<Rightarrow> json option \<Rightarrow> semantic_change list" where
  "resource_changes rid before after =
     (case (before, after) of
        (None, Some a) \<Rightarrow>
          [\<lparr>sc_resource_id = rid, sc_operation = ''add_resource'', sc_path = [],
            sc_before = None, sc_after = Some a\<rparr>]
      | (Some b, None) \<Rightarrow>
          [\<lparr>sc_resource_id = rid, sc_operation = ''remove_resource'', sc_path = [],
            sc_before = Some b, sc_after = None\<rparr>]
      | (Some b, Some a) \<Rightarrow> diff_value rid [] b a
      | (None, None) \<Rightarrow> [])"

definition semantic_diff :: "json \<Rightarrow> json \<Rightarrow> semantic_change list result" where
  "semantic_diff base target =
     and_then (resource_values base) (\<lambda>base_resources.
     and_then (resource_values target) (\<lambda>target_resources.
     let ids = bs_collect (bt_keys base_resources @ bt_keys target_resources);
         changes = concat (map (\<lambda>rid.
           resource_changes rid (bt_get base_resources rid) (bt_get target_resources rid)) ids) in
     and_then (root_metadata base) (\<lambda>base_metadata.
     and_then (root_metadata target) (\<lambda>target_metadata.
     Inr (changes @ diff_value ''$ontology'' [] base_metadata target_metadata)))))"

definition merge_ontology :: "json \<Rightarrow> json \<Rightarrow> json \<Rightarrow> merge_result result" where
  "merge_ontology base left right =
     and_then (validate_ontology base) (\<lambda>_.
     and_then (validate_ontology left) (\<lambda>_.
     and_then (validate_ontology right) (\<lambda>_.
     and_then (resource_values base) (\<lambda>base_resources.
     and_then (resource_values left) (\<lambda>left_resources.
     and_then (resource_values right) (\<lambda>right_resources.
     let ids = bs_collect (bt_keys base_resources @ bt_keys left_resources @ bt_keys right_resources);
         merged = map (\<lambda>rid. merge_value rid [] (bt_get base_resources rid)
           (bt_get left_resources rid) (bt_get right_resources rid)) ids in
     and_then (root_metadata base) (\<lambda>base_metadata.
     and_then (root_metadata left) (\<lambda>left_metadata.
     and_then (root_metadata right) (\<lambda>right_metadata.
     let metadata = merge_value ''$ontology'' [] (Some base_metadata) (Some left_metadata)
           (Some right_metadata);
         conflicts = concat (map snd merged) @ snd metadata in
     if conflicts \<noteq> [] then Inr \<lparr>mr_ontology = None, mr_conflicts = conflicts\<rparr>
     else
       and_then (option_context ''ontology merge metadata missing'' (fst metadata)) (\<lambda>ontology.
       and_then (option_context ''ontology merge metadata invalid'' (as_object ontology)) (\<lambda>m.
       let ontology = JObject (json_insert ''resources'' (JArray (List.map_filter fst merged)) m) in
       and_then (validate_ontology ontology) (\<lambda>_.
       Inr \<lparr>mr_ontology = Some ontology, mr_conflicts = conflicts\<rparr>))))))))))))"

section \<open>Reading one resource\<close>

definition resource_at :: "json \<Rightarrow> string \<Rightarrow> json option" where
  "resource_at doc x =
     Option.bind (get_array doc ''resources'') (List.find (\<lambda>v. get_str v ''resource_id'' = Some x))"

definition metadata_of :: "json \<Rightarrow> json" where
  "metadata_of doc = JObject (filter (\<lambda>(key, _). key \<noteq> ''resources'') (the (as_object doc)))"

lemma find_zip:
  "list_all2 parsed_as vs rs \<Longrightarrow>
    List.find (\<lambda>v. get_str v ''resource_id'' = Some x) vs = map_of (zip (map r_id rs) vs) x"
  by (induction rule: list_all2_induct) (simp_all add: parsed_as_fields(1) eq_commute)

lemma valid_document:
  assumes "validate_ontology doc = Inr ()"
  obtains rs vs where "parse_resources doc = Inr rs" "get_array doc ''resources'' = Some vs"
    "list_all2 parsed_as vs rs" "distinct (map r_id rs)" "ontology_ok rs"
  using assms unfolding validate_ontology_Inr_iff parse_resources_iff by blast

lemma valid_object: "validate_ontology doc = Inr () \<Longrightarrow> \<exists>m. doc = JObject m"
  by (erule valid_document) (cases doc; simp add: get_array_def json_get_def)

lemma root_metadata_valid: "validate_ontology doc = Inr () \<Longrightarrow> root_metadata doc = Inr (metadata_of doc)"
  by (drule valid_object) (auto simp: root_metadata_def metadata_of_def as_object_def)

lemma required_id_parsed:
  "parsed_as v r \<Longrightarrow> required_string v ''resource_id'' ''ontology resource'' = Inr (r_id r)"
  using parsed_as_fields(1,7) [of v r] by (simp add: required_string_def valid_id_def)

lemma resource_values_valid:
  assumes "validate_ontology doc = Inr ()"
  obtains m where "resource_values doc = Inr m" "bt_get m = resource_at doc"
    "set (bt_keys m) = {x. resource_at doc x \<noteq> None}"
proof -
  obtain rs vs where doc: "get_array doc ''resources'' = Some vs" "list_all2 parsed_as vs rs"
      "distinct (map r_id rs)"
    using assms by (rule valid_document)
  have "try_map (\<lambda>r. and_then (required_string r ''resource_id'' ''ontology resource'') (\<lambda>rid. Inr (rid, r))) vs =
      Inr (zip (map r_id rs) vs)"
    using doc(2) by (induction rule: list_all2_induct) (simp_all add: required_id_parsed)
  then have m: "resource_values doc = Inr (bt_collect (zip (map r_id rs) vs))"
    using assms doc(1) by (simp add: resource_values_def)
  have "length vs = length rs" using doc(2) by (rule list_all2_lengthD)
  then have "bt_get (bt_collect (zip (map r_id rs) vs)) x = resource_at doc x" for x
    using doc(3) by (simp add: bt_get_collect_distinct resource_at_def doc(1) find_zip [OF doc(2)])
  then have get: "bt_get (bt_collect (zip (map r_id rs) vs)) = resource_at doc" by (rule ext)
  then have "set (bt_keys (bt_collect (zip (map r_id rs) vs))) = {x. resource_at doc x \<noteq> None}"
    by (simp add: set_eq_iff bt_contains_get flip: bt_contains_iff)
  with m get show thesis by (rule that)
qed

lemma resource_at_id: "resource_at doc x = Some v \<Longrightarrow> json_get v ''resource_id'' = Some (JString x)"
  by (cases "get_array doc ''resources''") (auto simp: resource_at_def find_Some_iff get_eq_Some)

lemma wf_resource_at: "wf_json doc \<Longrightarrow> wf_opt (resource_at doc x)"
proof (cases "resource_at doc x")
  case (Some v)
  assume "wf_json doc"
  then have "wf_opt (json_get doc ''resources'')" by (rule wf_json_get)
  with Some show ?thesis
    by (cases "json_get doc ''resources''")
      (auto simp: resource_at_def get_array_def find_Some_iff list_all_length split: bind_splits)
qed simp

section \<open>What a merge computes\<close>

definition merged_at :: "json \<Rightarrow> json \<Rightarrow> json \<Rightarrow> string \<Rightarrow> json option \<times> merge_conflict list" where
  "merged_at b l r x = merge_value x [] (resource_at b x) (resource_at l x) (resource_at r x)"

definition merged_metadata :: "json \<Rightarrow> json \<Rightarrow> json \<Rightarrow> json option \<times> merge_conflict list" where
  "merged_metadata b l r =
     merge_value ''$ontology'' [] (Some (metadata_of b)) (Some (metadata_of l)) (Some (metadata_of r))"

definition merged_document :: "string list \<Rightarrow> json \<Rightarrow> json \<Rightarrow> json \<Rightarrow> json_map \<Rightarrow> json" where
  "merged_document ids b l r m =
     JObject (json_insert ''resources''
       (JArray (List.map_filter (\<lambda>x. fst (merged_at b l r x)) ids)) m)"

lemma map_filter_map: "List.map_filter f (map g xs) = List.map_filter (\<lambda>x. f (g x)) xs"
  by (simp add: List.map_filter_def filter_map comp_def)

lemma metadata_object: "\<exists>m. metadata_of doc = JObject m"
  by (simp add: metadata_of_def)

lemma merged_metadata_object: "\<exists>m. fst (merged_metadata b l r) = Some (JObject m)"
proof -
  obtain bm lm rm where m: "metadata_of b = JObject bm" "metadata_of l = JObject lm" "metadata_of r = JObject rm"
    using metadata_object by metis
  show ?thesis
    unfolding merged_metadata_def m
  proof (cases rule: merge_value_cases [of "Some (JObject lm)" "Some (JObject rm)" "''$ontology''" "[]" "Some (JObject bm)"])
    case (objects bo lo ro)
    from merge_value_objects(1) [OF objects(1-3), of "''$ontology''" "[]"]
    show "\<exists>m. fst (merge_value ''$ontology'' [] (Some (JObject bm)) (Some (JObject lm)) (Some (JObject rm))) =
        Some (JObject m)" by blast
  qed auto
qed

text \<open>Merging valid documents, in terms of what they hold.\<close>

lemma merge_ontology_valid:
  assumes "validate_ontology b = Inr ()" "validate_ontology l = Inr ()" "validate_ontology r = Inr ()"
  obtains ids m where
    "set ids = {x. resource_at b x \<noteq> None \<or> resource_at l x \<noteq> None \<or> resource_at r x \<noteq> None}"
    "fst (merged_metadata b l r) = Some (JObject m)"
    "merge_ontology b l r =
      (let conflicts = concat (map (\<lambda>x. snd (merged_at b l r x)) ids) @ snd (merged_metadata b l r) in
       if conflicts \<noteq> [] then Inr \<lparr>mr_ontology = None, mr_conflicts = conflicts\<rparr>
       else and_then (validate_ontology (merged_document ids b l r m)) (\<lambda>_.
         Inr \<lparr>mr_ontology = Some (merged_document ids b l r m), mr_conflicts = conflicts\<rparr>))"
proof -
  obtain mb where mb: "resource_values b = Inr mb" "bt_get mb = resource_at b"
      "set (bt_keys mb) = {x. resource_at b x \<noteq> None}"
    using assms(1) by (rule resource_values_valid)
  obtain ml where ml: "resource_values l = Inr ml" "bt_get ml = resource_at l"
      "set (bt_keys ml) = {x. resource_at l x \<noteq> None}"
    using assms(2) by (rule resource_values_valid)
  obtain mr where mr: "resource_values r = Inr mr" "bt_get mr = resource_at r"
      "set (bt_keys mr) = {x. resource_at r x \<noteq> None}"
    using assms(3) by (rule resource_values_valid)
  obtain m where m: "fst (merged_metadata b l r) = Some (JObject m)" using merged_metadata_object by blast
  let ?ids = "bs_collect (bt_keys mb @ bt_keys ml @ bt_keys mr)"
  have "set ?ids = {x. resource_at b x \<noteq> None \<or> resource_at l x \<noteq> None \<or> resource_at r x \<noteq> None}"
    by (auto simp: mb(3) ml(3) mr(3))
  moreover note m
  moreover have "merge_ontology b l r =
      (let conflicts = concat (map (\<lambda>x. snd (merged_at b l r x)) ?ids) @ snd (merged_metadata b l r) in
       if conflicts \<noteq> [] then Inr \<lparr>mr_ontology = None, mr_conflicts = conflicts\<rparr>
       else and_then (validate_ontology (merged_document ?ids b l r m)) (\<lambda>_.
         Inr \<lparr>mr_ontology = Some (merged_document ?ids b l r m), mr_conflicts = conflicts\<rparr>))"
    unfolding merge_ontology_def assms mb(1) ml(1) mr(1) and_then_simps root_metadata_valid [OF assms(1)]
      root_metadata_valid [OF assms(2)] root_metadata_valid [OF assms(3)] mb(2) ml(2) mr(2)
      Let_def map_map comp_def map_filter_map merged_at_def [symmetric] merged_metadata_def [symmetric]
      m option_context_simps as_simps merged_document_def ..
  ultimately show thesis by (rule that)
qed

lemma merge_ontology_inputs_valid:
  "merge_ontology b l r = Inr res \<Longrightarrow>
    validate_ontology b = Inr () \<and> validate_ontology l = Inr () \<and> validate_ontology r = Inr ()"
  by (auto simp: merge_ontology_def result_simps)

text \<open>Merging keeps the identity of a resource, so the merged document is keyed like its inputs.\<close>

lemma merge_value_keeps_field:
  assumes "\<And>v. b = Some v \<Longrightarrow> json_get v k = Some (JString x)"
    and "\<And>v. l = Some v \<Longrightarrow> json_get v k = Some (JString x)"
    and "\<And>v. r = Some v \<Longrightarrow> json_get v k = Some (JString x)"
    and "fst (merge_value rid p b l r) = Some m"
  shows "json_get m k = Some (JString x)"
proof (cases rule: merge_value_cases [of l r rid p b])
  case (objects bo lo ro)
  then have "map_of bo k = Some (JString x)" "map_of lo k = Some (JString x)" "map_of ro k = Some (JString x)"
    using assms(1-3) by (auto simp: json_get_def)
  then have "fst (merge_value rid (p @ [k]) (map_of bo k) (map_of lo k) (map_of ro k)) = Some (JString x)"
    by (simp add: merge_value_agree)
  then show ?thesis
    using merge_value_objects(1) [OF objects(1-3) [unfolded objects(4-6)], of rid p] assms(4)
    unfolding objects(4-6) by (auto simp: json_get_def)
qed (use assms in auto)

lemma merged_at_id: "fst (merged_at b l r x) = Some v \<Longrightarrow> get_str v ''resource_id'' = Some x"
  unfolding merged_at_def get_eq_Some
  by (rule merge_value_keeps_field) (auto dest: resource_at_id)

lemma find_map_filter:
  assumes "\<And>y v. g y = Some v \<Longrightarrow> get_str v ''resource_id'' = Some y"
  shows "List.find (\<lambda>v. get_str v ''resource_id'' = Some x) (List.map_filter g ids) =
    (if x \<in> set ids then g x else None)"
proof (induction ids)
  case (Cons y ids)
  then show ?case using assms [of y] by (cases "g y") (auto simp: List.map_filter_simps)
qed (simp add: List.map_filter_simps)

lemma resource_at_merged:
  assumes "set ids = {x. resource_at b x \<noteq> None \<or> resource_at l x \<noteq> None \<or> resource_at r x \<noteq> None}"
  shows "resource_at (merged_document ids b l r m) x = fst (merged_at b l r x)"
proof -
  have "fst (merged_at b l r x) = None" if "x \<notin> set ids"
    using that assms by (auto simp: merged_at_def)
  moreover have "get_array (merged_document ids b l r m) ''resources'' =
      Some (List.map_filter (\<lambda>x. fst (merged_at b l r x)) ids)"
    by (simp add: merged_document_def get_eq_Some json_get_def update_conv')
  ultimately show ?thesis
    using find_map_filter [of "\<lambda>x. fst (merged_at b l r x)" x ids, OF merged_at_id]
    by (simp add: resource_at_def)
qed

lemma metadata_field: "k \<noteq> ''resources'' \<Longrightarrow> validate_ontology doc = Inr () \<Longrightarrow>
  field (Some (metadata_of doc)) k = json_get doc k"
proof (drule valid_object, elim exE)
  fix m
  assume "k \<noteq> ''resources''" "doc = JObject m"
  then show "field (Some (metadata_of doc)) k = json_get doc k"
    by (induction m arbitrary: doc) (auto simp: metadata_of_def json_get_def)
qed

lemma wf_metadata: "wf_json doc \<Longrightarrow> validate_ontology doc = Inr () \<Longrightarrow> wf_json (metadata_of doc)"
  by (drule valid_object) (auto simp: metadata_of_def list_all_iff distinct_map_filter)

section \<open>Correctness of the merge\<close>

lemma merge_ontology_clean:
  assumes "merge_ontology b l r = Inr \<lparr>mr_ontology = Some out, mr_conflicts = cs\<rparr>"
    and "wf_json b" "wf_json l" "wf_json r"
  shows "cs = []" "validate_ontology out = Inr ()"
    "reconciles (resource_at out x) (resource_at b x) (resource_at l x) (resource_at r x)"
    "k \<noteq> ''resources'' \<Longrightarrow> reconciles (json_get out k) (json_get b k) (json_get l k) (json_get r k)"
proof -
  note valid = merge_ontology_inputs_valid [OF assms(1)]
  obtain ids m where ids: "set ids = {x. resource_at b x \<noteq> None \<or> resource_at l x \<noteq> None \<or> resource_at r x \<noteq> None}"
    and m: "fst (merged_metadata b l r) = Some (JObject m)"
    and eq: "merge_ontology b l r =
      (let conflicts = concat (map (\<lambda>x. snd (merged_at b l r x)) ids) @ snd (merged_metadata b l r) in
       if conflicts \<noteq> [] then Inr \<lparr>mr_ontology = None, mr_conflicts = conflicts\<rparr>
       else and_then (validate_ontology (merged_document ids b l r m)) (\<lambda>_.
         Inr \<lparr>mr_ontology = Some (merged_document ids b l r m), mr_conflicts = conflicts\<rparr>))"
    by (rule merge_ontology_valid [OF valid [THEN conjunct1] valid [THEN conjunct2, THEN conjunct1]
          valid [THEN conjunct2, THEN conjunct2]])
  define conflicts where
    "conflicts = concat (map (\<lambda>x. snd (merged_at b l r x)) ids) @ snd (merged_metadata b l r)"
  have "conflicts = [] \<and> cs = [] \<and> out = merged_document ids b l r m \<and> validate_ontology out = Inr ()"
    using assms(1) unfolding eq Let_def conflicts_def [symmetric]
    by (cases "conflicts = []") (auto simp: result_simps)
  then have none: "conflicts = []" and "cs = []" and out: "out = merged_document ids b l r m"
    and ok: "validate_ontology out = Inr ()" by blast+
  then show "cs = []" "validate_ontology out = Inr ()" by blast+
  have clean: "snd (merged_at b l r x) = []"
  proof (cases "x \<in> set ids")
    case False
    then show ?thesis using ids by (simp add: merged_at_def)
  qed (use none in \<open>simp add: conflicts_def\<close>)
  then show "reconciles (resource_at out x) (resource_at b x) (resource_at l x) (resource_at r x)"
    unfolding out resource_at_merged [OF ids] merged_at_def
    by (intro ontology_merge.clean_merge_reconciles wf_resource_at assms(2-4))
  assume k: "k \<noteq> ''resources''"
  have "snd (merged_metadata b l r) = []" using none by (simp add: conflicts_def)
  then have "reconciles (fst (merged_metadata b l r)) (Some (metadata_of b)) (Some (metadata_of l)) (Some (metadata_of r))"
    unfolding merged_metadata_def
    by (intro ontology_merge.clean_merge_reconciles) (use assms(2-4) valid in \<open>simp_all add: wf_metadata\<close>)
  from reconciles_field [OF this, of k]
  have "reconciles (field (fst (merged_metadata b l r)) k) (json_get b k) (json_get l k) (json_get r k)"
    using valid metadata_field [OF k] by simp
  moreover have "json_get out k = field (fst (merged_metadata b l r)) k"
    using k by (simp add: out merged_document_def json_get_def m update_conv')
  ultimately show "reconciles (json_get out k) (json_get b k) (json_get l k) (json_get r k)" by simp
qed

text \<open>A conflict quotes three versions of one place that differ pairwise and cannot be merged by field.\<close>

definition conflict_in :: "merge_conflict \<Rightarrow> json option \<Rightarrow> json option \<Rightarrow> json option \<Rightarrow> bool" where
  "conflict_in c b l r \<longleftrightarrow>
     mc_base c = opt_path (mc_path c) b \<and> mc_left c = opt_path (mc_path c) l \<and>
     mc_right c = opt_path (mc_path c) r \<and>
     \<not> opt_eq (mc_left c) (mc_right c) \<and> \<not> opt_eq (mc_left c) (mc_base c) \<and>
     \<not> opt_eq (mc_right c) (mc_base c) \<and>
     \<not> (\<exists>bo lo ro. mc_base c = Some (JObject bo) \<and> mc_left c = Some (JObject lo) \<and>
         mc_right c = Some (JObject ro))"

lemma merge_conflict_in:
  assumes "c \<in> set (snd (merge_value rid [] b l r))"
  shows "mc_resource_id c = rid \<and> conflict_in c b l r"
  using merge_value_conflict_genuine [OF assms] by (auto simp: conflict_in_def)

text \<open>
  C36. A merge that reports a conflict returns no ontology, and each conflict is a place, of a resource or
  of the ontology's own metadata, where both sides changed the base differently.
\<close>

lemma merge_ontology_conflicts:
  assumes "merge_ontology b l r = Inr res" "c \<in> set (mr_conflicts res)"
  shows "mr_ontology res = None \<and>
    (conflict_in c (resource_at b (mc_resource_id c)) (resource_at l (mc_resource_id c))
       (resource_at r (mc_resource_id c)) \<or>
     mc_resource_id c = ''$ontology'' \<and>
     conflict_in c (Some (metadata_of b)) (Some (metadata_of l)) (Some (metadata_of r)))"
proof -
  note valid = merge_ontology_inputs_valid [OF assms(1)]
  obtain ids m where eq: "merge_ontology b l r =
      (let conflicts = concat (map (\<lambda>x. snd (merged_at b l r x)) ids) @ snd (merged_metadata b l r) in
       if conflicts \<noteq> [] then Inr \<lparr>mr_ontology = None, mr_conflicts = conflicts\<rparr>
       else and_then (validate_ontology (merged_document ids b l r m)) (\<lambda>_.
         Inr \<lparr>mr_ontology = Some (merged_document ids b l r m), mr_conflicts = conflicts\<rparr>))"
    by (rule merge_ontology_valid [OF valid [THEN conjunct1] valid [THEN conjunct2, THEN conjunct1]
          valid [THEN conjunct2, THEN conjunct2]])
  define conflicts where
    "conflicts = concat (map (\<lambda>x. snd (merged_at b l r x)) ids) @ snd (merged_metadata b l r)"
  have "mr_ontology res = None \<and> mr_conflicts res = conflicts"
    using assms unfolding eq Let_def conflicts_def [symmetric]
    by (cases "conflicts = []") (auto simp: result_simps)
  moreover from this assms(2) consider x where "c \<in> set (snd (merged_at b l r x))"
    | "c \<in> set (snd (merged_metadata b l r))"
    by (auto simp: conflicts_def)
  then have "conflict_in c (resource_at b (mc_resource_id c)) (resource_at l (mc_resource_id c))
       (resource_at r (mc_resource_id c)) \<or>
     mc_resource_id c = ''$ontology'' \<and>
     conflict_in c (Some (metadata_of b)) (Some (metadata_of l)) (Some (metadata_of r))"
    unfolding merged_at_def merged_metadata_def by cases (metis merge_conflict_in)+
  ultimately show ?thesis by blast
qed

lemma merge_ontology_conflicts_witness:
  "\<exists>res c. merge_ontology base_ontology left_ontology rival_ontology = Inr res \<and> c \<in> set (mr_conflicts res) \<and>
    mr_ontology res = None"
proof -
  have "case merge_ontology base_ontology left_ontology rival_ontology of Inl _ \<Rightarrow> False
    | Inr res \<Rightarrow> mr_conflicts res \<noteq> []" by code_simp
  then obtain res where res: "merge_ontology base_ontology left_ontology rival_ontology = Inr res" "mr_conflicts res \<noteq> []"
    by (auto split: sum.splits)
  then have "hd (mr_conflicts res) \<in> set (mr_conflicts res)" by simp
  with merge_ontology_conflicts [OF res(1) this] res(1) show ?thesis by blast
qed

section \<open>Correctness of the difference\<close>

lemma diff_root_Nil_iff:
  assumes "wf_json (JObject b)" "wf_json (JObject a)"
  shows "diff_value rid [] (JObject b) (JObject a) = [] \<longleftrightarrow>
    (\<forall>k. k \<noteq> ''resource_id'' \<longrightarrow> opt_eq (map_of b k) (map_of a k))"
proof (cases "json_eq (JObject b) (JObject a)")
  case True
  then show ?thesis using assms json_eq_object by (auto simp: diff_value.simps [of rid "[]"])
next
  case False
  have "diff_field rid p x y = []" if "opt_eq x y" for p x y
    using that by (cases x; cases y) (auto simp: diff_field_def diff_value.simps [of rid p])
  then have "diff_value rid [] (JObject b) (JObject a) = []"
    if "\<forall>k. k \<noteq> ''resource_id'' \<longrightarrow> opt_eq (map_of b k) (map_of a k)"
    using that set_diff_value_objects [OF False, of rid "[]"] by auto
  moreover have "diff_value rid [] (JObject b) (JObject a) \<noteq> []"
    if "k \<noteq> ''resource_id''" "\<not> opt_eq (map_of b k) (map_of a k)" for k
  proof -
    have "\<not> opt_eq (get_path [k] (JObject b)) (get_path [k] (JObject a))"
      using that(2) by (cases "map_of b k"; cases "map_of a k") (simp_all add: json_get_def)
    from diff_value_complete [OF assms this, of "[]" rid] that(1) show ?thesis by auto
  qed
  ultimately show ?thesis by blast
qed

lemma resource_changes_Nil_iff:
  assumes "wf_opt x" "wf_opt y"
    and "\<And>v. x = Some v \<Longrightarrow> json_get v ''resource_id'' = Some (JString s)"
    and "\<And>v. y = Some v \<Longrightarrow> json_get v ''resource_id'' = Some (JString s)"
  shows "resource_changes rid x y = [] \<longleftrightarrow> opt_eq x y"
proof (cases "x = None \<or> y = None")
  case True
  then show ?thesis by (cases x; cases y) (auto simp: resource_changes_def)
next
  case False
  then obtain v w where vw: "x = Some v" "y = Some w" by auto
  then obtain b a where o: "v = JObject b" "w = JObject a"
    using assms(3) [OF vw(1)] assms(4) [OF vw(2)] by (cases v; cases w) (simp_all add: json_get_def)
  have "map_of b ''resource_id'' = Some (JString s)" "map_of a ''resource_id'' = Some (JString s)"
    using assms(3,4) vw o by (auto simp: json_get_def)
  then have "(\<forall>k. k \<noteq> ''resource_id'' \<longrightarrow> opt_eq (map_of b k) (map_of a k)) \<longleftrightarrow>
      (\<forall>k. opt_eq (map_of b k) (map_of a k))"
    by (metis json_eq.simps(6) option.rel_inject(2))
  moreover have "wf_json (JObject b)" "wf_json (JObject a)" using assms(1,2) vw o by simp_all
  ultimately show ?thesis
    using vw o diff_root_Nil_iff [of b a rid] json_eq_object [of b a]
    by (simp add: resource_changes_def)
qed

lemma semantic_diff_valid:
  assumes "validate_ontology b = Inr ()" "validate_ontology t = Inr ()"
  obtains ids where "set ids = {x. resource_at b x \<noteq> None \<or> resource_at t x \<noteq> None}"
    "semantic_diff b t =
      Inr (concat (map (\<lambda>x. resource_changes x (resource_at b x) (resource_at t x)) ids) @
        diff_value ''$ontology'' [] (metadata_of b) (metadata_of t))"
proof -
  obtain mb where mb: "resource_values b = Inr mb" "bt_get mb = resource_at b"
      "set (bt_keys mb) = {x. resource_at b x \<noteq> None}"
    using assms(1) by (rule resource_values_valid)
  obtain mt where mt: "resource_values t = Inr mt" "bt_get mt = resource_at t"
      "set (bt_keys mt) = {x. resource_at t x \<noteq> None}"
    using assms(2) by (rule resource_values_valid)
  show thesis
  proof (rule that)
    show "set (bs_collect (bt_keys mb @ bt_keys mt)) = {x. resource_at b x \<noteq> None \<or> resource_at t x \<noteq> None}"
      by (auto simp: mb(3) mt(3))
    show "semantic_diff b t = Inr (concat (map (\<lambda>x. resource_changes x (resource_at b x) (resource_at t x))
        (bs_collect (bt_keys mb @ bt_keys mt))) @ diff_value ''$ontology'' [] (metadata_of b) (metadata_of t))"
      by (simp add: semantic_diff_def mb(1,2) mt(1,2) root_metadata_valid assms)
  qed
qed

text \<open>
  C37. The semantic diff of two valid ontologies is empty exactly when they agree on every resource and on
  every other root field (but a root field called \<open>resource_id\<close>, which the code skips).
\<close>

lemma semantic_diff_Nil_iff:
  assumes "validate_ontology b = Inr ()" "validate_ontology t = Inr ()" "wf_json b" "wf_json t"
  shows "semantic_diff b t = Inr [] \<longleftrightarrow>
    (\<forall>x. opt_eq (resource_at b x) (resource_at t x)) \<and>
    (\<forall>k. k \<noteq> ''resources'' \<and> k \<noteq> ''resource_id'' \<longrightarrow> opt_eq (json_get b k) (json_get t k))"
proof -
  obtain ids where ids: "set ids = {x. resource_at b x \<noteq> None \<or> resource_at t x \<noteq> None}"
    and eq: "semantic_diff b t =
      Inr (concat (map (\<lambda>x. resource_changes x (resource_at b x) (resource_at t x)) ids) @
        diff_value ''$ontology'' [] (metadata_of b) (metadata_of t))"
    using assms(1,2) by (rule semantic_diff_valid)
  have res: "resource_changes x (resource_at b x) (resource_at t x) = [] \<longleftrightarrow> opt_eq (resource_at b x) (resource_at t x)" for x
    by (rule resource_changes_Nil_iff) (use assms(3,4) wf_resource_at resource_at_id in auto)
  have "(\<forall>x \<in> set ids. opt_eq (resource_at b x) (resource_at t x)) \<longleftrightarrow> (\<forall>x. opt_eq (resource_at b x) (resource_at t x))"
    unfolding ids by (metis (mono_tags, lifting) mem_Collect_eq option.rel_inject(1))
  moreover obtain mb mt where m: "metadata_of b = JObject mb" "metadata_of t = JObject mt"
    using metadata_object by metis
  have "diff_value ''$ontology'' [] (metadata_of b) (metadata_of t) = [] \<longleftrightarrow>
      (\<forall>k. k \<noteq> ''resource_id'' \<longrightarrow> opt_eq (field (Some (metadata_of b)) k) (field (Some (metadata_of t)) k))"
    using diff_root_Nil_iff [OF wf_metadata [OF assms(3,1), unfolded m] wf_metadata [OF assms(4,2), unfolded m]]
    by (simp add: m)
  moreover have "field (Some (metadata_of d)) ''resources'' = None" for d
    by (auto simp: metadata_of_def map_of_eq_None_iff)
  then have "(\<forall>k. k \<noteq> ''resource_id'' \<longrightarrow> opt_eq (field (Some (metadata_of b)) k) (field (Some (metadata_of t)) k)) \<longleftrightarrow>
      (\<forall>k. k \<noteq> ''resources'' \<and> k \<noteq> ''resource_id'' \<longrightarrow> opt_eq (json_get b k) (json_get t k))"
    using metadata_field assms(1,2) by (metis option.rel_inject(1))
  ultimately show ?thesis by (simp add: eq res)
qed

lemma semantic_diff_Nil_iff_witness:
  "semantic_diff base_ontology left_ontology \<noteq> Inr [] \<and>
   \<not> opt_eq (resource_at base_ontology ''t'') (resource_at left_ontology ''t'')"
proof -
  have "validate_ontology base_ontology = Inr ()" "validate_ontology left_ontology = Inr ()"
    "wf_json base_ontology" "wf_json left_ontology" by code_simp+
  note iff = semantic_diff_Nil_iff [OF this]
  have "\<not> opt_eq (resource_at base_ontology ''t'') (resource_at left_ontology ''t'')" by code_simp
  with iff show ?thesis by blast
qed

end
