(* ===== verification/Registry.thy ===== *)
theory Registry
  imports Revision_Store Ontology_Slice Ontology_Merge
begin

text \<open>
  The Registry domain service (\<open>platform/registry/src/domain.rs\<close>): one definition per operation, over
  the storage boundary \<open>'s platform\<close>. A mutation loads the tenant's head, checks the caller's
  expectations, changes one record of the loaded state and commits it on the revision it loaded.
\<close>

section \<open>Identities and views\<close>

definition MAX_TENANT_VALIDATIONS :: nat where
  "MAX_TENANT_VALIDATIONS = 100"

definition valid_tenant :: "string \<Rightarrow> bool" where
  "valid_tenant s \<longleftrightarrow> s \<noteq> [] \<and> length s \<le> 64 \<and> list_all is_name_byte s"

definition valid_identity :: "string \<Rightarrow> bool" where
  "valid_identity s \<longleftrightarrow> s \<noteq> [] \<and> length s \<le> 128 \<and>
     list_all (\<lambda>c. is_ascii_alphanumeric c \<or> c \<in> {CHR ''_'', CHR ''-'', CHR ''.'', CHR '':''}) s"

definition validate_identity :: "string \<Rightarrow> string \<Rightarrow> unit result" where
  "validate_identity tenant_id resource_id =
     ensure (valid_tenant tenant_id) ''invalid tenant ID'' (
     ensure (valid_identity resource_id) ''invalid resource ID'' (Inr ()))"

record tenant_view =
  tv_tenant_id :: string
  tv_head_revision_id :: string

record pipeline_view =
  pv_head_revision_id :: string
  pv_record :: pipeline_record

record put_pipeline_input =
  pi_tenant_id :: string
  pi_pipeline_id :: string
  pi_name :: string
  pi_owner_id :: string
  pi_definition :: json
  pi_author :: string
  pi_message :: string
  pi_expected_revision_id :: "string option"
  pi_create_only :: bool

record put_ontology_input =
  oi_tenant_id :: string
  oi_ontology_id :: string
  oi_display_name :: string
  oi_ontology :: json
  oi_author :: string
  oi_message :: string
  oi_expected_revision_id :: "string option"
  oi_create_only :: bool

record ontology_view =
  ov_revision_id :: string
  ov_record :: ontology_record

record ontology_slice_view =
  sv_publication :: ontology_publication_record
  sv_binding :: ontology_binding_record
  sv_ontology :: json

section \<open>Helpers\<close>

definition live_pipeline :: "string \<Rightarrow> tenant_state \<Rightarrow> string \<Rightarrow> pipeline_record result" where
  "live_pipeline msg st pipeline_id =
     option_context msg
       (case bt_get (ts_pipelines st) pipeline_id of
          None \<Rightarrow> None
        | Some r \<Rightarrow> if pipe_deleted_at_ms r = None then Some r else None)"

definition pipeline_from_snapshot :: "snapshot \<Rightarrow> string \<Rightarrow> pipeline_view result" where
  "pipeline_from_snapshot sn pipeline_id =
     and_then (live_pipeline ''pipeline unavailable'' (sn_state sn) pipeline_id) (\<lambda>r.
     Inr \<lparr>pv_head_revision_id = sn_revision_id sn, pv_record = r\<rparr>)"

definition bindings_of :: "tenant_state \<Rightarrow> string \<Rightarrow> ontology_binding_record list" where
  "bindings_of st pipeline_id =
     filter (\<lambda>b. bd_pipeline_id b = pipeline_id) (bt_values (ts_bindings st))"

definition bindings_for :: "tenant_state \<Rightarrow> string \<Rightarrow> pipeline_binding list" where
  "bindings_for st pipeline_id =
     map (\<lambda>b. \<lparr>pb_block_id = bd_block_id b, pb_ontology_id = bd_ontology_id b\<rparr>) (bindings_of st pipeline_id)"

definition production_publication :: "tenant_state \<Rightarrow> string \<Rightarrow> ontology_publication_record option" where
  "production_publication st ontology_id =
     (case Option.bind (bt_get (ts_ontologies st) ontology_id) or_production_publication of
        None \<Rightarrow> None
      | Some p \<Rightarrow> if op_lifecycle p = ''production'' then Some p else None)"

definition validate_pipeline_ontology_dependencies :: "tenant_state \<Rightarrow> string \<Rightarrow> unit result" where
  "validate_pipeline_ontology_dependencies st pipeline_id =
     and_then (option_context ''pipeline unavailable'' (bt_get (ts_pipelines st) pipeline_id)) (\<lambda>pipeline.
     and_then (validate_pipeline (pipe_definition pipeline) (bindings_for st pipeline_id)) (\<lambda>_.
     try_each (\<lambda>b. ensure (production_publication st (bd_ontology_id b) \<noteq> None)
       ''unpublished ontology dependency'' (Inr ())) (bindings_of st pipeline_id)))"

fun canonicalize :: "json \<Rightarrow> json" where
  "canonicalize (JObject m) = JObject (fold (\<lambda>(k, v). json_insert k v) (map (\<lambda>(k, v). (k, canonicalize v)) m) [])"
| "canonicalize (JArray xs) = JArray (map canonicalize xs)"
| "canonicalize v = v"

definition content_hash :: "'s platform \<Rightarrow> json \<Rightarrow> string" where
  "content_hash pf v = pl_sha256_hex pf (pl_to_vec pf (canonicalize v))"

definition touch ::
  "string option \<Rightarrow> string \<Rightarrow> string \<Rightarrow> string \<Rightarrow> int \<Rightarrow> ontology_authoring_state \<Rightarrow> ontology_authoring_state" where
  "touch previous branch operation author at_ms oa =
     oa\<lparr>oa_previous_revision_id := previous, oa_last_branch := branch, oa_last_operation := operation,
        oa_last_author := author, oa_updated_at_ms := at_ms\<rparr>"

definition validate_workspace_size :: "'s platform \<Rightarrow> ontology_record \<Rightarrow> unit result" where
  "validate_workspace_size pf r =
     ensure (length (pl_to_vec pf (encode_ontology_record r)) \<le> 2 * 1024 * 1024)
       ''ontology workspace size limit exceeded'' (Inr ())"

section \<open>Tenants\<close>

definition validate_tenants :: "'s platform \<Rightarrow> string list \<Rightarrow> ('s, bool list) io" where
  "validate_tenants pf tenant_ids =
     io_ensure (tenant_ids \<noteq> [] \<and> length tenant_ids \<le> MAX_TENANT_VALIDATIONS)
       ''tenant validation list must contain 1 to 100 entries'' (
     io_map (\<lambda>t. io_ensure (valid_tenant t) ''invalid tenant ID'' (rs_tenant_exists pf t)) tenant_ids)"

definition tenant :: "'s platform \<Rightarrow> string \<Rightarrow> ('s, tenant_view) io" where
  "tenant pf tenant_id =
     io_ensure (valid_tenant tenant_id) ''invalid tenant ID'' (
     io_then (rs_load pf tenant_id None) (\<lambda>sn.
     lift_io (Inr \<lparr>tv_tenant_id = tenant_id, tv_head_revision_id = sn_revision_id sn\<rparr>)))"

definition put_tenant :: "'s platform \<Rightarrow> string \<Rightarrow> ('s, tenant_view) io" where
  "put_tenant pf tenant_id =
     io_ensure (valid_tenant tenant_id) ''invalid tenant ID'' (
     io_then (rs_ensure_tenant pf tenant_id) (\<lambda>sn.
     lift_io (Inr \<lparr>tv_tenant_id = tenant_id, tv_head_revision_id = tn_revision_id sn\<rparr>)))"

definition delete_tenant :: "'s platform \<Rightarrow> string \<Rightarrow> string \<Rightarrow> ('s, unit) io" where
  "delete_tenant pf tenant_id confirmation_tenant_id =
     io_ensure (valid_tenant tenant_id) ''invalid tenant ID'' (
     io_ensure (tenant_id = confirmation_tenant_id) ''tenant purge confirmation mismatch'' (
     rs_delete_tenant pf tenant_id))"

section \<open>Composition over pinned revisions\<close>

lemma length_bt_insert_new: "bt_get m k = None \<Longrightarrow> length (bt_insert k v m) = Suc (length m)"
  by (induction k v m rule: bt_insert.induct) (auto simp: bt_get_Cons split: if_splits)

definition load_child ::
  "'s platform \<Rightarrow> string \<Rightarrow> bool \<Rightarrow> pipeline_reference \<Rightarrow> ('s, json \<times> pipeline_reference list) io" where
  "load_child pf tenant_id require_ontologies reference =
     io_then (rs_load pf tenant_id (Some (pr_revision_id reference))) (\<lambda>sn.
     io_then (lift_io (if require_ontologies
       then validate_pipeline_ontology_dependencies (sn_state sn) (pr_pipeline_id reference) else Inr ())) (\<lambda>_.
     io_then (lift_io (live_pipeline ''Referenced pipeline unavailable'' (sn_state sn) (pr_pipeline_id reference))) (\<lambda>child.
     io_then (lift_io (references (pipe_definition child))) (\<lambda>refs.
     lift_io (Inr (pipe_definition child, refs))))))"

text \<open>The loop of \<open>compile_composition\<close>; \<open>pending\<close> is a stack whose top is its last element.\<close>

function compose_loop ::
  "'s platform \<Rightarrow> string \<Rightarrow> bool \<Rightarrow> pipeline_reference list \<Rightarrow> definitions \<Rightarrow> ('s, definitions) io" where
  "compose_loop pf tenant_id require_ontologies pending definitions s =
     (if pending = [] then (Inr definitions, s)
      else
        let reference = last pending; rest = butlast pending;
            key = (pr_pipeline_id reference, pr_revision_id reference) in
        if bt_get definitions key \<noteq> None then compose_loop pf tenant_id require_ontologies rest definitions s
        else if \<not> length definitions < MAX_TRANSFERS
        then (bail ''Composition exceeds three pipeline transfers'', s)
        else case load_child pf tenant_id require_ontologies reference s of
            (Inl e, s') \<Rightarrow> (Inl e, s')
          | (Inr (child, refs), s') \<Rightarrow>
              compose_loop pf tenant_id require_ontologies (rest @ refs) (bt_insert key child definitions) s')"
  by pat_completeness auto
termination
  by (relation "measures [\<lambda>(pf, t, q, pending, definitions, s). MAX_TRANSFERS - length definitions,
        \<lambda>(pf, t, q, pending, definitions, s). length pending]")
    (auto simp: length_bt_insert_new)

declare compose_loop.simps [simp del]

definition compile_composition ::
  "'s platform \<Rightarrow> string \<Rightarrow> string \<Rightarrow> string \<Rightarrow> json \<Rightarrow> bool \<Rightarrow> ('s, json) io" where
  "compile_composition pf tenant_id pipeline_id revision_id document require_ontologies =
     io_then (lift_io (references document)) (\<lambda>pending.
     io_then (compose_loop pf tenant_id require_ontologies pending []) (\<lambda>definitions.
     lift_io (compile pipeline_id revision_id document definitions)))"

section \<open>Pipelines\<close>

definition expected_pipeline_head :: "put_pipeline_input \<Rightarrow> string \<Rightarrow> unit result" where
  "expected_pipeline_head input head =
     (case pi_expected_revision_id input of
        Some expected \<Rightarrow>
          ensure (valid_revision expected) ''invalid expected revision ID'' (
          ensure (head = expected) ''pipeline head changed'' (Inr ()))
      | None \<Rightarrow> ensure (pi_create_only input) ''expected revision ID is required'' (Inr ()))"

definition new_pipeline_record ::
  "put_pipeline_input \<Rightarrow> pipeline_record option \<Rightarrow> string \<Rightarrow> int \<Rightarrow> pipeline_record" where
  "new_pipeline_record input existing head now_ms =
     \<lparr>pipe_authoring = default_authoring,
      pipe_previous_revision_id = map_option (\<lambda>_. head) existing,
      pipe_pipeline_id = pi_pipeline_id input,
      pipe_name = pi_name input,
      pipe_owner_id = pi_owner_id input,
      pipe_published_revision_id = Option.bind existing pipe_published_revision_id,
      pipe_definition = pi_definition input,
      pipe_author_id = pi_author input,
      pipe_message = pi_message input,
      pipe_created_at_ms = (case existing of None \<Rightarrow> now_ms | Some r \<Rightarrow> pipe_created_at_ms r),
      pipe_updated_at_ms = now_ms,
      pipe_deleted_at_ms = None\<rparr>"

definition put_pipeline :: "'s platform \<Rightarrow> put_pipeline_input \<Rightarrow> ('s, pipeline_view) io" where
  "put_pipeline pf input =
     io_then (lift_io (validate_identity (pi_tenant_id input) (pi_pipeline_id input))) (\<lambda>_.
     io_ensure (pi_name input \<noteq> []) ''pipeline name is required'' (
     io_ensure (pi_owner_id input \<noteq> []) ''pipeline owner is required'' (
     io_ensure (pi_author input \<noteq> []) ''pipeline author is required'' (
     io_ensure (pi_message input \<noteq> []) ''pipeline message is required'' (
     io_then (rs_ensure_tenant pf (pi_tenant_id input)) (\<lambda>_.
     io_then (rs_load pf (pi_tenant_id input) None) (\<lambda>sn.
     let existing = bt_get (ts_pipelines (sn_state sn)) (pi_pipeline_id input);
         st = (sn_state sn)\<lparr>ts_pipelines := bt_remove (pi_pipeline_id input) (ts_pipelines (sn_state sn))\<rparr> in
     io_ensure (\<not> pi_create_only input \<or> existing = None) ''pipeline already exists'' (
     io_ensure (pi_create_only input \<or> existing \<noteq> None) ''pipeline unavailable'' (
     io_then (lift_io (expected_pipeline_head input (sn_revision_id sn))) (\<lambda>_.
     io_ensure (\<not> (case existing of None \<Rightarrow> False | Some r \<Rightarrow> as_enabled (pipe_authoring r)))
       ''managed pipeline requires explicit authoring commands'' (
     io_then (lift_io (validate_pipeline_structure (pi_definition input))) (\<lambda>_.
     io_then (compile_composition pf (pi_tenant_id input) (pi_pipeline_id input) (sn_revision_id sn)
       (pi_definition input) False) (\<lambda>_.
     io_then (now pf) (\<lambda>now_ms.
     let record = new_pipeline_record input existing (sn_revision_id sn) now_ms;
         st = st\<lparr>ts_pipelines := bt_insert (pi_pipeline_id input) record (ts_pipelines st)\<rparr> in
     io_then (rs_commit pf (pi_tenant_id input) (sn_revision_id sn) st (pi_author input) (pi_message input)) (\<lambda>revision.
     io_then (lift_io (option_context ''committed pipeline missing from state''
       (bt_get (ts_pipelines st) (pi_pipeline_id input)))) (\<lambda>record.
     lift_io (Inr \<lparr>pv_head_revision_id = revision, pv_record = record\<rparr>)))))))))))))))))"

definition current_pipeline :: "'s platform \<Rightarrow> string \<Rightarrow> string \<Rightarrow> ('s, pipeline_view) io" where
  "current_pipeline pf tenant_id pipeline_id =
     io_then (lift_io (validate_identity tenant_id pipeline_id)) (\<lambda>_.
     io_then (rs_load pf tenant_id None) (\<lambda>sn.
     lift_io (pipeline_from_snapshot sn pipeline_id)))"

definition pipeline_revision :: "'s platform \<Rightarrow> string \<Rightarrow> string \<Rightarrow> string \<Rightarrow> ('s, pipeline_view) io" where
  "pipeline_revision pf tenant_id pipeline_id revision_id =
     io_then (lift_io (validate_identity tenant_id pipeline_id)) (\<lambda>_.
     io_ensure (valid_revision revision_id) ''invalid revision ID'' (
     io_then (rs_load pf tenant_id (Some revision_id)) (\<lambda>sn.
     lift_io (pipeline_from_snapshot sn pipeline_id))))"

definition list_pipelines :: "'s platform \<Rightarrow> string \<Rightarrow> nat \<Rightarrow> ('s, pipeline_view list) io" where
  "list_pipelines pf tenant_id limit =
     io_ensure (valid_tenant tenant_id) ''invalid tenant ID'' (
     io_then (rs_load pf tenant_id None) (\<lambda>sn.
     lift_io (Inr (map (\<lambda>r. \<lparr>pv_head_revision_id = sn_revision_id sn, pv_record = r\<rparr>)
       (take (min limit 100)
         (filter (\<lambda>r. pipe_deleted_at_ms r = None) (bt_values (ts_pipelines (sn_state sn)))))))))"

definition publish_pipeline :: "'s platform \<Rightarrow> string \<Rightarrow> string \<Rightarrow> string \<Rightarrow> ('s, pipeline_view) io" where
  "publish_pipeline pf tenant_id pipeline_id revision_id =
     io_then (lift_io (validate_identity tenant_id pipeline_id)) (\<lambda>_.
     io_ensure (valid_revision revision_id) ''invalid revision ID'' (
     io_then (rs_load pf tenant_id (Some revision_id)) (\<lambda>pinned.
     io_then (lift_io (live_pipeline ''pipeline unavailable at revision'' (sn_state pinned) pipeline_id)) (\<lambda>candidate.
     io_ensure (\<not> as_enabled (pipe_authoring candidate))
       ''managed pipeline requires explicit approval and deployment'' (
     io_then (lift_io (validate_pipeline (pipe_definition candidate) (bindings_for (sn_state pinned) pipeline_id))) (\<lambda>_.
     io_then (lift_io (validate_pipeline_ontology_dependencies (sn_state pinned) pipeline_id)) (\<lambda>_.
     io_then (compile_composition pf tenant_id pipeline_id revision_id (pipe_definition candidate) True) (\<lambda>_.
     io_then (rs_load pf tenant_id None) (\<lambda>current.
     io_ensure (sn_revision_id current = revision_id) ''pipeline head changed'' (
     io_then (lift_io (option_context ''pipeline unavailable''
       (bt_get (ts_pipelines (sn_state current)) pipeline_id))) (\<lambda>pipeline.
     io_then (now pf) (\<lambda>now_ms.
     let record = pipeline\<lparr>pipe_published_revision_id := Some revision_id,
           pipe_previous_revision_id := Some (sn_revision_id current), pipe_updated_at_ms := now_ms\<rparr>;
         st = (sn_state current)\<lparr>ts_pipelines := bt_insert pipeline_id record (ts_pipelines (sn_state current))\<rparr> in
     io_then (rs_commit pf tenant_id revision_id st (pipe_author_id record) ''Publish pipeline'') (\<lambda>head.
     io_then (lift_io (option_context ''committed pipeline missing from state''
       (bt_get (ts_pipelines st) pipeline_id))) (\<lambda>record.
     lift_io (Inr \<lparr>pv_head_revision_id = head, pv_record = record\<rparr>)))))))))))))))"

definition delete_pipeline :: "'s platform \<Rightarrow> string \<Rightarrow> string \<Rightarrow> string \<Rightarrow> ('s, string) io" where
  "delete_pipeline pf tenant_id pipeline_id expected_revision_id =
     io_then (lift_io (validate_identity tenant_id pipeline_id)) (\<lambda>_.
     io_then (rs_load pf tenant_id None) (\<lambda>sn.
     io_ensure (sn_revision_id sn = expected_revision_id) ''pipeline head changed'' (
     io_then (lift_io (option_context ''pipeline unavailable'' (bt_get (ts_pipelines (sn_state sn)) pipeline_id))) (\<lambda>pipeline.
     io_then (now pf) (\<lambda>now_ms.
     let record = pipeline\<lparr>pipe_deleted_at_ms := Some now_ms, pipe_published_revision_id := None\<rparr>;
         st = (sn_state sn)\<lparr>ts_pipelines := bt_insert pipeline_id record (ts_pipelines (sn_state sn))\<rparr> in
     rs_commit pf tenant_id expected_revision_id st ''registry'' ''Delete pipeline'')))))"

definition runtime_pipeline :: "'s platform \<Rightarrow> string \<Rightarrow> string \<Rightarrow> string \<Rightarrow> ('s, pipeline_record) io" where
  "runtime_pipeline pf tenant_id pipeline_id revision_id =
     io_then (lift_io (validate_identity tenant_id pipeline_id)) (\<lambda>_.
     io_ensure (valid_revision revision_id) ''invalid revision ID'' (
     io_then (rs_load pf tenant_id (Some revision_id)) (\<lambda>sn.
     io_then (lift_io (validate_pipeline_ontology_dependencies (sn_state sn) pipeline_id)) (\<lambda>_.
     io_then (lift_io (live_pipeline ''pipeline unavailable at revision'' (sn_state sn) pipeline_id)) (\<lambda>record.
     io_then (compile_composition pf tenant_id pipeline_id revision_id (pipe_definition record) True) (\<lambda>compiled.
     lift_io (Inr (record\<lparr>pipe_definition := compiled\<rparr>))))))))"

definition list_published_pipelines :: "'s platform \<Rightarrow> string \<Rightarrow> nat \<Rightarrow> ('s, pipeline_view list) io" where
  "list_published_pipelines pf tenant_id limit =
     io_ensure (valid_tenant tenant_id) ''invalid tenant ID'' (
     io_then (rs_load pf tenant_id None) (\<lambda>current.
     let published = take (min limit 100)
       (List.map_filter (\<lambda>p. map_option (\<lambda>revision. (pipe_pipeline_id p, revision)) (pipe_published_revision_id p))
         (bt_values (ts_pipelines (sn_state current)))) in
     io_map (\<lambda>(pipeline_id, revision).
       io_then (runtime_pipeline pf tenant_id pipeline_id revision) (\<lambda>record.
       lift_io (Inr \<lparr>pv_head_revision_id = revision, pv_record = record\<rparr>))) published))"

section \<open>Ontologies\<close>

definition expected_ontology_head :: "put_ontology_input \<Rightarrow> string \<Rightarrow> unit result" where
  "expected_ontology_head input head =
     (case oi_expected_revision_id input of
        Some expected \<Rightarrow> ensure (head = expected) ''ontology head changed'' (Inr ())
      | None \<Rightarrow> ensure (oi_create_only input) ''expected revision ID is required'' (Inr ()))"

text \<open>What a write keeps of the existing record: its workspace, its publication and its birth.\<close>

definition kept_ontology ::
  "'s platform \<Rightarrow> put_ontology_input \<Rightarrow> ontology_record option
    \<Rightarrow> ('s, ontology_authoring_state \<times> ontology_publication_record option \<times> int) io" where
  "kept_ontology pf input existing =
     (case existing of
        Some r \<Rightarrow> lift_io (
          ensure (oa_deleted_at_ms (or_authoring r) = None) ''ontology is deleted'' (
          ensure (case json_get (or_ontology r) ''plugin_origin'' of
              None \<Rightarrow> True
            | Some origin \<Rightarrow> opt_eq (json_get (oi_ontology input) ''plugin_origin'') (Some origin))
            ''ontology plugin provenance is immutable'' (
          Inr (or_authoring r, or_production_publication r, or_created_at_ms r))))
      | None \<Rightarrow> io_then (now pf) (\<lambda>now_ms. lift_io (Inr (default_ontology_authoring, None, now_ms))))"

definition new_ontology_record ::
  "put_ontology_input \<Rightarrow> string \<Rightarrow> ontology_authoring_state \<times> ontology_publication_record option \<times> int
    \<Rightarrow> int \<Rightarrow> ontology_record" where
  "new_ontology_record input head kept now_ms =
     (case kept of (authoring, publication, created_at_ms) \<Rightarrow>
       \<lparr>or_authoring = touch (if oi_create_only input then None else Some head) ''main'' ''save_draft''
          (oi_author input) now_ms authoring,
        or_ontology_id = oi_ontology_id input,
        or_display_name = oi_display_name input,
        or_ontology = oi_ontology input,
        or_author = oi_author input,
        or_message = oi_message input,
        or_created_at_ms = created_at_ms,
        or_production_publication = publication\<rparr>)"

definition put_ontology :: "'s platform \<Rightarrow> put_ontology_input \<Rightarrow> ('s, ontology_view) io" where
  "put_ontology pf input =
     io_then (lift_io (validate_identity (oi_tenant_id input) (oi_ontology_id input))) (\<lambda>_.
     io_ensure (oi_display_name input \<noteq> []) ''ontology display name is required'' (
     io_ensure (oi_author input \<noteq> []) ''ontology author is required'' (
     io_ensure (oi_message input \<noteq> []) ''ontology message is required'' (
     io_then (lift_io (validate_ontology (oi_ontology input))) (\<lambda>_.
     io_then (rs_ensure_tenant pf (oi_tenant_id input)) (\<lambda>_.
     io_then (rs_load pf (oi_tenant_id input) None) (\<lambda>sn.
     let existing = bt_get (ts_ontologies (sn_state sn)) (oi_ontology_id input);
         st = (sn_state sn)\<lparr>ts_ontologies := bt_remove (oi_ontology_id input) (ts_ontologies (sn_state sn))\<rparr> in
     io_ensure (\<not> oi_create_only input \<or> existing = None) ''ontology already exists'' (
     io_ensure (oi_create_only input \<or> existing \<noteq> None) ''ontology unavailable'' (
     io_then (lift_io (expected_ontology_head input (sn_revision_id sn))) (\<lambda>_.
     io_then (kept_ontology pf input existing) (\<lambda>kept.
     io_then (now pf) (\<lambda>now_ms.
     let record = new_ontology_record input (sn_revision_id sn) kept now_ms;
         st = st\<lparr>ts_ontologies := bt_insert (oi_ontology_id input) record (ts_ontologies st)\<rparr> in
     io_then (lift_io (validate_workspace_size pf record)) (\<lambda>_.
     io_then (rs_commit pf (oi_tenant_id input) (sn_revision_id sn) st (oi_author input) (oi_message input)) (\<lambda>revision.
     io_then (lift_io (option_context ''committed ontology missing from state''
       (bt_get (ts_ontologies st) (oi_ontology_id input)))) (\<lambda>record.
     lift_io (Inr \<lparr>ov_revision_id = revision, ov_record = record\<rparr>))))))))))))))))"

definition ontology_at :: "'s platform \<Rightarrow> string \<Rightarrow> string \<Rightarrow> string \<Rightarrow> ('s, ontology_view) io" where
  "ontology_at pf tenant_id ontology_id revision_id =
     io_then (lift_io (validate_identity tenant_id ontology_id)) (\<lambda>_.
     io_ensure (valid_revision revision_id) ''invalid revision ID'' (
     io_then (rs_load pf tenant_id (Some revision_id)) (\<lambda>sn.
     io_then (lift_io (option_context ''ontology unavailable at revision''
       (bt_get (ts_ontologies (sn_state sn)) ontology_id))) (\<lambda>record.
     io_then (lift_io (validate_ontology (or_ontology record))) (\<lambda>_.
     lift_io (Inr \<lparr>ov_revision_id = sn_revision_id sn, ov_record = record\<rparr>))))))"

definition current_ontology :: "'s platform \<Rightarrow> string \<Rightarrow> string \<Rightarrow> ('s, ontology_view) io" where
  "current_ontology pf tenant_id ontology_id =
     io_then (lift_io (validate_identity tenant_id ontology_id)) (\<lambda>_.
     io_then (rs_load pf tenant_id None) (\<lambda>sn.
     io_then (lift_io (option_context ''ontology unavailable'' (bt_get (ts_ontologies (sn_state sn)) ontology_id))) (\<lambda>record.
     io_ensure (oa_deleted_at_ms (or_authoring record) = None) ''ontology unavailable'' (
     io_then (lift_io (validate_ontology (or_ontology record))) (\<lambda>_.
     lift_io (Inr \<lparr>ov_revision_id = sn_revision_id sn, ov_record = record\<rparr>))))))"

definition publish_ontology ::
  "'s platform \<Rightarrow> string \<Rightarrow> string \<Rightarrow> string \<Rightarrow> string \<Rightarrow> string \<Rightarrow> json \<Rightarrow> bool
    \<Rightarrow> ('s, ontology_publication_record) io" where
  "publish_ontology pf tenant_id ontology_id display_name publication_id revision_id metadata create_only =
     io_then (lift_io (validate_identity tenant_id ontology_id)) (\<lambda>_.
     io_ensure (valid_identity publication_id) ''invalid publication ID'' (
     io_then (ontology_at pf tenant_id ontology_id revision_id) (\<lambda>pinned.
     io_then (rs_load pf tenant_id None) (\<lambda>current.
     io_then (lift_io (option_context ''ontology unavailable'' (bt_get (ts_ontologies (sn_state current)) ontology_id))) (\<lambda>existing.
     io_ensure (\<not> create_only \<or> or_production_publication existing = None) ''ontology already published'' (
     io_then (lift_io (option_context ''ontology version missing'' (get_str (or_ontology (ov_record pinned)) ''version''))) (\<lambda>version.
     io_then (now pf) (\<lambda>published_at.
     let hash = content_hash pf (or_ontology (ov_record pinned));
         publication =
           \<lparr>op_publication_id = publication_id, op_revision_id = revision_id, op_lifecycle = ''production'',
            op_metadata = metadata, op_base_version = version, op_base_hash = hash, op_effective_hash = hash,
            op_author = or_author (ov_record pinned), op_message = or_message (ov_record pinned),
            op_published_at_ms = published_at, op_retired_at_ms = None\<rparr> in
     io_ensure (oa_deleted_at_ms (or_authoring existing) = None \<and>
         oa_deleted_at_ms (or_authoring (ov_record pinned)) = None) ''ontology is deleted'' (
     io_then (now pf) (\<lambda>touched_at.
     let record = existing\<lparr>or_display_name := display_name, or_production_publication := Some publication,
           or_message := ''Publish ontology'',
           or_authoring := touch (Some (sn_revision_id current)) ''main'' ''publish'' ''registry'' touched_at
             (or_authoring existing)\<rparr>;
         st = (sn_state current)\<lparr>ts_ontologies := bt_insert ontology_id record (ts_ontologies (sn_state current))\<rparr> in
     io_then (rs_commit pf tenant_id (sn_revision_id current) st ''registry'' ''Publish ontology'') (\<lambda>_.
     lift_io (option_context ''committed ontology publication missing from state''
       (Option.bind (bt_get (ts_ontologies st) ontology_id) or_production_publication)))))))))))))"

definition retire_ontology :: "'s platform \<Rightarrow> string \<Rightarrow> string \<Rightarrow> string \<Rightarrow> string \<Rightarrow> ('s, string) io" where
  "retire_ontology pf tenant_id ontology_id publication_id revision_id =
     io_then (lift_io (validate_identity tenant_id ontology_id)) (\<lambda>_.
     io_then (rs_load pf tenant_id None) (\<lambda>sn.
     io_then (lift_io (option_context ''ontology unavailable'' (bt_get (ts_ontologies (sn_state sn)) ontology_id))) (\<lambda>existing.
     io_then (lift_io (option_context ''ontology publication unavailable'' (or_production_publication existing))) (\<lambda>publication.
     io_ensure (op_publication_id publication = publication_id \<and> op_revision_id publication = revision_id \<and>
         op_lifecycle publication = ''production'') ''ontology publication changed'' (
     io_then (now pf) (\<lambda>retired_at.
     io_then (now pf) (\<lambda>touched_at.
     let record = existing\<lparr>
           or_production_publication :=
             Some (publication\<lparr>op_lifecycle := ''retired'', op_retired_at_ms := Some retired_at\<rparr>),
           or_message := ''Retire ontology'',
           or_authoring := touch (Some (sn_revision_id sn)) ''main'' ''retire'' ''registry'' touched_at
             (or_authoring existing)\<rparr>;
         st = (sn_state sn)\<lparr>ts_ontologies := bt_insert ontology_id record (ts_ontologies (sn_state sn))\<rparr> in
     rs_commit pf tenant_id (sn_revision_id sn) st ''registry'' ''Retire ontology'')))))))"

definition list_ontologies :: "'s platform \<Rightarrow> string \<Rightarrow> nat \<Rightarrow> ('s, ontology_record list) io" where
  "list_ontologies pf tenant_id limit =
     io_ensure (valid_tenant tenant_id) ''invalid tenant ID'' (
     io_then (rs_load pf tenant_id None) (\<lambda>sn.
     lift_io (Inr (take (min limit 100)
       (filter (\<lambda>r. oa_deleted_at_ms (or_authoring r) = None) (bt_values (ts_ontologies (sn_state sn))))))))"

section \<open>Bindings\<close>

definition validate_published_binding ::
  "'s platform \<Rightarrow> string \<Rightarrow> tenant_state \<Rightarrow> ontology_binding_record \<Rightarrow> ('s, unit) io" where
  "validate_published_binding pf tenant_id st binding =
     io_ensure (valid_identity (bd_ontology_id binding)) ''invalid ontology ID'' (
     io_then (lift_io (option_context ''ontology is not published''
       (production_publication st (bd_ontology_id binding)))) (\<lambda>publication.
     io_then (ontology_at pf tenant_id (bd_ontology_id binding) (op_revision_id publication)) (\<lambda>published.
     lift_io (validate_ontology_selector (or_ontology (ov_record published))
       (bd_resource_ids binding) (bd_resource_kinds binding)))))"

definition has_block :: "json \<Rightarrow> string \<Rightarrow> bool" where
  "has_block document block_id \<longleftrightarrow>
     (case get_array document ''pipeline'' of
        None \<Rightarrow> False
      | Some steps \<Rightarrow> list_ex (\<lambda>step. get_str step ''step'' = Some block_id) steps)"

definition put_binding ::
  "'s platform \<Rightarrow> string \<Rightarrow> string \<Rightarrow> ontology_binding_record \<Rightarrow> ('s, ontology_binding_record \<times> string) io" where
  "put_binding pf tenant_id expected_revision_id binding =
     io_then (lift_io (validate_identity tenant_id (bd_pipeline_id binding))) (\<lambda>_.
     io_ensure (valid_identity (bd_block_id binding)) ''invalid block ID'' (
     io_ensure (valid_identity (bd_ontology_id binding)) ''invalid ontology ID'' (
     io_then (rs_ensure_tenant pf tenant_id) (\<lambda>_.
     io_then (rs_load pf tenant_id None) (\<lambda>sn.
     io_ensure (sn_revision_id sn = expected_revision_id) ''registry revision changed'' (
     io_then (lift_io (option_context ''pipeline unavailable''
       (bt_get (ts_pipelines (sn_state sn)) (bd_pipeline_id binding)))) (\<lambda>pipeline.
     io_ensure (has_block (pipe_definition pipeline) (bd_block_id binding)) ''pipeline block unavailable'' (
     io_then (validate_published_binding pf tenant_id (sn_state sn) binding) (\<lambda>_.
     let key = binding_key (bd_pipeline_id binding) (bd_block_id binding);
         st = (sn_state sn)\<lparr>ts_bindings := bt_insert key binding (ts_bindings (sn_state sn))\<rparr> in
     io_then (rs_commit pf tenant_id expected_revision_id st ''registry'' ''Update ontology binding'') (\<lambda>revision.
     io_then (lift_io (option_context ''committed binding missing from state'' (bt_get (ts_bindings st) key))) (\<lambda>b.
     lift_io (Inr (b, revision)))))))))))))"

definition list_bindings ::
  "'s platform \<Rightarrow> string \<Rightarrow> string option \<Rightarrow> string option \<Rightarrow> nat \<Rightarrow> ('s, ontology_binding_record list) io" where
  "list_bindings pf tenant_id pipeline_id revision_id limit =
     io_ensure (valid_tenant tenant_id) ''invalid tenant ID'' (
     io_ensure (case pipeline_id of None \<Rightarrow> True | Some x \<Rightarrow> valid_identity x) ''invalid pipeline ID'' (
     io_then (rs_load pf tenant_id revision_id) (\<lambda>sn.
     lift_io (Inr (take (min limit 100)
       (filter (\<lambda>b. case pipeline_id of None \<Rightarrow> True | Some x \<Rightarrow> bd_pipeline_id b = x)
         (bt_values (ts_bindings (sn_state sn)))))))))"

definition ontology_slice :: "'s platform \<Rightarrow> string \<Rightarrow> string \<Rightarrow> string \<Rightarrow> string \<Rightarrow> ('s, ontology_slice_view) io" where
  "ontology_slice pf tenant_id pipeline_id pipeline_revision_id block_id =
     io_then (lift_io (validate_identity tenant_id pipeline_id)) (\<lambda>_.
     io_ensure (valid_identity block_id) ''invalid block ID'' (
     io_then (rs_load pf tenant_id (Some pipeline_revision_id)) (\<lambda>sn.
     io_ensure (bt_contains (ts_pipelines (sn_state sn)) pipeline_id) ''pipeline unavailable at revision'' (
     io_then (lift_io (option_context ''ontology binding unavailable at revision''
       (bt_get (ts_bindings (sn_state sn)) (binding_key pipeline_id block_id)))) (\<lambda>binding.
     io_then (lift_io (option_context ''ontology publication unavailable at revision''
       (production_publication (sn_state sn) (bd_ontology_id binding)))) (\<lambda>publication.
     io_then (ontology_at pf tenant_id (bd_ontology_id binding) (op_revision_id publication)) (\<lambda>view.
     io_then (lift_io (slice_ontology (or_ontology (ov_record view)) (bd_resource_ids binding)
       (bd_resource_kinds binding) (bd_include_dependencies binding))) (\<lambda>sliced.
     lift_io (Inr \<lparr>sv_publication = publication, sv_binding = binding, sv_ontology = sliced\<rparr>)))))))))"

section \<open>Comparing and merging revisions\<close>

definition diff_ontology ::
  "'s platform \<Rightarrow> string \<Rightarrow> string \<Rightarrow> string \<Rightarrow> string \<Rightarrow> ('s, semantic_change list) io" where
  "diff_ontology pf tenant_id ontology_id base_revision_id target_revision_id =
     io_then (ontology_at pf tenant_id ontology_id base_revision_id) (\<lambda>base.
     io_then (ontology_at pf tenant_id ontology_id target_revision_id) (\<lambda>target.
     lift_io (semantic_diff (or_ontology (ov_record base)) (or_ontology (ov_record target)))))"

definition merge_ontology_revisions ::
  "'s platform \<Rightarrow> string \<Rightarrow> string \<Rightarrow> string \<Rightarrow> string \<Rightarrow> string \<Rightarrow> string \<Rightarrow> string \<Rightarrow> string
    \<Rightarrow> ('s, merge_result \<times> ontology_view option) io" where
  "merge_ontology_revisions pf tenant_id ontology_id base_revision_id left_revision_id right_revision_id
     expected_revision_id author message =
     io_then (rs_ensure_tenant pf tenant_id) (\<lambda>_.
     io_then (ontology_at pf tenant_id ontology_id base_revision_id) (\<lambda>base.
     io_then (ontology_at pf tenant_id ontology_id left_revision_id) (\<lambda>left.
     io_then (ontology_at pf tenant_id ontology_id right_revision_id) (\<lambda>right.
     io_then (lift_io (merge_ontology (or_ontology (ov_record base)) (or_ontology (ov_record left))
       (or_ontology (ov_record right)))) (\<lambda>outcome.
     case mr_ontology outcome of
       None \<Rightarrow> lift_io (Inr (outcome, None))
     | Some ontology \<Rightarrow>
         io_then (put_ontology pf
           \<lparr>oi_tenant_id = tenant_id, oi_ontology_id = ontology_id,
            oi_display_name = or_display_name (ov_record left), oi_ontology = ontology, oi_author = author,
            oi_message = message, oi_expected_revision_id = Some expected_revision_id, oi_create_only = False\<rparr>)
           (\<lambda>view. lift_io (Inr (outcome, Some view))))))))"

end
