(* ===== verification/Memory_Store.thy ===== *)
theory Memory_Store
  imports Revision_Store "HOL-Library.Word"
begin

text \<open>
  The in-memory revision store with which the repository exercises the Registry
  (\<open>platform/registry/tests/domain.rs\<close>; \<open>grpc.rs\<close> carries the same without the failure switch). A stored
  artifact is its JSON value. Lock poisoning needs a panic while the lock is held and is left out.
  The store is proved to keep the contracts \<open>revision_store\<close> and \<open>durable_store\<close>.
\<close>

section \<open>Definitions\<close>

record stored_snapshot =
  ss_revision_id :: string
  ss_state_json :: json

record memory_store =
  ms_tenants :: "(string, stored_snapshot list) btree_map"
  ms_fail_next_commit :: bool

definition INITIAL_REVISION :: string where
  "INITIAL_REVISION = ''00000000000000000000''"

text \<open>\<open>format!("{:020}", n)\<close>\<close>

definition format20 :: "nat \<Rightarrow> string" where
  "format20 n = (let d = show_nat n in replicate (20 - length d) (CHR ''0'') @ d)"

definition entry_or_default :: "string \<Rightarrow> memory_store \<Rightarrow> stored_snapshot list \<times> memory_store" where
  "entry_or_default tenant ms =
     (case bt_get (ms_tenants ms) tenant of
        Some snapshots \<Rightarrow> (snapshots, ms)
      | None \<Rightarrow> ([], ms\<lparr>ms_tenants := bt_insert tenant [] (ms_tenants ms)\<rparr>))"

definition head_revision :: "stored_snapshot list \<Rightarrow> string" where
  "head_revision snapshots = (if snapshots = [] then INITIAL_REVISION else ss_revision_id (last snapshots))"

definition memory_tenant_exists :: "string \<Rightarrow> (memory_store, bool) io" where
  "memory_tenant_exists tenant ms = (Inr (bt_contains (ms_tenants ms) tenant), ms)"

definition memory_ensure_tenant :: "string \<Rightarrow> (memory_store, tenant_snapshot) io" where
  "memory_ensure_tenant tenant ms =
     (case entry_or_default tenant ms of (snapshots, ms') \<Rightarrow>
        (Inr \<lparr>tn_revision_id = head_revision snapshots\<rparr>, ms'))"

definition memory_delete_tenant :: "string \<Rightarrow> (memory_store, unit) io" where
  "memory_delete_tenant tenant ms =
     (let ms' = ms\<lparr>ms_tenants := bt_remove tenant (ms_tenants ms)\<rparr> in
      case bt_get (ms_tenants ms) tenant of None \<Rightarrow> (bail ''tenant unavailable'', ms') | Some _ \<Rightarrow> (Inr (), ms'))"

definition read_snapshot :: "stored_snapshot \<Rightarrow> snapshot result" where
  "read_snapshot stored =
     and_then (decode_tenant_state (ss_state_json stored)) (\<lambda>st.
     Inr \<lparr>sn_revision_id = ss_revision_id stored, sn_state = st\<rparr>)"

definition memory_load :: "string \<Rightarrow> string option \<Rightarrow> (memory_store, snapshot) io" where
  "memory_load tenant revision ms =
     (and_then (option_context ''tenant unavailable'' (bt_get (ms_tenants ms) tenant)) (\<lambda>snapshots.
      case revision of
        Some r \<Rightarrow>
          and_then (option_context ''revision unavailable'' (List.find (\<lambda>item. ss_revision_id item = r) snapshots))
            read_snapshot
      | None \<Rightarrow>
          if snapshots = [] then Inr \<lparr>sn_revision_id = INITIAL_REVISION, sn_state = default_tenant_state\<rparr>
          else read_snapshot (last snapshots)), ms)"

definition memory_commit ::
  "string \<Rightarrow> string \<Rightarrow> tenant_state \<Rightarrow> string \<Rightarrow> string \<Rightarrow> (memory_store, string) io" where
  "memory_commit tenant expected st author message ms =
     (let ms0 = ms\<lparr>ms_fail_next_commit := False\<rparr> in
      if ms_fail_next_commit ms then (bail ''injected commit failure'', ms0)
      else case entry_or_default tenant ms0 of (snapshots, ms1) \<Rightarrow>
        if head_revision snapshots \<noteq> expected then (bail ''registry revision changed'', ms1)
        else
          let revision = format20 (length snapshots + 1) in
          (Inr revision,
           ms1\<lparr>ms_tenants := bt_insert tenant
             (snapshots @ [\<lparr>ss_revision_id = revision, ss_state_json = encode_tenant_state st\<rparr>])
             (ms_tenants ms1)\<rparr>))"

text \<open>Timestamps are 64-bit signed milliseconds.\<close>

definition memory_platform ::
  "(memory_store \<Rightarrow> 64 word) \<Rightarrow> (json \<Rightarrow> string) \<Rightarrow> (string \<Rightarrow> string) \<Rightarrow> memory_store platform" where
  "memory_platform clock to_vec sha256_hex =
     \<lparr>rs_tenant_exists = memory_tenant_exists, rs_ensure_tenant = memory_ensure_tenant,
      rs_delete_tenant = memory_delete_tenant, rs_load = memory_load, rs_commit = memory_commit,
      pl_now = (\<lambda>ms. sint (clock ms)), pl_to_vec = to_vec, pl_sha256_hex = sha256_hex\<rparr>"

section \<open>Revision numbers\<close>

definition digit :: "char \<Rightarrow> nat" where
  "digit c = of_char c - 48"

definition parse_nat :: "string \<Rightarrow> nat" where
  "parse_nat s = fold (\<lambda>c n. 10 * n + digit c) s 0"

lemma digit_char_of: "n < 10 \<Longrightarrow> digit (char_of (48 + n)) = n"
  by (simp add: digit_def of_char_of)

lemma parse_show: "parse_nat (show_nat n) = n"
proof (induction n rule: less_induct)
  case (less n)
  show ?case
  proof (cases "n < 10")
    case True
    then show ?thesis by (simp add: show_nat.simps [of n] parse_nat_def digit_char_of)
  next
    case False
    with less [of "n div 10"] show ?thesis
      by (simp add: show_nat.simps [of n] parse_nat_def digit_char_of)
  qed
qed

lemma parse_zeros: "parse_nat (replicate k (CHR ''0'') @ s) = parse_nat s"
  by (induction k) (simp_all add: parse_nat_def digit_def)

lemma format20_inject [simp]: "format20 m = format20 n \<longleftrightarrow> m = n"
  by (metis format20_def parse_show parse_zeros)

lemma format20_initial: "format20 (Suc n) \<noteq> INITIAL_REVISION"
proof
  assume "format20 (Suc n) = INITIAL_REVISION"
  then have "parse_nat (format20 (Suc n)) = parse_nat INITIAL_REVISION" by simp
  moreover have "parse_nat INITIAL_REVISION = 0" by (simp add: INITIAL_REVISION_def parse_nat_def digit_def)
  ultimately show False by (simp add: format20_def Let_def parse_zeros parse_show)
qed

section \<open>The history it holds\<close>

fun chain :: "string \<Rightarrow> stored_snapshot list \<Rightarrow> (string \<times> string \<times> tenant_state) list" where
  "chain p [] = []"
| "chain p (x # xs) =
     (case decode_tenant_state (ss_state_json x) of
        Inl _ \<Rightarrow> chain (ss_revision_id x) xs
      | Inr st \<Rightarrow> (ss_revision_id x, p, st) # chain (ss_revision_id x) xs)"

definition memory_commits :: "memory_store \<Rightarrow> commits" where
  "memory_commits ms t = (case bt_get (ms_tenants ms) t of
     None \<Rightarrow> Map.empty | Some snapshots \<Rightarrow> map_of (chain INITIAL_REVISION snapshots))"

definition stored :: "stored_snapshot \<Rightarrow> tenant_state \<Rightarrow> bool" where
  "stored x st \<longleftrightarrow> ss_state_json x = encode_tenant_state st \<and> wf_tenant_state st"

definition numbered :: "stored_snapshot list \<Rightarrow> bool" where
  "numbered xs \<longleftrightarrow> map ss_revision_id xs = map (\<lambda>n. format20 (Suc n)) [0..<length xs] \<and>
     (\<forall>x \<in> set xs. \<exists>st. stored x st)"

definition memory_valid :: "memory_store \<Rightarrow> bool" where
  "memory_valid ms \<longleftrightarrow> (\<forall>t xs. bt_get (ms_tenants ms) t = Some xs \<longrightarrow> numbered xs)"

lemma stored_decode: "stored x st \<Longrightarrow> decode_tenant_state (ss_state_json x) = Inr st"
  by (simp add: stored_def decode_encode_tenant_state)

lemma numbered_Nil [simp]: "numbered []"
  by (simp add: numbered_def)

lemma numbered_snoc:
  "numbered xs \<Longrightarrow> wf_tenant_state st \<Longrightarrow>
    numbered (xs @ [\<lparr>ss_revision_id = format20 (length xs + 1), ss_state_json = encode_tenant_state st\<rparr>])"
  by (auto simp: numbered_def stored_def)

lemma head_snoc: "head_revision (xs @ [x]) = ss_revision_id x"
  by (simp add: head_revision_def)

lemma chain_snoc:
  "stored x st \<Longrightarrow> chain p (xs @ [x]) =
    chain p xs @ [(ss_revision_id x, if xs = [] then p else ss_revision_id (last xs), st)]"
  by (induction xs arbitrary: p) (auto simp: stored_decode split: sum.split)

lemma chain_append:
  assumes "stored x st"
  shows "chain INITIAL_REVISION (xs @ [x]) = chain INITIAL_REVISION xs @ [(ss_revision_id x, head_revision xs, st)]"
  by (simp add: chain_snoc [OF assms] head_revision_def)

lemma chain_keys: "\<forall>x \<in> set xs. \<exists>st. stored x st \<Longrightarrow> map fst (chain p xs) = map ss_revision_id xs"
  by (induction xs arbitrary: p) (auto simp: stored_decode)

lemma chain_find:
  "\<forall>x \<in> set xs. \<exists>st. stored x st \<Longrightarrow>
    map_option snd (map_of (chain p xs) r) =
      Option.bind (List.find (\<lambda>x. ss_revision_id x = r) xs)
        (\<lambda>x. case decode_tenant_state (ss_state_json x) of Inl _ \<Rightarrow> None | Inr st \<Rightarrow> Some st)"
  by (induction xs arbitrary: p) (auto simp: stored_decode)

section \<open>The contract holds\<close>

lemma entry_Inr:
  assumes "entry_or_default t ms = (xs, ms')"
  shows "bt_get (ms_tenants ms') t = Some xs" "memory_commits ms' = memory_commits ms"
    "memory_valid ms \<Longrightarrow> memory_valid ms'" "memory_valid ms \<Longrightarrow> numbered xs"
    "memory_commits ms t = map_of (chain INITIAL_REVISION xs)"
  using assms
  by (auto simp: entry_or_default_def memory_commits_def memory_valid_def fun_eq_iff split: option.splits if_splits)

lemma memory_commits_flag [simp]: "memory_commits (ms\<lparr>ms_fail_next_commit := b\<rparr>) = memory_commits ms"
  by (simp add: memory_commits_def fun_eq_iff)

lemma memory_valid_flag [simp]: "memory_valid (ms\<lparr>ms_fail_next_commit := b\<rparr>) = memory_valid ms"
  by (simp add: memory_valid_def)

lemma read_stored:
  "stored x st \<Longrightarrow> read_snapshot x = Inr \<lparr>sn_revision_id = ss_revision_id x, sn_state = st\<rparr>"
  by (simp add: read_snapshot_def stored_decode)

lemma numbered_fresh:
  assumes "numbered xs"
  shows "map_of (chain INITIAL_REVISION xs) (format20 (length xs + 1)) = None"
proof -
  have "map fst (chain INITIAL_REVISION xs) = map (\<lambda>n. format20 (Suc n)) [0..<length xs]"
    using assms by (simp add: numbered_def chain_keys)
  then have "set (map fst (chain INITIAL_REVISION xs)) = (\<lambda>n. format20 (Suc n)) ` {0..<length xs}"
    by simp
  then show ?thesis unfolding map_of_eq_None_iff set_map [symmetric] by auto
qed

lemma memory_commit_Inr:
  assumes "memory_commit t e st a m ms = (Inr r, ms')" "memory_valid ms" "wf_tenant_state st"
  shows "memory_valid ms'" "memory_commits ms t r = None"
    "memory_commits ms' = (memory_commits ms)(t := (memory_commits ms t)(r \<mapsto> (e, st)))"
proof -
  let ?ms0 = "ms\<lparr>ms_fail_next_commit := False\<rparr>"
  obtain xs ms1 where entry: "entry_or_default t ?ms0 = (xs, ms1)" by (cases "entry_or_default t ?ms0")
  let ?x = "\<lparr>ss_revision_id = format20 (length xs + 1), ss_state_json = encode_tenant_state st\<rparr>"
  have run: "head_revision xs = e" "r = format20 (length xs + 1)"
      "ms' = ms1\<lparr>ms_tenants := bt_insert t (xs @ [?x]) (ms_tenants ms1)\<rparr>"
    using assms(1) by (auto simp: memory_commit_def Let_def entry split: if_splits)
  note facts = entry_Inr [OF entry, simplified]
  have numbered: "numbered xs" using facts(4) assms(2) by simp
  show "memory_valid ms'"
    using facts(3) assms(2) numbered_snoc [OF numbered assms(3)] by (auto simp: run memory_valid_def)
  show "memory_commits ms t r = None" using facts(5) numbered_fresh [OF numbered] run(2) by simp
  have "stored ?x st" using assms(3) by (simp add: stored_def)
  then have "map_of (chain INITIAL_REVISION (xs @ [?x])) = (map_of (chain INITIAL_REVISION xs))(r \<mapsto> (e, st))"
    using numbered_fresh [OF numbered] run(1,2)
    by (auto simp: chain_append fun_eq_iff map_add_def split: option.split)
  then have "memory_commits ms' t = (memory_commits ms t)(r \<mapsto> (e, st))"
    unfolding facts(5) by (simp add: memory_commits_def run(3))
  moreover have "memory_commits ms' t' = memory_commits ms t'" if "t' \<noteq> t" for t'
    using that facts(2) by (simp add: memory_commits_def run(3) fun_eq_iff)
  ultimately show "memory_commits ms' = (memory_commits ms)(t := (memory_commits ms t)(r \<mapsto> (e, st)))"
    by (auto simp: fun_eq_iff)
qed

lemma memory_commit_Inl:
  assumes "memory_commit t e st a m ms = (Inl err, ms')"
  shows "memory_commits ms' = memory_commits ms" "memory_valid ms \<Longrightarrow> memory_valid ms'"
proof -
  obtain xs ms1 where entry: "entry_or_default t (ms\<lparr>ms_fail_next_commit := False\<rparr>) = (xs, ms1)"
    by (cases "entry_or_default t (ms\<lparr>ms_fail_next_commit := False\<rparr>)")
  from entry_Inr [OF entry, simplified] assms
  show "memory_commits ms' = memory_commits ms" "memory_valid ms \<Longrightarrow> memory_valid ms'"
    by (auto simp: memory_commit_def Let_def entry bail_def split: if_splits)
qed

lemma i64_sint: "i64 (sint (w :: 64 word))"
  using sint_range_size [of w] by (simp add: i64_def I64_MAX_def word_size)

lemma memory_load_stored:
  assumes "memory_valid ms" "bt_get (ms_tenants ms) t = Some xs" "x \<in> set xs"
  shows "\<exists>st. read_snapshot x = Inr \<lparr>sn_revision_id = ss_revision_id x, sn_state = st\<rparr> \<and>
    wf_tenant_state st \<and> map_option snd (memory_commits ms t (ss_revision_id x)) = Some st"
proof -
  have n: "numbered xs" using assms(1,2) by (simp add: memory_valid_def)
  obtain st where st: "stored x st" using n assms(3) by (auto simp: numbered_def)
  have all: "\<forall>x \<in> set xs. \<exists>st. stored x st" using n by (simp add: numbered_def)
  have "distinct (map ss_revision_id xs)" using n by (simp add: numbered_def distinct_map inj_on_def)
  then have "List.find (\<lambda>y. ss_revision_id y = ss_revision_id x) xs = Some x"
    using assms(3) by (induction xs) auto
  then have "map_option snd (memory_commits ms t (ss_revision_id x)) = Some st"
    using chain_find [OF all] by (simp add: memory_commits_def assms(2) stored_decode [OF st])
  then show ?thesis using read_stored [OF st] st by (auto simp: stored_def)
qed

lemma state_at_commit: "map_option snd (cs t r) = Some st \<Longrightarrow> state_at cs t r = st"
  by (auto simp: state_at_def)

lemma memory_load_Inr:
  assumes "memory_valid ms" "memory_load t pin ms = (Inr sn, ms')"
  shows "ms' = ms \<and> sn_state sn = state_at (memory_commits ms) t (sn_revision_id sn) \<and>
    wf_tenant_state (sn_state sn) \<and> (\<forall>x. pin = Some x \<longrightarrow> sn_revision_id sn = x)"
proof -
  have ms': "ms' = ms" using assms(2) by (simp add: memory_load_def)
  obtain xs where xs: "bt_get (ms_tenants ms) t = Some xs"
    using assms(2) by (cases "bt_get (ms_tenants ms) t") (simp_all add: memory_load_def)
  consider (empty) "xs = []" "pin = None" "sn = \<lparr>sn_revision_id = INITIAL_REVISION, sn_state = default_tenant_state\<rparr>"
    | (found) x where "x \<in> set xs" "read_snapshot x = Inr sn" "\<forall>r. pin = Some r \<longrightarrow> ss_revision_id x = r"
  proof (cases pin)
    case None
    then show thesis using assms(2) xs empty found [of "last xs"]
      by (cases "xs = []") (auto simp: memory_load_def)
  next
    case (Some r)
    then obtain x where "List.find (\<lambda>item. ss_revision_id item = r) xs = Some x" "read_snapshot x = Inr sn"
      using assms(2) xs by (auto simp: memory_load_def and_then_Inr_iff option_context_Inr_iff)
    moreover from this(1) have "x \<in> set xs" "ss_revision_id x = r" by (auto simp: find_Some_iff)
    ultimately show thesis using found [of x] Some by simp
  qed
  then show ?thesis
  proof cases
    case empty
    then show ?thesis
      by (simp add: ms' state_at_def memory_commits_def xs default_tenant_state_def wf_tenant_state_def)
  next
    case (found x)
    from memory_load_stored [OF assms(1) xs found(1)] obtain st where
      "sn = \<lparr>sn_revision_id = ss_revision_id x, sn_state = st\<rparr>" "wf_tenant_state st"
      "map_option snd (memory_commits ms t (ss_revision_id x)) = Some st"
      using found(2) by auto
    then show ?thesis using found(3) by (simp add: ms' state_at_commit)
  qed
qed

lemma memory_load_committed:
  assumes "memory_valid ms" "memory_commits ms t r = Some (e, st)"
  shows "memory_load t (Some r) ms = (Inr \<lparr>sn_revision_id = r, sn_state = st\<rparr>, ms)"
proof -
  obtain xs where xs: "bt_get (ms_tenants ms) t = Some xs" "map_of (chain INITIAL_REVISION xs) r = Some (e, st)"
    using assms(2) by (auto simp: memory_commits_def split: option.splits)
  have "\<forall>x \<in> set xs. \<exists>st. stored x st" using assms(1) xs(1) by (auto simp: memory_valid_def numbered_def)
  from chain_find [OF this, of INITIAL_REVISION r] obtain x where x:
    "List.find (\<lambda>x. ss_revision_id x = r) xs = Some x"
    using xs(2) by (cases "List.find (\<lambda>x. ss_revision_id x = r) xs") simp_all
  then have "x \<in> set xs" "ss_revision_id x = r" by (auto simp: find_Some_iff)
  with memory_load_stored [OF assms(1) xs(1)] assms(2) xs(1) x show ?thesis
    by (fastforce simp: memory_load_def)
qed

lemma memory_platform_sel [simp]:
  "rs_tenant_exists (memory_platform clock to_vec sha) = memory_tenant_exists"
  "rs_ensure_tenant (memory_platform clock to_vec sha) = memory_ensure_tenant"
  "rs_delete_tenant (memory_platform clock to_vec sha) = memory_delete_tenant"
  "rs_load (memory_platform clock to_vec sha) = memory_load"
  "rs_commit (memory_platform clock to_vec sha) = memory_commit"
  "pl_now (memory_platform clock to_vec sha) ms = sint (clock ms)"
  "pl_to_vec (memory_platform clock to_vec sha) = to_vec"
  "pl_sha256_hex (memory_platform clock to_vec sha) = sha"
  by (simp_all add: memory_platform_def)

lemma extends_eq: "memory_commits ms' = memory_commits ms \<Longrightarrow> extends memory_commits ms ms'"
  by (simp add: extends_def)

interpretation memory: durable_store "memory_platform clock to_vec sha" memory_valid memory_commits
  for clock to_vec sha
proof (unfold_locales, goal_cases)
  case (1 t)
  show ?case by (simp add: keeps_def memory_tenant_exists_def)
next
  case (2 t)
  show ?case
    unfolding keeps_def by (auto simp: memory_ensure_tenant_def entry_Inr extends_eq split: prod.splits)
next
  case (3 t pin)
  show ?case by (simp add: keeps_def memory_load_def)
next
  case (4 st t e a m)
  show ?case unfolding keeps_def memory_platform_sel
  proof (intro allI impI)
    fix ms res ms'
    assume valid: "memory_valid ms" and run: "memory_commit t e st a m ms = (res, ms')"
    show "memory_valid ms' \<and> extends memory_commits ms ms'"
    proof (cases res)
      case (Inl err)
      with run valid show ?thesis using memory_commit_Inl by (simp add: extends_eq)
    next
      case (Inr r)
      with memory_commit_Inr [OF run [unfolded Inr] valid 4] show ?thesis
        by (auto simp: extends_def map_le_def)
    qed
  qed
next
  case (5 s t pin sn s')
  then show ?case using memory_load_Inr [of s t pin sn s'] by auto
next
  case (6 s st t e a m r s')
  then show ?case using memory_commit_Inr [of t e st a m s r s'] by simp
next
  case (7 s)
  show ?case by (simp add: i64_sint)
next
  case (8 s t r e st)
  then show ?case by (simp add: memory_load_committed)
qed

end
