(* ===== verification/Registry_Composition.thy ===== *)
theory Registry_Composition
  imports Registry Memory_Store
begin

text \<open>
  Compilation of pinned compositions over any store that keeps the contract \<open>revision_store\<close>. What
  compiled once compiles to the same definition in every later world: referenced revisions are
  immutable and the loop reads nothing else.
\<close>

lemma check_reference_revisions:
  assumes "check_reference steps rs n = Inr rs'" "\<forall>r \<in> set rs. valid_revision (pr_revision_id r)"
  shows "\<forall>r \<in> set rs'. valid_revision (pr_revision_id r)"
  using assms unfolding check_reference_def
  by (auto simp: and_then_Inr_iff ensure_Inr_iff option_context_Inr_iff split: if_splits)

lemma references_revisions:
  assumes "references doc = Inr refs" "r \<in> set refs"
  shows "valid_revision (pr_revision_id r)"
proof -
  obtain nodes steps where "try_fold (check_reference steps) [] nodes = Inr refs"
    using assms(1) by (auto simp: references_def and_then_Inr_iff ensure_Inr_iff option_context_Inr_iff)
  from try_fold_invariant [OF this, where P = "\<lambda>rs. \<forall>r \<in> set rs. valid_revision (pr_revision_id r)"]
  show ?thesis using assms(2) check_reference_revisions by auto
qed

lemma default_has_no_pipeline [simp]: "bt_get (ts_pipelines default_tenant_state) x = None"
  by (simp add: default_tenant_state_def)

lemma live_pipeline_Inr:
  "live_pipeline msg st x = Inr r \<longleftrightarrow> bt_get (ts_pipelines st) x = Some r \<and> pipe_deleted_at_ms r = None"
  by (auto simp: live_pipeline_def option_context_Inr_iff split: option.splits)

section \<open>The loading loop\<close>

abbreviation reference_key :: "pipeline_reference \<Rightarrow> string \<times> string" where
  "reference_key reference \<equiv> (pr_pipeline_id reference, pr_revision_id reference)"

lemma compose_loop_steps:
  "compose_loop pf t q [] defs s = (Inr defs, s)"
  "bt_get defs (reference_key ref) \<noteq> None \<Longrightarrow>
    compose_loop pf t q (rest @ [ref]) defs s = compose_loop pf t q rest defs s"
  "bt_get defs (reference_key ref) = None \<Longrightarrow> \<not> length defs < MAX_TRANSFERS \<Longrightarrow>
    compose_loop pf t q (rest @ [ref]) defs s = (bail ''Composition exceeds three pipeline transfers'', s)"
  "bt_get defs (reference_key ref) = None \<Longrightarrow> length defs < MAX_TRANSFERS \<Longrightarrow>
    compose_loop pf t q (rest @ [ref]) defs s =
      io_then (load_child pf t q ref) (\<lambda>(child, refs).
        compose_loop pf t q (rest @ refs) (bt_insert (reference_key ref) child defs)) s"
  by (simp_all add: compose_loop.simps [of pf t q "[]"] compose_loop.simps [of pf t q "rest @ [ref]"]
      io_then_def split: prod.split sum.split)

lemma compose_induct [case_names Nil known full new]:
  fixes P :: "pipeline_reference list \<Rightarrow> definitions \<Rightarrow> bool"
  assumes Nil: "\<And>defs. P [] defs"
    and known: "\<And>rest ref defs. bt_get defs (reference_key ref) \<noteq> None \<Longrightarrow> P rest defs \<Longrightarrow> P (rest @ [ref]) defs"
    and full: "\<And>rest ref defs. bt_get defs (reference_key ref) = None \<Longrightarrow> \<not> length defs < MAX_TRANSFERS \<Longrightarrow>
      P (rest @ [ref]) defs"
    and new: "\<And>rest ref defs. bt_get defs (reference_key ref) = None \<Longrightarrow> length defs < MAX_TRANSFERS \<Longrightarrow>
      (\<And>child refs. P (rest @ refs) (bt_insert (reference_key ref) child defs)) \<Longrightarrow> P (rest @ [ref]) defs"
  shows "P pending defs"
proof (induction "(pending, defs)" arbitrary: pending defs rule:
    wf_induct_rule [OF wf_measures [of "[\<lambda>(p, d). MAX_TRANSFERS - length d, \<lambda>(p, d). length p]"]])
  case (1 pending defs)
  show ?case
  proof (cases pending rule: rev_cases)
    case (snoc rest ref)
    show ?thesis unfolding snoc
    proof (cases "bt_get defs (reference_key ref) \<noteq> None")
      case True
      then show "P (rest @ [ref]) defs" by (rule known) (rule 1, simp add: snoc)
    next
      case False
      then have none: "bt_get defs (reference_key ref) = None" by simp
      show "P (rest @ [ref]) defs"
      proof (cases "length defs < MAX_TRANSFERS")
        case True
        show ?thesis by (rule new [OF none True], rule 1) (use True in \<open>auto simp: snoc length_bt_insert_new [OF none]\<close>)
      qed (rule full [OF none])
    qed
  qed (simp add: Nil)
qed

context revision_reader
begin

abbreviation steady :: "('s, 'a) io \<Rightarrow> bool" where
  "steady \<equiv> keeps valid (extends commits_of)"

lemma steady_store [intro]:
  "steady (rs_load pf t pin)" "steady (rs_ensure_tenant pf t)" "steady (rs_tenant_exists pf t)"
  by (rule load_keeps ensure_keeps exists_keeps)+

lemma steady_load_child [intro]: "steady (load_child pf t q ref)"
  unfolding load_child_def by (intro keeps_io steady_store)

lemma steady_compose_loop [intro]: "steady (compose_loop pf t q pending defs)"
proof (induction pending defs rule: compose_induct)
  case (new rest ref defs)
  have "steady (io_then (load_child pf t q ref) (\<lambda>(child, refs).
      compose_loop pf t q (rest @ refs) (bt_insert (reference_key ref) child defs)))"
    using new(3) by (auto intro!: keeps_io)
  moreover have "compose_loop pf t q (rest @ [ref]) defs = io_then (load_child pf t q ref) (\<lambda>(child, refs).
      compose_loop pf t q (rest @ refs) (bt_insert (reference_key ref) child defs))"
    by (rule ext) (rule compose_loop_steps(4) [OF new(1,2)])
  ultimately show ?case by simp
qed (simp_all add: keeps_def compose_loop_steps)

lemma steady_reads [intro]:
  "steady (compile_composition pf t p r doc q)" "steady (ontology_at pf t x r)"
  unfolding compile_composition_def ontology_at_def by (auto intro!: keeps_io)

lemma steady_views [intro]:
  "steady (runtime_pipeline pf t x r)" "steady (pipeline_revision pf t x r)"
  "steady (validate_published_binding pf t st b)"
  unfolding runtime_pipeline_def pipeline_revision_def validate_published_binding_def by (auto intro!: keeps_io)

lemmas steady_compile_composition = steady_reads(1)

end

context durable_store
begin

text \<open>Reading a referenced pipeline gives the same answer in every later world.\<close>

lemma load_child_forever:
  assumes "valid s" "load_child pf t q ref s = (Inr out, s')" "valid_revision (pr_revision_id ref)"
    and "valid u" "extends commits_of s' u"
  shows "\<exists>u'. load_child pf t q ref u = (Inr out, u') \<and> valid u' \<and> extends commits_of s' u'"
proof -
  obtain sn child where load: "rs_load pf t (Some (pr_revision_id ref)) s = (Inr sn, s')"
    and child: "live_pipeline ''Referenced pipeline unavailable'' (sn_state sn) (pr_pipeline_id ref) = Inr child"
    and rest: "(if q then validate_pipeline_ontology_dependencies (sn_state sn) (pr_pipeline_id ref) else Inr ()) = Inr ()"
      "references (pipe_definition child) = Inr (snd out)" "fst out = pipe_definition child"
    using assms(2) unfolding load_child_def by (fastforce simp: io_simps)
  have "sn_state sn \<noteq> default_tenant_state" using child by (auto simp: live_pipeline_Inr)
  from pinned_forever [OF assms(1) load this assms(4,5,3)] obtain u' where
    "rs_load pf t (Some (pr_revision_id ref)) u = (Inr sn, u')" "valid u'" "extends commits_of s' u'" by blast
  with child rest show ?thesis by (cases out) (auto simp: load_child_def io_then_def lift_io_def)
qed

lemma load_child_references:
  assumes "load_child pf t q ref s = (Inr (child, refs), s')"
  shows "\<forall>r \<in> set refs. valid_revision (pr_revision_id r)"
  using assms references_revisions unfolding load_child_def by (auto simp: io_simps)

lemma compose_loop_forever:
  assumes "compose_loop pf t q pending defs s = (Inr out, s')" "valid s"
    and "\<forall>r \<in> set pending. valid_revision (pr_revision_id r)" "valid u" "extends commits_of s' u"
  shows "\<exists>u'. compose_loop pf t q pending defs u = (Inr out, u') \<and> valid u' \<and> extends commits_of s' u'"
  using assms
proof (induction pending defs arbitrary: s u rule: compose_induct)
  case (new rest ref defs)
  let ?defs = "\<lambda>child. bt_insert (reference_key ref) child defs"
  from new.prems(1) [unfolded compose_loop_steps(4) [OF new(1,2)] io_then_Inr] obtain child refs s1 where
    child: "load_child pf t q ref s = (Inr (child, refs), s1)"
    and loop: "compose_loop pf t q (rest @ refs) (?defs child) s1 = (Inr out, s')" by auto
  have s1: "valid s1" "extends commits_of s1 s'"
    using keepsD [OF steady_load_child new.prems(2) child] keepsD [OF steady_compose_loop _ loop] by blast+
  have "extends commits_of s1 u" using s1(2) new.prems(5) by (rule extends_trans)
  from load_child_forever [OF new.prems(2) child _ new.prems(4) this] obtain u1 where
    u1: "load_child pf t q ref u = (Inr (child, refs), u1)" "valid u1"
    using new.prems(3) by auto
  have "extends commits_of s' u1"
    by (rule extends_trans [OF new.prems(5) conjunct2 [OF keepsD [OF steady_load_child new.prems(4) u1(1)]]])
  with new(3) [OF loop s1(1) _ u1(2)] obtain u' where
    "compose_loop pf t q (rest @ refs) (?defs child) u1 = (Inr out, u')" "valid u'" "extends commits_of s' u'"
    using new.prems(3) load_child_references [OF child] by auto
  then show ?case unfolding compose_loop_steps(4) [OF new(1,2)] by (auto simp: io_then_def u1(1))
next
  case (known rest ref defs)
  from known(3) have "compose_loop pf t q rest defs s = (Inr out, s')"
    by (simp only: compose_loop_steps(2) [OF known(1)])
  from known(2) [OF this known(4) _ known(6,7)] known(5) show ?case
    by (simp add: compose_loop_steps(2) [OF known(1)])
qed (simp_all add: compose_loop_steps)

lemma compile_composition_forever:
  assumes "compile_composition pf t p r doc q s = (Inr out, s')" "valid s" "valid u" "extends commits_of s' u"
  shows "\<exists>u'. compile_composition pf t p r doc q u = (Inr out, u') \<and> valid u' \<and> extends commits_of s' u'"
proof -
  obtain pending defs where pending: "references doc = Inr pending"
    and loop: "compose_loop pf t q pending [] s = (Inr defs, s')" and "compile p r doc defs = Inr out"
    using assms(1) unfolding compile_composition_def by (auto simp: io_simps)
  with compose_loop_forever [OF loop assms(2) _ assms(3,4)] references_revisions [OF pending] show ?thesis
    unfolding compile_composition_def by (fastforce simp: lift_io_def io_then_def)
qed

end

end
