(* ===== verification/Registry_Properties.thy ===== *)
theory Registry_Properties
  imports Registry_Composition
begin

text \<open>
  What the Registry promises over any store that keeps the contract \<open>revision_store\<close>, proved once in
  the locale and read off for the in-memory store. Every mutation advances the history by one
  commit that changes one record of the head it read; a published pipeline stays runnable with
  the same compiled definition; stored states stay well formed.
\<close>

section \<open>One-record changes\<close>

definition with_pipeline :: "string \<Rightarrow> pipeline_record \<Rightarrow> tenant_state \<Rightarrow> tenant_state" where
  "with_pipeline x r st = st\<lparr>ts_pipelines := bt_insert x r (ts_pipelines st)\<rparr>"

definition with_ontology :: "string \<Rightarrow> ontology_record \<Rightarrow> tenant_state \<Rightarrow> tenant_state" where
  "with_ontology x r st = st\<lparr>ts_ontologies := bt_insert x r (ts_ontologies st)\<rparr>"

definition with_binding :: "string \<Rightarrow> ontology_binding_record \<Rightarrow> tenant_state \<Rightarrow> tenant_state" where
  "with_binding x r st = st\<lparr>ts_bindings := bt_insert x r (ts_bindings st)\<rparr>"

lemma bt_insert_remove: "btree m \<Longrightarrow> bt_insert k v (bt_remove k m) = bt_insert k v m"
  by (rule btree_eqI) (auto simp: btree_insert btree_remove)

lemma wf_with:
  "wf_tenant_state st \<Longrightarrow> wf_pipeline_record r \<Longrightarrow> wf_tenant_state (with_pipeline x r st)"
  "wf_tenant_state st \<Longrightarrow> wf_ontology_record o' \<Longrightarrow> wf_tenant_state (with_ontology x o' st)"
  "wf_tenant_state st \<Longrightarrow> wf_ontology_binding_record b \<Longrightarrow> wf_tenant_state (with_binding x b st)"
  by (auto simp: wf_tenant_state_def with_pipeline_def with_ontology_def with_binding_def)

lemma wf_records:
  "wf_tenant_state st \<Longrightarrow> bt_get (ts_pipelines st) x = Some r \<Longrightarrow> wf_pipeline_record r"
  "wf_tenant_state st \<Longrightarrow> bt_get (ts_ontologies st) x = Some o' \<Longrightarrow> wf_ontology_record o'"
  "wf_tenant_state st \<Longrightarrow> bt_get (ts_bindings st) x = Some b \<Longrightarrow> wf_ontology_binding_record b"
  by (auto simp: wf_tenant_state_def dest: wf_map_get)

lemma replace_record:
  "wf_tenant_state st \<Longrightarrow>
    st\<lparr>ts_pipelines := bt_insert x r (bt_remove x (ts_pipelines st))\<rparr> = with_pipeline x r st"
  "wf_tenant_state st \<Longrightarrow>
    st\<lparr>ts_ontologies := bt_insert x o' (bt_remove x (ts_ontologies st))\<rparr> = with_ontology x o' st"
  by (simp_all add: wf_tenant_state_def wf_map_def with_pipeline_def with_ontology_def bt_insert_remove)

lemma wf_default_authoring [simp]:
  "wf_authoring_state default_authoring" "wf_ontology_authoring_state default_ontology_authoring"
  by (simp_all add: wf_authoring_state_def default_authoring_def wf_ontology_authoring_state_def
      default_ontology_authoring_def i64_def I64_MAX_def)

lemma wf_touch [simp]:
  "wf_ontology_authoring_state oa \<Longrightarrow> i64 n \<Longrightarrow> wf_ontology_authoring_state (touch p b op a n oa)"
  by (simp add: touch_def wf_ontology_authoring_state_def)

section \<open>Advancing the history\<close>

definition advances ::
  "('s \<Rightarrow> commits) \<Rightarrow> 's \<Rightarrow> 's \<Rightarrow> string \<Rightarrow> string \<Rightarrow> string \<Rightarrow> (tenant_state \<Rightarrow> tenant_state) \<Rightarrow> bool" where
  "advances c s s' t base head f \<longleftrightarrow>
     (\<exists>s1. extends c s s1 \<and> extends c s1 s' \<and> c s t head = None \<and>
       c s' t head = Some (base, f (state_at (c s1) t base)))"

context revision_store
begin

lemma load_then_commit:
  assumes "valid s" "rs_load pf t None s = (Inr sn, s1)" "steady m" "m s1 = (res, s2)"
    and "wf_tenant_state (f (sn_state sn))"
    and "rs_commit pf t (sn_revision_id sn) (f (sn_state sn)) a msg s2 = (Inr head, s3)"
  shows "advances commits_of s s3 t (sn_revision_id sn) head f"
proof -
  note s1 = load_extends [OF assms(1,2)] and sn = load_state [OF assms(1,2)]
  note s2 = keepsD [OF assms(3) conjunct1 [OF s1] assms(4)]
  note s3 = commit_extends [OF conjunct1 [OF s2] assms(5,6)]
    and rec = commit_records [OF conjunct1 [OF s2] assms(5,6)]
  have "extends commits_of s s2" "extends commits_of s1 s3"
    using s1 s2 s3 by (auto intro: extends_trans)
  moreover from this(1) have "commits_of s t head = None"
    using rec extends_commit [of commits_of s s2 t head] by (cases "commits_of s t head") auto
  ultimately show ?thesis unfolding advances_def using s1 sn rec by (intro exI [of _ s1]) auto
qed

lemma advances_later: "extends commits_of s0 s \<Longrightarrow> advances commits_of s s' t b h f \<Longrightarrow> advances commits_of s0 s' t b h f"
  unfolding advances_def
  by (metis extends_commit extends_trans not_None_eq)

lemma ensure_load_commit:
  assumes "valid s" "rs_ensure_tenant pf t s = (Inr tn, s0)" "rs_load pf t None s0 = (Inr sn, s1)"
    and "steady m" "m s1 = (res, s2)" "wf_tenant_state (f (sn_state sn))"
    and "rs_commit pf t (sn_revision_id sn) (f (sn_state sn)) a msg s2 = (Inr head, s3)"
  shows "advances commits_of s s3 t (sn_revision_id sn) head f"
proof -
  note s0 = ensure_extends [OF assms(1,2)]
  show ?thesis
    by (rule advances_later [OF conjunct2 [OF s0] load_then_commit [where f = f, OF conjunct1 [OF s0] assms(3-7)]])
qed

lemma wf_loaded: "valid s \<Longrightarrow> rs_load pf t pin s = (Inr sn, s') \<Longrightarrow> wf_tenant_state (sn_state sn)"
  using load_state by blast

text \<open>A successful write of a pipeline.\<close>

lemma put_pipeline_Inr:
  assumes "put_pipeline pf input s = (Inr view, s')" "valid s" "wf_json (pi_definition input)"
  obtains tn s0 sn s1 compiled s2 order where
    "rs_ensure_tenant pf (pi_tenant_id input) s = (Inr tn, s0)" "rs_load pf (pi_tenant_id input) None s0 = (Inr sn, s1)"
    "expected_pipeline_head input (sn_revision_id sn) = Inr ()" "validate_pipeline_structure (pi_definition input) = Inr order"
    "compile_composition pf (pi_tenant_id input) (pi_pipeline_id input) (sn_revision_id sn) (pi_definition input) False s1 = (Inr compiled, s2)"
    "rs_commit pf (pi_tenant_id input) (sn_revision_id sn) (with_pipeline (pi_pipeline_id input) (pv_record view) (sn_state sn))
       (pi_author input) (pi_message input) s2 = (Inr (pv_head_revision_id view), s')"
    "wf_tenant_state (with_pipeline (pi_pipeline_id input) (pv_record view) (sn_state sn))"
    "pipe_definition (pv_record view) = pi_definition input" "valid s0" "valid s2"
proof -
  let ?t = "pi_tenant_id input" and ?x = "pi_pipeline_id input"
  from assms(1) obtain tn s0 sn s1 compiled s2 order where
      ensure: "rs_ensure_tenant pf ?t s = (Inr tn, s0)"
    and load: "rs_load pf ?t None s0 = (Inr sn, s1)"
    and expected: "expected_pipeline_head input (sn_revision_id sn) = Inr ()"
    and struct: "validate_pipeline_structure (pi_definition input) = Inr order"
    and compile: "compile_composition pf ?t ?x (sn_revision_id sn) (pi_definition input) False s1 = (Inr compiled, s2)"
    and commit: "rs_commit pf ?t (sn_revision_id sn)
        ((sn_state sn)\<lparr>ts_pipelines := bt_insert ?x (pv_record view) (bt_remove ?x (ts_pipelines (sn_state sn)))\<rparr>)
        (pi_author input) (pi_message input) s2 = (Inr (pv_head_revision_id view), s')"
    and view: "pv_record view =
        new_pipeline_record input (bt_get (ts_pipelines (sn_state sn)) ?x) (sn_revision_id sn) (pl_now pf s2)"
    unfolding put_pipeline_def Let_def
    by (clarsimp simp: io_simps option_context_Inr_iff)
  note s0 = ensure_extends [OF assms(2) ensure]
  note s1 = load_extends [OF conjunct1 [OF s0] load]
  have wf: "wf_tenant_state (sn_state sn)" by (rule wf_loaded [OF conjunct1 [OF s0] load])
  have "wf_pipeline_record (pv_record view)"
    using assms(3) clock wf_records(1) [OF wf]
    by (auto simp: view new_pipeline_record_def wf_pipeline_record_def split: option.split)
  then have "wf_tenant_state (with_pipeline ?x (pv_record view) (sn_state sn))" using wf_with(1) [OF wf] by blast
  moreover have "pipe_definition (pv_record view) = pi_definition input" by (simp add: view new_pipeline_record_def)
  moreover have "valid s2" using keepsD [OF steady_compile_composition conjunct1 [OF s1] compile] by blast
  ultimately show thesis
    using that [OF ensure load expected struct compile] commit conjunct1 [OF s0] by (simp add: replace_record [OF wf])
qed

lemma put_pipeline_advances:
  assumes "valid s" "wf_json (pi_definition input)" "put_pipeline pf input s = (Inr view, s')"
  shows "\<exists>base. advances commits_of s s' (pi_tenant_id input) base (pv_head_revision_id view)
      (with_pipeline (pi_pipeline_id input) (pv_record view)) \<and>
    (\<forall>e. pi_expected_revision_id input = Some e \<longrightarrow> base = e) \<and>
    pipe_definition (pv_record view) = pi_definition input \<and>
    (\<exists>order. validate_pipeline_structure (pi_definition input) = Inr order)"
proof (rule put_pipeline_Inr [OF assms(3,1,2)])
  fix tn s0 sn s1 compiled s2 order
  let ?t = "pi_tenant_id input" and ?x = "pi_pipeline_id input"
  assume run: "rs_ensure_tenant pf ?t s = (Inr tn, s0)" "rs_load pf ?t None s0 = (Inr sn, s1)"
      "compile_composition pf ?t ?x (sn_revision_id sn) (pi_definition input) False s1 = (Inr compiled, s2)"
      "rs_commit pf ?t (sn_revision_id sn) (with_pipeline ?x (pv_record view) (sn_state sn)) (pi_author input) (pi_message input) s2 =
        (Inr (pv_head_revision_id view), s')"
    and wf: "wf_tenant_state (with_pipeline ?x (pv_record view) (sn_state sn))"
    and expected: "expected_pipeline_head input (sn_revision_id sn) = Inr ()"
    and rest: "validate_pipeline_structure (pi_definition input) = Inr order" "pipe_definition (pv_record view) = pi_definition input"
  have "advances commits_of s s' ?t (sn_revision_id sn) (pv_head_revision_id view) (with_pipeline ?x (pv_record view))"
    using run(4) wf by (intro ensure_load_commit [OF assms(1) run(1,2) steady_compile_composition run(3)])
  moreover have "pi_expected_revision_id input = Some e \<Longrightarrow> sn_revision_id sn = e" for e
    using expected by (simp add: expected_pipeline_head_def ensure_Inr_iff)
  ultimately show ?thesis using rest by auto
qed

lemma load_now_commit:
  assumes "valid s" "rs_load pf t None s = (Inr sn, s1)" "wf_tenant_state (f (sn_state sn))"
    and "rs_commit pf t (sn_revision_id sn) (f (sn_state sn)) a msg s1 = (Inr head, s2)"
  shows "advances commits_of s s2 t (sn_revision_id sn) head f"
  by (rule load_then_commit [where f = f and m = "lift_io (Inr ())", OF assms(1,2) _ _ assms(3,4)])
    (auto simp: lift_io_def intro: keeps_io)

lemma publish_pipeline_Inr:
  assumes "valid s" "publish_pipeline pf t x r s = (Inr view, s')"
  obtains pinned s1 candidate compiled s2 current s3 pipeline where
    "validate_identity t x = Inr ()" "valid_revision r" "rs_load pf t (Some r) s = (Inr pinned, s1)"
    "live_pipeline ''pipeline unavailable at revision'' (sn_state pinned) x = Inr candidate"
    "validate_pipeline_ontology_dependencies (sn_state pinned) x = Inr ()"
    "compile_composition pf t x r (pipe_definition candidate) True s1 = (Inr compiled, s2)"
    "rs_load pf t None s2 = (Inr current, s3)" "sn_revision_id current = r"
    "bt_get (ts_pipelines (sn_state current)) x = Some pipeline"
    "pv_record view = pipeline\<lparr>pipe_published_revision_id := Some r, pipe_previous_revision_id := Some r,
       pipe_updated_at_ms := pl_now pf s3\<rparr>"
    "rs_commit pf t r (with_pipeline x (pv_record view) (sn_state current))
       (pipe_author_id pipeline) ''Publish pipeline'' s3 = (Inr (pv_head_revision_id view), s')"
    "valid s1" "valid s2" "valid s3" "extends commits_of s2 s'" "extends commits_of s1 s'"
proof -
  obtain pinned s1 candidate compiled s2 current s3 pipeline where run:
    "validate_identity t x = Inr ()" "valid_revision r" "rs_load pf t (Some r) s = (Inr pinned, s1)"
    "live_pipeline ''pipeline unavailable at revision'' (sn_state pinned) x = Inr candidate"
    "validate_pipeline_ontology_dependencies (sn_state pinned) x = Inr ()"
    "compile_composition pf t x r (pipe_definition candidate) True s1 = (Inr compiled, s2)"
    "rs_load pf t None s2 = (Inr current, s3)" "sn_revision_id current = r"
    "bt_get (ts_pipelines (sn_state current)) x = Some pipeline"
    "pv_record view = pipeline\<lparr>pipe_published_revision_id := Some r, pipe_previous_revision_id := Some r,
       pipe_updated_at_ms := pl_now pf s3\<rparr>"
    "rs_commit pf t r (with_pipeline x (pv_record view) (sn_state current))
       (pipe_author_id pipeline) ''Publish pipeline'' s3 = (Inr (pv_head_revision_id view), s')"
    using assms(2) unfolding publish_pipeline_def Let_def with_pipeline_def
    by (clarsimp simp: io_simps option_context_Inr_iff)
  note s1 = load_extends [OF assms(1) run(3)]
  note s2 = keepsD [OF steady_compile_composition conjunct1 [OF s1] run(6)]
  note s3 = load_extends [OF conjunct1 [OF s2] run(7)]
  have "wf_tenant_state (sn_state current)" by (rule wf_loaded [OF conjunct1 [OF s2] run(7)])
  then have "wf_tenant_state (with_pipeline x (pv_record view) (sn_state current))"
    using wf_records(1) [OF _ run(9)] clock
    by (intro wf_with(1)) (auto simp: run(10) wf_pipeline_record_def)
  from commit_extends [OF conjunct1 [OF s3] this run(11)] s1 s2 s3
  show thesis by (intro that [OF run]) (auto intro: extends_trans)
qed

lemma publish_pipeline_advances:
  assumes "valid s" "publish_pipeline pf t x r s = (Inr view, s')"
  shows "advances commits_of s s' t r (pv_head_revision_id view) (with_pipeline x (pv_record view)) \<and>
    pipe_published_revision_id (pv_record view) = Some r"
proof (rule publish_pipeline_Inr [OF assms])
  fix pinned s1 candidate compiled s2 current s3 pipeline
  assume run: "compile_composition pf t x r (pipe_definition candidate) True s1 = (Inr compiled, s2)"
    "rs_load pf t None s2 = (Inr current, s3)" "sn_revision_id current = r"
    "bt_get (ts_pipelines (sn_state current)) x = Some pipeline"
    "pv_record view = pipeline\<lparr>pipe_published_revision_id := Some r, pipe_previous_revision_id := Some r,
       pipe_updated_at_ms := pl_now pf s3\<rparr>"
    "rs_commit pf t r (with_pipeline x (pv_record view) (sn_state current))
       (pipe_author_id pipeline) ''Publish pipeline'' s3 = (Inr (pv_head_revision_id view), s')"
    and valid: "valid s1" "valid s2" and load: "rs_load pf t (Some r) s = (Inr pinned, s1)"
  have wf: "wf_tenant_state (sn_state current)" by (rule wf_loaded [OF valid(2) run(2)])
  have "wf_pipeline_record (pv_record view)"
    using wf_records(1) [OF wf run(4)] clock by (auto simp: run(5) wf_pipeline_record_def)
  then have "advances commits_of s2 s' t r (pv_head_revision_id view) (with_pipeline x (pv_record view))"
    using load_now_commit [OF valid(2) run(2), of "with_pipeline x (pv_record view)"] wf_with(1) [OF wf] run(3,6) by auto
  moreover have "extends commits_of s s2"
    by (rule extends_trans [OF conjunct2 [OF load_extends [OF assms(1) load]]
          conjunct2 [OF keepsD [OF steady_compile_composition valid(1) run(1)]]])
  ultimately show ?thesis using advances_later run(5) by simp
qed

end

context durable_store
begin

text \<open>
  A published pipeline can be reconstructed in every later world, and always compiles to the
  definition that was checked when it was published.
\<close>

lemma published_forever:
  assumes "valid s" "publish_pipeline pf t x r s = (Inr view, s')"
  shows "\<exists>record. \<forall>u. valid u \<longrightarrow> extends commits_of s' u \<longrightarrow>
    (\<exists>u'. runtime_pipeline pf t x r u = (Inr record, u'))"
proof (rule publish_pipeline_Inr [OF assms])
  fix pinned s1 candidate compiled s2
  assume ids: "validate_identity t x = Inr ()" "valid_revision r"
    and load: "rs_load pf t (Some r) s = (Inr pinned, s1)"
    and live: "live_pipeline ''pipeline unavailable at revision'' (sn_state pinned) x = Inr candidate"
    and deps: "validate_pipeline_ontology_dependencies (sn_state pinned) x = Inr ()"
    and compile: "compile_composition pf t x r (pipe_definition candidate) True s1 = (Inr compiled, s2)"
    and valid: "valid s1" and ext: "extends commits_of s2 s'" "extends commits_of s1 s'"
  have content: "sn_state pinned \<noteq> default_tenant_state" using live by (auto simp: live_pipeline_Inr)
  have "\<exists>u'. runtime_pipeline pf t x r u = (Inr (candidate\<lparr>pipe_definition := compiled\<rparr>), u')"
    if u: "valid u" "extends commits_of s' u" for u
  proof -
    have "extends commits_of s1 u" by (rule extends_trans [OF ext(2) u(2)])
    from pinned_forever [OF assms(1) load content u(1) this ids(2)] obtain u1 where
      u1: "rs_load pf t (Some r) u = (Inr pinned, u1)" by blast
    note u1' = load_extends [OF u(1) u1]
    have "extends commits_of s2 u1"
      by (rule extends_trans [OF ext(1) extends_trans [OF u(2) conjunct2 [OF u1']]])
    from compile_composition_forever [OF compile valid conjunct1 [OF u1'] this] obtain u2 where
      "compile_composition pf t x r (pipe_definition candidate) True u1 = (Inr compiled, u2)" by blast
    then show ?thesis using ids deps live u1 by (auto simp: runtime_pipeline_def io_then_def lift_io_def)
  qed
  then show ?thesis by blast
qed

end

context revision_store
begin

text \<open>The other mutations.\<close>

lemma delete_pipeline_advances:
  assumes "valid s" "delete_pipeline pf t x e s = (Inr head, s')"
  shows "\<exists>record. advances commits_of s s' t e head (with_pipeline x record) \<and>
    pipe_deleted_at_ms record \<noteq> None \<and> pipe_published_revision_id record = None"
proof -
  obtain sn s1 pipeline where load: "rs_load pf t None s = (Inr sn, s1)" "sn_revision_id sn = e"
    and get: "bt_get (ts_pipelines (sn_state sn)) x = Some pipeline"
    and commit: "rs_commit pf t e (with_pipeline x (pipeline\<lparr>pipe_deleted_at_ms := Some (pl_now pf s1),
      pipe_published_revision_id := None\<rparr>) (sn_state sn)) ''registry'' ''Delete pipeline'' s1 = (Inr head, s')"
    using assms(2) unfolding delete_pipeline_def Let_def with_pipeline_def
    by (clarsimp simp: io_simps option_context_Inr_iff)
  let ?r = "pipeline\<lparr>pipe_deleted_at_ms := Some (pl_now pf s1), pipe_published_revision_id := None\<rparr>"
  have wf: "wf_tenant_state (sn_state sn)" by (rule wf_loaded [OF assms(1) load(1)])
  have "wf_pipeline_record ?r" using wf_records(1) [OF wf get] clock by (auto simp: wf_pipeline_record_def)
  then show ?thesis
    using load_now_commit [OF assms(1) load(1), of "with_pipeline x ?r"] wf_with(1) [OF wf] load(2) commit
    by (intro exI [of _ ?r]) auto
qed

lemma kept_ontology_Inr:
  assumes "kept_ontology pf input existing s = (Inr (authoring, publication, created), s')"
    and "\<And>r. existing = Some r \<Longrightarrow> wf_ontology_record r"
  shows "s' = s" "wf_ontology_authoring_state authoring" "pred_option wf_ontology_publication_record publication" "i64 created"
  using assms clock
  by (auto simp: kept_ontology_def io_simps ensure_Inr_iff wf_ontology_record_def split: option.splits)

lemma put_ontology_advances:
  assumes "valid s" "wf_json (oi_ontology input)" "put_ontology pf input s = (Inr view, s')"
  shows "\<exists>base. advances commits_of s s' (oi_tenant_id input) base (ov_revision_id view)
      (with_ontology (oi_ontology_id input) (ov_record view)) \<and>
    (\<forall>e. oi_expected_revision_id input = Some e \<longrightarrow> base = e) \<and>
    or_ontology (ov_record view) = oi_ontology input \<and> validate_ontology (oi_ontology input) = Inr ()"
proof -
  let ?t = "oi_tenant_id input" and ?x = "oi_ontology_id input"
  from assms(3) obtain tn s0 sn s1 kept s2 revision where
      valid_onto: "validate_ontology (oi_ontology input) = Inr ()"
    and ensure: "rs_ensure_tenant pf ?t s = (Inr tn, s0)"
    and load: "rs_load pf ?t None s0 = (Inr sn, s1)"
    and expected: "expected_ontology_head input (sn_revision_id sn) = Inr ()"
    and kept: "kept_ontology pf input (bt_get (ts_ontologies (sn_state sn)) ?x) s1 = (Inr kept, s2)"
    and commit: "rs_commit pf ?t (sn_revision_id sn)
        ((sn_state sn)\<lparr>ts_ontologies := bt_insert ?x (new_ontology_record input (sn_revision_id sn) kept (pl_now pf s2))
          (bt_remove ?x (ts_ontologies (sn_state sn)))\<rparr>)
        (oi_author input) (oi_message input) s2 = (Inr revision, s')"
    and view: "view = \<lparr>ov_revision_id = revision, ov_record =
        new_ontology_record input (sn_revision_id sn) kept (pl_now pf s2)\<rparr>"
    unfolding put_ontology_def Let_def
    by (clarsimp simp: io_simps option_context_Inr_iff)
  note s0 = ensure_extends [OF assms(1) ensure]
  define r where "r = new_ontology_record input (sn_revision_id sn) kept (pl_now pf s2)"
  have wf: "wf_tenant_state (sn_state sn)" by (rule wf_loaded [OF conjunct1 [OF s0] load])
  obtain authoring publication created where k: "kept = (authoring, publication, created)" by (cases kept)
  have "\<And>r. bt_get (ts_ontologies (sn_state sn)) ?x = Some r \<Longrightarrow> wf_ontology_record r" by (rule wf_records(2) [OF wf])
  note keep = kept_ontology_Inr [OF kept [unfolded k] this]
  have "wf_ontology_record r"
    using assms(2) clock keep(2-4)
    by (auto simp: r_def k new_ontology_record_def wf_ontology_record_def)
  then have "advances commits_of s s' ?t (sn_revision_id sn) revision (with_ontology ?x r)"
    using commit wf_with(2) [OF wf] keep(1)
    by (intro ensure_load_commit [OF assms(1) ensure load, where m = "lift_io (Inr ())"])
      (auto simp: replace_record [OF wf] r_def lift_io_def intro: keeps_io)
  moreover have "oi_expected_revision_id input = Some e \<Longrightarrow> sn_revision_id sn = e" for e
    using expected by (simp add: expected_ontology_head_def ensure_Inr_iff)
  ultimately show ?thesis using valid_onto view by (auto simp: r_def k new_ontology_record_def)
qed

lemma ontology_at_Inr:
  assumes "ontology_at pf t x r s = (Inr view, s')"
  shows "validate_ontology (or_ontology (ov_record view)) = Inr ()"
  using assms unfolding ontology_at_def by (auto simp: io_simps)

lemma publish_ontology_advances:
  assumes "valid s" "wf_json metadata"
    and "publish_ontology pf t x name pid r metadata create_only s = (Inr publication, s')"
  shows "\<exists>base head record. advances commits_of s s' t base head (with_ontology x record) \<and>
    or_production_publication record = Some publication \<and> op_revision_id publication = r \<and>
    op_lifecycle publication = ''production''"
proof -
  obtain pinned s1 current s2 existing version head where at_rev: "ontology_at pf t x r s = (Inr pinned, s1)"
    and load: "rs_load pf t None s1 = (Inr current, s2)"
    and get: "bt_get (ts_ontologies (sn_state current)) x = Some existing"
    and pub: "publication = \<lparr>op_publication_id = pid, op_revision_id = r, op_lifecycle = ''production'',
            op_metadata = metadata, op_base_version = version, op_base_hash = content_hash pf (or_ontology (ov_record pinned)),
            op_effective_hash = content_hash pf (or_ontology (ov_record pinned)),
            op_author = or_author (ov_record pinned), op_message = or_message (ov_record pinned),
            op_published_at_ms = pl_now pf s2, op_retired_at_ms = None\<rparr>"
    and commit: "rs_commit pf t (sn_revision_id current) (with_ontology x
      (existing\<lparr>or_display_name := name, or_production_publication := Some publication,
           or_message := ''Publish ontology'',
           or_authoring := touch (Some (sn_revision_id current)) ''main'' ''publish'' ''registry'' (pl_now pf s2)
             (or_authoring existing)\<rparr>) (sn_state current)) ''registry'' ''Publish ontology'' s2 = (Inr head, s')"
    using assms(3) unfolding publish_ontology_def Let_def with_ontology_def
    by (clarsimp simp: io_simps option_context_Inr_iff)
  let ?r = "existing\<lparr>or_display_name := name, or_production_publication := Some publication,
           or_message := ''Publish ontology'',
           or_authoring := touch (Some (sn_revision_id current)) ''main'' ''publish'' ''registry'' (pl_now pf s2)
             (or_authoring existing)\<rparr>"
  note s1 = keepsD [OF steady_reads(2) assms(1) at_rev]
  have wf: "wf_tenant_state (sn_state current)" by (rule wf_loaded [OF conjunct1 [OF s1] load])
  have "wf_ontology_record ?r"
    using wf_records(2) [OF wf get] clock assms(2)
    by (auto simp: wf_ontology_record_def pub wf_ontology_publication_record_def)
  then have "advances commits_of s1 s' t (sn_revision_id current) head (with_ontology x ?r)"
    using load_now_commit [OF conjunct1 [OF s1] load, of "with_ontology x ?r"] wf_with(2) [OF wf] commit by auto
  from advances_later [OF conjunct2 [OF s1] this] show ?thesis
    by (intro exI [of _ "sn_revision_id current"] exI [of _ head] exI [of _ ?r]) (simp add: pub)
qed

lemma retire_ontology_advances:
  assumes "valid s" "retire_ontology pf t x pid r s = (Inr head, s')"
  shows "\<exists>base record publication. advances commits_of s s' t base head (with_ontology x record) \<and>
    or_production_publication record = Some publication \<and> op_publication_id publication = pid \<and>
    op_revision_id publication = r \<and> op_lifecycle publication = ''retired''"
proof -
  obtain sn s1 existing publication where load: "rs_load pf t None s = (Inr sn, s1)"
    and get: "bt_get (ts_ontologies (sn_state sn)) x = Some existing" "or_production_publication existing = Some publication"
    and same: "op_publication_id publication = pid" "op_revision_id publication = r"
    and commit: "rs_commit pf t (sn_revision_id sn) (with_ontology x (existing\<lparr>
           or_production_publication :=
             Some (publication\<lparr>op_lifecycle := ''retired'', op_retired_at_ms := Some (pl_now pf s1)\<rparr>),
           or_message := ''Retire ontology'',
           or_authoring := touch (Some (sn_revision_id sn)) ''main'' ''retire'' ''registry'' (pl_now pf s1)
             (or_authoring existing)\<rparr>) (sn_state sn)) ''registry'' ''Retire ontology'' s1 = (Inr head, s')"
    using assms(2) unfolding retire_ontology_def Let_def with_ontology_def
    by (clarsimp simp: io_simps option_context_Inr_iff)
  let ?r = "existing\<lparr>or_production_publication :=
             Some (publication\<lparr>op_lifecycle := ''retired'', op_retired_at_ms := Some (pl_now pf s1)\<rparr>),
           or_message := ''Retire ontology'',
           or_authoring := touch (Some (sn_revision_id sn)) ''main'' ''retire'' ''registry'' (pl_now pf s1)
             (or_authoring existing)\<rparr>"
  have wf: "wf_tenant_state (sn_state sn)" by (rule wf_loaded [OF assms(1) load])
  have "wf_ontology_record ?r"
    using wf_records(2) [OF wf get(1)] clock get(2)
    by (auto simp: wf_ontology_record_def wf_ontology_publication_record_def)
  then show ?thesis
    using load_now_commit [OF assms(1) load, of "with_ontology x ?r"] wf_with(2) [OF wf] commit
    by (intro exI [of _ "sn_revision_id sn"] exI [of _ ?r]) (auto simp: same)
qed

lemma put_binding_advances:
  assumes "valid s" "wf_ontology_binding_record b" "put_binding pf t e b s = (Inr (b', head), s')"
  shows "b' = b \<and> advances commits_of s s' t e head
    (with_binding (binding_key (bd_pipeline_id b) (bd_block_id b)) b)"
proof -
  let ?k = "binding_key (bd_pipeline_id b) (bd_block_id b)"
  obtain tn s0 sn s1 s2 where ensure: "rs_ensure_tenant pf t s = (Inr tn, s0)"
    and load: "rs_load pf t None s0 = (Inr sn, s1)" "sn_revision_id sn = e"
    and check: "validate_published_binding pf t (sn_state sn) b s1 = (Inr (), s2)"
    and commit: "rs_commit pf t e (with_binding ?k b (sn_state sn)) ''registry'' ''Update ontology binding'' s2 = (Inr head, s')"
    and "b' = b"
    using assms(3) unfolding put_binding_def Let_def with_binding_def
    by (clarsimp simp: io_simps option_context_Inr_iff)
  have wf: "wf_tenant_state (sn_state sn)" by (rule wf_loaded [OF conjunct1 [OF ensure_extends [OF assms(1) ensure]] load(1)])
  show ?thesis
    using ensure_load_commit [where f = "with_binding ?k b", OF assms(1) ensure load(1) steady_views(3) check]
      wf_with(3) [OF wf assms(2)] load(2) commit \<open>b' = b\<close> by auto
qed

end

end
