(* ===== verification/Ontology_Authoring.thy ===== *)
theory Ontology_Authoring
  imports Registry_Properties
begin

text \<open>
  Ontology workspaces (\<open>platform/registry/src/ontology_authoring.rs\<close>): branches, drafts, semantic merges
  into the parent branch, tombstones, and the newest-first history of one ontology.
\<close>

section \<open>Definitions\<close>

datatype ontology_command =
    OCreateBranch string string
  | OSaveDraft string
  | OMerge string
  | ODeleteBranch string
  | ODelete
  | ORestore

fun ontology_operation_name :: "ontology_command \<Rightarrow> string" where
  "ontology_operation_name (OCreateBranch _ _) = ''create_branch''"
| "ontology_operation_name (OSaveDraft _) = ''save_draft''"
| "ontology_operation_name (OMerge _) = ''merge''"
| "ontology_operation_name (ODeleteBranch _) = ''delete_branch''"
| "ontology_operation_name ODelete = ''delete''"
| "ontology_operation_name ORestore = ''restore''"

record ontology_history_item =
  hi_revision_id :: string
  hi_author :: string
  hi_message :: string
  hi_branch :: string
  hi_operation :: string
  hi_created_at_ms :: int

record ontology_history_page =
  hp_items :: "ontology_history_item list"
  hp_next_revision_id :: "string option"

abbreviation branches_of :: "ontology_record \<Rightarrow> (string, ontology_branch) btree_map" where
  "branches_of r \<equiv> oa_branches (or_authoring r)"

definition set_branches :: "(string, ontology_branch) btree_map \<Rightarrow> ontology_record \<Rightarrow> ontology_record" where
  "set_branches m r = r\<lparr>or_authoring := (or_authoring r)\<lparr>oa_branches := m\<rparr>\<rparr>"

text \<open>The model and the name a branch holds; \<open>main\<close> is the record itself.\<close>

definition branch_content :: "string \<Rightarrow> ontology_record \<Rightarrow> string \<Rightarrow> (json \<times> string) result" where
  "branch_content msg r branch =
     (if branch = ''main'' then Inr (or_ontology r, or_display_name r)
      else and_then (option_context msg (bt_get (branches_of r) branch)) (\<lambda>b.
        Inr (ob_definition b, ob_display_name b)))"

definition fork :: "ontology_record \<Rightarrow> string \<Rightarrow> string \<Rightarrow> string \<Rightarrow> string \<Rightarrow> int \<Rightarrow> ontology_record result" where
  "fork r branch from_branch expected author now_ms =
     ensure (valid_branch branch \<and> branch \<noteq> ''main'' \<and> \<not> bt_contains (branches_of r) branch)
       ''invalid ontology branch'' (
     ensure (length (branches_of r) < 20) ''ontology branch limit exceeded'' (
     and_then (branch_content ''parent ontology branch unavailable'' r from_branch) (\<lambda>(document, name).
     Inr (set_branches (bt_insert branch
       \<lparr>ob_parent_branch = from_branch, ob_definition = document, ob_display_name = name,
        ob_base_definition = document, ob_base_display_name = name, ob_base_revision_id = expected,
        ob_author = author, ob_updated_at_ms = now_ms\<rparr> (branches_of r)) r))))"

definition save_branch :: "ontology_record \<Rightarrow> string \<Rightarrow> put_ontology_input \<Rightarrow> int \<Rightarrow> ontology_record result" where
  "save_branch r branch input now_ms =
     ensure (valid_branch branch) ''invalid ontology branch'' (
     ensure (\<not> trim_is_empty (oi_display_name input) \<and> length (oi_display_name input) \<le> 256)
       ''invalid ontology display name'' (
     and_then (validate_ontology (oi_ontology input)) (\<lambda>_.
     ensure (opt_eq (json_get (or_ontology r) ''plugin_origin'') (json_get (oi_ontology input) ''plugin_origin''))
       ''ontology plugin provenance is immutable'' (
     if branch = ''main'' then
       Inr (r\<lparr>or_ontology := oi_ontology input, or_display_name := oi_display_name input\<rparr>)
     else
       and_then (option_context ''ontology branch unavailable'' (bt_get (branches_of r) branch)) (\<lambda>b.
       Inr (set_branches (bt_insert branch
         (b\<lparr>ob_definition := oi_ontology input, ob_display_name := oi_display_name input,
            ob_author := oi_author input, ob_updated_at_ms := now_ms\<rparr>) (branches_of r)) r))))))"

definition merged_name :: "string \<Rightarrow> ontology_branch \<Rightarrow> string" where
  "merged_name name source = (if name = ob_base_display_name source then ob_display_name source else name)"

definition merge_branch :: "ontology_record \<Rightarrow> string \<Rightarrow> string \<Rightarrow> string \<Rightarrow> int \<Rightarrow> (string \<times> ontology_record) result" where
  "merge_branch r branch expected author now_ms =
     ensure (branch \<noteq> ''main'') ''invalid ontology merge source'' (
     and_then (option_context ''ontology branch unavailable'' (bt_get (branches_of r) branch)) (\<lambda>source.
     let parent = ob_parent_branch source in
     and_then (branch_content ''parent ontology branch unavailable'' r parent) (\<lambda>(target, name).
     ensure (name = ob_base_display_name source \<or> ob_display_name source = ob_base_display_name source \<or>
         name = ob_display_name source) ''ontology name conflict'' (
     and_then (merge_ontology (ob_base_definition source) target (ob_definition source)) (\<lambda>outcome.
     ensure (mr_conflicts outcome = []) ''ontology merge has conflicts'' (
     and_then (option_context ''ontology merge unavailable'' (mr_ontology outcome)) (\<lambda>merged.
     let r = set_branches (bt_insert branch
           (source\<lparr>ob_base_definition := ob_definition source, ob_base_display_name := ob_display_name source,
              ob_base_revision_id := expected\<rparr>) (branches_of r)) r in
     if parent = ''main'' then
       Inr (parent, r\<lparr>or_ontology := merged, or_display_name := merged_name name source\<rparr>)
     else
       and_then (option_context ''parent ontology branch unavailable'' (bt_get (branches_of r) parent)) (\<lambda>b.
       Inr (parent, set_branches (bt_insert parent
         (b\<lparr>ob_definition := merged, ob_display_name := merged_name name source, ob_author := author,
            ob_updated_at_ms := now_ms\<rparr>) (branches_of r)) r)))))))))"

definition remove_branch :: "ontology_record \<Rightarrow> string \<Rightarrow> ontology_record result" where
  "remove_branch r branch =
     ensure (branch \<noteq> ''main'' \<and> bt_contains (branches_of r) branch) ''ontology branch unavailable'' (
     ensure (\<not> list_ex (\<lambda>child. ob_parent_branch child = branch) (bt_values (branches_of r)))
       ''ontology branch has children'' (
     Inr (set_branches (bt_remove branch (branches_of r)) r)))"

definition delete_ontology :: "ontology_record \<Rightarrow> tenant_state \<Rightarrow> int \<Rightarrow> ontology_record result" where
  "delete_ontology r st now_ms =
     ensure (json_get (or_ontology r) ''plugin_origin'' = None) ''plugin ontology is protected'' (
     ensure (\<not> list_ex (\<lambda>b. bd_ontology_id b = or_ontology_id r) (bt_values (ts_bindings st)))
       ''ontology is used by a pipeline'' (
     ensure (\<not> list_ex (\<lambda>v. oa_deleted_at_ms (or_authoring v) = None \<and>
         pointer_str (or_ontology v) [''target_origin'', ''ontology_id''] = Some (or_ontology_id r))
         (bt_values (ts_ontologies st))) ''ontology is used by another model'' (
     Inr (r\<lparr>or_authoring := (or_authoring r)\<lparr>oa_deleted_at_ms := Some now_ms\<rparr>,
            or_production_publication := None\<rparr>))))"

definition apply_ontology_command ::
  "put_ontology_input \<Rightarrow> string \<Rightarrow> tenant_state \<Rightarrow> int \<Rightarrow> ontology_record \<Rightarrow> ontology_command
    \<Rightarrow> (string \<times> ontology_record) result" where
  "apply_ontology_command input expected st now_ms r command =
     (case command of
        OCreateBranch branch from_branch \<Rightarrow>
          and_then (fork r branch from_branch expected (oi_author input) now_ms) (\<lambda>r. Inr (branch, r))
      | OSaveDraft branch \<Rightarrow> and_then (save_branch r branch input now_ms) (\<lambda>r. Inr (branch, r))
      | OMerge branch \<Rightarrow> merge_branch r branch expected (oi_author input) now_ms
      | ODeleteBranch branch \<Rightarrow> and_then (remove_branch r branch) (\<lambda>r. Inr (branch, r))
      | ODelete \<Rightarrow> and_then (delete_ontology r st now_ms) (\<lambda>r. Inr (''main'', r))
      | ORestore \<Rightarrow>
          ensure (oa_deleted_at_ms (or_authoring r) \<noteq> None) ''ontology is not deleted'' (
          Inr (''main'', r\<lparr>or_authoring := (or_authoring r)\<lparr>oa_deleted_at_ms := None\<rparr>\<rparr>)))"

definition authored_ontology ::
  "put_ontology_input \<Rightarrow> ontology_command \<Rightarrow> string \<Rightarrow> string \<Rightarrow> int \<Rightarrow> ontology_record \<Rightarrow> ontology_record" where
  "authored_ontology input command affected head touched_at r =
     r\<lparr>or_authoring := touch (Some head) affected (ontology_operation_name command) (oi_author input) touched_at
         (or_authoring r),
       or_author := oi_author input,
       or_message := ''Ontology '' @ ontology_operation_name command\<rparr>"

definition author_ontology ::
  "'s platform \<Rightarrow> put_ontology_input \<Rightarrow> ontology_command \<Rightarrow> ('s, ontology_view) io" where
  "author_ontology pf input command =
     io_then (lift_io (validate_identity (oi_tenant_id input) (oi_ontology_id input))) (\<lambda>_.
     io_ensure (\<not> oi_create_only input) ''ontology commands require an existing model'' (
     io_ensure (oi_author input \<noteq> [] \<and> length (oi_author input) \<le> 256) ''invalid ontology author'' (
     io_then (lift_io (option_context ''expected revision ID is required'' (oi_expected_revision_id input))) (\<lambda>expected.
     io_ensure (valid_revision expected) ''invalid ontology revision'' (
     io_then (rs_load pf (oi_tenant_id input) None) (\<lambda>sn.
     io_ensure (sn_revision_id sn = expected) ''ontology head changed'' (
     io_then (lift_io (option_context ''ontology unavailable''
       (bt_get (ts_ontologies (sn_state sn)) (oi_ontology_id input)))) (\<lambda>existing.
     let st = (sn_state sn)\<lparr>ts_ontologies := bt_remove (oi_ontology_id input) (ts_ontologies (sn_state sn))\<rparr> in
     io_ensure (oa_deleted_at_ms (or_authoring existing) = None \<or> command = ORestore) ''ontology is deleted'' (
     io_then (now pf) (\<lambda>now_ms.
     io_then (lift_io (apply_ontology_command input expected st now_ms existing command)) (\<lambda>(affected, r).
     io_then (now pf) (\<lambda>touched_at.
     let record = authored_ontology input command affected (sn_revision_id sn) touched_at r;
         st = st\<lparr>ts_ontologies := bt_insert (oi_ontology_id input) record (ts_ontologies st)\<rparr> in
     io_then (lift_io (validate_workspace_size pf record)) (\<lambda>_.
     io_then (rs_commit pf (oi_tenant_id input) expected st (oi_author input) (ontology_operation_name command)) (\<lambda>revision.
     io_then (lift_io (option_context ''committed ontology unavailable''
       (bt_get (ts_ontologies st) (oi_ontology_id input)))) (\<lambda>record.
     lift_io (Inr \<lparr>ov_revision_id = revision, ov_record = record\<rparr>))))))))))))))))"

definition history_item :: "string \<Rightarrow> ontology_record \<Rightarrow> ontology_history_item" where
  "history_item revision r =
     (let m = or_authoring r in
      \<lparr>hi_revision_id = revision,
       hi_author = (if oa_last_author m = [] then or_author r else oa_last_author m),
       hi_message = or_message r,
       hi_branch = (if oa_last_branch m = [] then ''main'' else oa_last_branch m),
       hi_operation = (if oa_last_operation m = [] then ''save_draft'' else oa_last_operation m),
       hi_created_at_ms = (if oa_updated_at_ms m = 0 then or_created_at_ms r else oa_updated_at_ms m)\<rparr>)"

text \<open>The loop over \<open>0..limit\<close>: the revisions seen so far, the items so far, the next revision.\<close>

fun history_loop ::
  "'s platform \<Rightarrow> string \<Rightarrow> string \<Rightarrow> nat \<Rightarrow> string option \<Rightarrow> string list \<Rightarrow> ontology_history_item list
    \<Rightarrow> ('s, ontology_history_page) io" where
  "history_loop pf t x 0 next visited items = lift_io (Inr \<lparr>hp_items = items, hp_next_revision_id = next\<rparr>)"
| "history_loop pf t x (Suc n) next visited items =
     io_then (rs_load pf t next) (\<lambda>sn.
     io_ensure (sn_revision_id sn \<notin> set visited) ''ontology revision cycle'' (
     io_then (lift_io (option_context ''ontology unavailable at revision'' (bt_get (ts_ontologies (sn_state sn)) x))) (\<lambda>r.
     let items = items @ [history_item (sn_revision_id sn) r];
         next = oa_previous_revision_id (or_authoring r) in
     if next = None then lift_io (Inr \<lparr>hp_items = items, hp_next_revision_id = None\<rparr>)
     else history_loop pf t x n next (sn_revision_id sn # visited) items)))"

definition ontology_history ::
  "'s platform \<Rightarrow> string \<Rightarrow> string \<Rightarrow> string option \<Rightarrow> nat \<Rightarrow> ('s, ontology_history_page) io" where
  "ontology_history pf t x after limit =
     io_then (lift_io (validate_identity t x)) (\<lambda>_.
     io_ensure (1 \<le> limit \<and> limit \<le> 100) ''invalid ontology history limit'' (
     io_ensure (case after of None \<Rightarrow> True | Some r \<Rightarrow> valid_revision r) ''invalid ontology revision'' (
     history_loop pf t x limit after [] [])))"

end
