(* ===== verification/Ontology_Workspace.thy ===== *)
theory Ontology_Workspace
  imports Ontology_Authoring
begin

text \<open>
  Correctness of ontology workspaces: the branches form a tree rooted in \<open>main\<close>, every model of a
  workspace stays a valid ontology under every command, a merge loses no edit of either side, a
  command advances the history by one commit that changes one record, and the history lists
  distinct revisions within its limit.
\<close>

section \<open>Merged documents\<close>

lemma wf_map_filter: "(\<And>x. wf_opt (g x)) \<Longrightarrow> list_all wf_json (List.map_filter g xs)"
proof (induction xs)
  case (Cons x xs)
  then show ?case using Cons.prems [of x] by (cases "g x") (simp_all add: List.map_filter_simps)
qed (simp add: List.map_filter_simps)

lemma wf_merged_ontology:
  assumes "merge_ontology b l r = Inr outcome" "mr_ontology outcome = Some out" "wf_json b" "wf_json l" "wf_json r"
  shows "wf_json out" "validate_ontology out = Inr ()" "mr_conflicts outcome = []"
proof -
  have outcome: "merge_ontology b l r = Inr \<lparr>mr_ontology = Some out, mr_conflicts = mr_conflicts outcome\<rparr>"
    using assms(1,2) by (cases outcome) simp
  note clean = merge_ontology_clean [OF outcome assms(3-5)]
  note valid = merge_ontology_inputs_valid [OF assms(1)]
  obtain ids m where m: "fst (merged_metadata b l r) = Some (JObject m)"
    and eq: "merge_ontology b l r =
      (let conflicts = concat (map (\<lambda>x. snd (merged_at b l r x)) ids) @ snd (merged_metadata b l r) in
       if conflicts \<noteq> [] then Inr \<lparr>mr_ontology = None, mr_conflicts = conflicts\<rparr>
       else and_then (validate_ontology (merged_document ids b l r m)) (\<lambda>_.
         Inr \<lparr>mr_ontology = Some (merged_document ids b l r m), mr_conflicts = conflicts\<rparr>))"
    by (rule merge_ontology_valid [OF valid [THEN conjunct1] valid [THEN conjunct2, THEN conjunct1]
          valid [THEN conjunct2, THEN conjunct2]])
  define conflicts where
    "conflicts = concat (map (\<lambda>x. snd (merged_at b l r x)) ids) @ snd (merged_metadata b l r)"
  define cs where "cs = mr_conflicts outcome"
  have out: "out = merged_document ids b l r m"
    using outcome unfolding eq Let_def conflicts_def [symmetric] cs_def [symmetric]
    by (cases "conflicts = []") (auto simp: result_simps)
  have "wf_opt (fst (merged_at b l r x))" for x
    unfolding merged_at_def by (intro wf_merge_value wf_resource_at assms(3-5))
  then have "wf_json (JArray (List.map_filter (\<lambda>x. fst (merged_at b l r x)) ids))"
    by (simp add: wf_map_filter)
  moreover have "wf_opt (fst (merged_metadata b l r))"
    unfolding merged_metadata_def by (intro wf_merge_value) (use assms(3-5) valid in \<open>simp_all add: wf_metadata\<close>)
  ultimately show "wf_json out" unfolding out merged_document_def m by (intro wf_json_insert) simp_all
  show "validate_ontology out = Inr ()" "mr_conflicts outcome = []" using clean by simp_all
qed

section \<open>The workspace invariant\<close>

inductive rooted :: "(string, ontology_branch) btree_map \<Rightarrow> string \<Rightarrow> bool" for m where
  main: "rooted m ''main''"
| child: "bt_get m x = Some b \<Longrightarrow> rooted m (ob_parent_branch b) \<Longrightarrow> rooted m x"

inductive_cases rooted_branch: "rooted m x"

definition valid_model :: "json \<Rightarrow> bool" where
  "valid_model v \<longleftrightarrow> wf_json v \<and> validate_ontology v = Inr ()"

definition model_branch_ok :: "ontology_branch \<Rightarrow> bool" where
  "model_branch_ok b \<longleftrightarrow>
     valid_model (ob_definition b) \<and> valid_model (ob_base_definition b) \<and> i64 (ob_updated_at_ms b)"

definition stamps_ok :: "ontology_record \<Rightarrow> bool" where
  "stamps_ok r \<longleftrightarrow> i64 (or_created_at_ms r) \<and> i64 (oa_updated_at_ms (or_authoring r)) \<and>
     pred_option i64 (oa_deleted_at_ms (or_authoring r)) \<and>
     pred_option wf_ontology_publication_record (or_production_publication r)"

definition workspace_ok :: "ontology_record \<Rightarrow> bool" where
  "workspace_ok r \<longleftrightarrow> stamps_ok r \<and> valid_model (or_ontology r) \<and> btree (branches_of r) \<and> bt_get (branches_of r) ''main'' = None \<and>
     length (branches_of r) \<le> 20 \<and>
     (\<forall>x b. bt_get (branches_of r) x = Some b \<longrightarrow> model_branch_ok b \<and> rooted (branches_of r) x)"

lemma workspace_wf:
  assumes "workspace_ok r"
  shows "wf_ontology_record r"
proof -
  have "wf_map wf_ontology_branch (branches_of r)"
    using assms unfolding wf_map_def
    by (auto simp: workspace_ok_def model_branch_ok_def wf_ontology_branch_def valid_model_def
        simp flip: bt_get_eq_Some)
  then show ?thesis
    using assms by (auto simp: workspace_ok_def stamps_ok_def valid_model_def wf_ontology_record_def
        wf_ontology_authoring_state_def)
qed

lemma rooted_mono:
  assumes "rooted m x" "\<And>y b. bt_get m y = Some b \<Longrightarrow> \<exists>b'. bt_get n y = Some b' \<and> ob_parent_branch b' = ob_parent_branch b"
  shows "rooted n x"
  using assms(1)
proof induction
  case (child x b)
  then show ?case using assms(2) by (metis rooted.child)
qed (rule rooted.main)

text \<open>Replacing a branch by one with the same parent moves nothing.\<close>

lemma rooted_replace:
  assumes "bt_get m k = Some b" "ob_parent_branch b' = ob_parent_branch b" "rooted m x"
  shows "rooted (bt_insert k b' m) x"
  using assms(3) by (rule rooted_mono) (use assms(1,2) in auto)

lemma rooted_insert_new:
  assumes "bt_get m k = None" "rooted m x"
  shows "rooted (bt_insert k b m) x"
  using assms(2) by (rule rooted_mono) (use assms(1) in auto)

lemma rooted_remove_leaf:
  assumes "rooted m x" "x \<noteq> k" "\<And>y b. bt_get m y = Some b \<Longrightarrow> ob_parent_branch b \<noteq> k"
  shows "rooted (bt_remove k m) x"
  using assms(1,2)
proof induction
  case (child x b)
  then show ?case using assms(3) by (auto intro: rooted.child [of _ x b])
qed (rule rooted.main)

lemma length_btree: "btree m \<Longrightarrow> length m = card (fst ` set m)"
  by (metis btree_distinct distinct_card length_map list.set_map)

lemma length_bt_insert_old:
  assumes "btree m" "bt_get m k = Some w"
  shows "length (bt_insert k v m) = length m"
proof -
  have "k \<in> fst ` set m" using assms(2) by (auto simp: bt_get_def dest!: map_of_SomeD intro: image_eqI [of _ fst "(k, w)"])
  then show ?thesis by (simp add: length_btree [OF assms(1)] length_btree [OF btree_insert [OF assms(1)]] insert_absorb)
qed

lemma set_branches_sel [simp]:
  "branches_of (set_branches m r) = m" "or_ontology (set_branches m r) = or_ontology r"
  "or_display_name (set_branches m r) = or_display_name r"
  "stamps_ok (set_branches m r) = stamps_ok r"
  by (simp_all add: set_branches_def stamps_ok_def)

lemma branch_content_ok:
  assumes "workspace_ok r" "branch_content msg r x = Inr (document, name)"
  shows "valid_model document" "rooted (branches_of r) x"
  using assms
  by (auto simp: branch_content_def workspace_ok_def and_then_Inr_iff option_context_Inr_iff model_branch_ok_def
      intro: rooted.main split: if_splits)

lemma fork_ok:
  assumes "workspace_ok r" "i64 t" "fork r branch from expected author t = Inr r'"
  shows "workspace_ok r'"
proof -
  obtain document name where new: "branch \<noteq> ''main''" "bt_get (branches_of r) branch = None" "length (branches_of r) < 20"
    and content: "branch_content ''parent ontology branch unavailable'' r from = Inr (document, name)"
    and r': "r' = set_branches (bt_insert branch
       \<lparr>ob_parent_branch = from, ob_definition = document, ob_display_name = name,
        ob_base_definition = document, ob_base_display_name = name, ob_base_revision_id = expected,
        ob_author = author, ob_updated_at_ms = t\<rparr> (branches_of r)) r"
    using assms(3) unfolding fork_def
    by (auto simp: ensure_Inr_iff and_then_Inr_iff bt_contains_get)
  note content = branch_content_ok [OF assms(1) content]
  have "rooted (branches_of r') branch"
    using rooted_insert_new [OF new(2) content(2)] new(1) by (intro rooted.child [of _ branch]) (auto simp: r')
  moreover have "rooted (branches_of r') x" if "rooted (branches_of r) x" for x
    using rooted_insert_new [OF new(2) that] by (simp add: r')
  ultimately show ?thesis
    using assms(1,2) content(1) new
    by (auto simp: workspace_ok_def r' model_branch_ok_def length_bt_insert_new btree_insert)
qed

text \<open>Changing one branch in place.\<close>

lemma replace_branch_ok:
  assumes "workspace_ok r" "bt_get (branches_of r) x = Some b" "ob_parent_branch b' = ob_parent_branch b" "model_branch_ok b'"
  shows "workspace_ok (set_branches (bt_insert x b' (branches_of r)) r)"
  using assms length_bt_insert_old [of "branches_of r" x b b'] rooted_replace [OF assms(2,3)]
  by (auto simp: workspace_ok_def btree_insert)

lemma main_model_ok:
  "workspace_ok r \<Longrightarrow> valid_model v \<Longrightarrow> workspace_ok (r\<lparr>or_ontology := v, or_display_name := n\<rparr>)"
  by (simp add: workspace_ok_def stamps_ok_def)

lemma save_branch_ok:
  assumes "workspace_ok r" "wf_json (oi_ontology input)" "save_branch r branch input t = Inr r'" "i64 t"
  shows "workspace_ok r'"
proof -
  have ok: "valid_model (oi_ontology input)"
    using assms(2,3) unfolding save_branch_def valid_model_def by (simp add: ensure_Inr_iff and_then_Inr_iff)
  show ?thesis
  proof (cases "branch = ''main''")
    case True
    then have "r' = r\<lparr>or_ontology := oi_ontology input, or_display_name := oi_display_name input\<rparr>"
      using assms(3) by (simp add: save_branch_def ensure_Inr_iff and_then_Inr_iff)
    then show ?thesis using main_model_ok [OF assms(1) ok] by simp
  next
    case False
    then obtain b where b: "bt_get (branches_of r) branch = Some b"
      and r': "r' = set_branches (bt_insert branch
         (b\<lparr>ob_definition := oi_ontology input, ob_display_name := oi_display_name input,
            ob_author := oi_author input, ob_updated_at_ms := t\<rparr>) (branches_of r)) r"
      using assms(3) by (auto simp: save_branch_def ensure_Inr_iff and_then_Inr_iff option_context_Inr_iff)
    have "model_branch_ok b" using assms(1) b by (simp add: workspace_ok_def)
    then show ?thesis unfolding r' using ok assms(4) by (intro replace_branch_ok [OF assms(1) b]) (simp_all add: model_branch_ok_def)
  qed
qed

lemma merge_branch_Inr:
  assumes "merge_branch r branch expected author t = Inr (parent, r')"
  obtains source target name merged outcome where
    "branch \<noteq> ''main''" "bt_get (branches_of r) branch = Some source" "parent = ob_parent_branch source"
    "branch_content ''parent ontology branch unavailable'' r parent = Inr (target, name)"
    "merge_ontology (ob_base_definition source) target (ob_definition source) = Inr outcome"
    "mr_ontology outcome = Some merged"
    "parent = ''main'' \<Longrightarrow> r' = (set_branches (bt_insert branch
           (source\<lparr>ob_base_definition := ob_definition source, ob_base_display_name := ob_display_name source,
              ob_base_revision_id := expected\<rparr>) (branches_of r)) r)\<lparr>or_ontology := merged,
           or_display_name := merged_name name source\<rparr>"
    "parent \<noteq> ''main'' \<Longrightarrow> \<exists>b m. m = bt_insert branch
           (source\<lparr>ob_base_definition := ob_definition source, ob_base_display_name := ob_display_name source,
              ob_base_revision_id := expected\<rparr>) (branches_of r) \<and> bt_get m parent = Some b \<and>
         r' = set_branches (bt_insert parent (b\<lparr>ob_definition := merged, ob_display_name := merged_name name source,
           ob_author := author, ob_updated_at_ms := t\<rparr>) m) (set_branches m r)"
proof -
  obtain source where source: "branch \<noteq> ''main''" "bt_get (branches_of r) branch = Some source"
    using assms unfolding merge_branch_def by (auto simp: ensure_Inr_iff and_then_Inr_iff option_context_Inr_iff)
  note run = assms [unfolded merge_branch_def Let_def source(2) option_context_simps and_then_simps]
  obtain target name outcome merged where more:
    "branch_content ''parent ontology branch unavailable'' r (ob_parent_branch source) = Inr (target, name)"
    "merge_ontology (ob_base_definition source) target (ob_definition source) = Inr outcome" "mr_ontology outcome = Some merged"
    using run by (auto simp: ensure_Inr_iff and_then_Inr_iff option_context_Inr_iff)
  note run = run [unfolded more and_then_simps prod.case option_context_simps ensure_Inr_iff]
  have parent: "parent = ob_parent_branch source"
    using run by (auto simp: and_then_Inr_iff option_context_Inr_iff split: if_splits)
  show thesis
    by (rule that [OF source parent _ more(2,3)])
      (use run more(1) parent in \<open>auto simp: and_then_Inr_iff option_context_Inr_iff split: if_splits\<close>)
qed

lemma merge_branch_models:
  assumes "workspace_ok r" "merge_branch r branch expected author t = Inr (parent, r')" "i64 t"
  obtains source target merged where
    "bt_get (branches_of r) branch = Some source" "parent = ob_parent_branch source" "branch \<noteq> ''main''"
    "(\<exists>n. branch_content [] r parent = Inr (target, n))" "(\<exists>n. branch_content [] r' parent = Inr (merged, n))"
    "(\<exists>outcome. merge_ontology (ob_base_definition source) target (ob_definition source) = Inr outcome \<and>
      mr_ontology outcome = Some merged)"
    "valid_model merged" "workspace_ok r'"
proof (rule merge_branch_Inr [OF assms(2)])
  fix source target name merged outcome
  assume source: "branch \<noteq> ''main''" "bt_get (branches_of r) branch = Some source" "parent = ob_parent_branch source"
    and content: "branch_content ''parent ontology branch unavailable'' r parent = Inr (target, name)"
    and merge: "merge_ontology (ob_base_definition source) target (ob_definition source) = Inr outcome"
      "mr_ontology outcome = Some merged"
    and main: "parent = ''main'' \<Longrightarrow> r' = (set_branches (bt_insert branch
           (source\<lparr>ob_base_definition := ob_definition source, ob_base_display_name := ob_display_name source,
              ob_base_revision_id := expected\<rparr>) (branches_of r)) r)\<lparr>or_ontology := merged,
           or_display_name := merged_name name source\<rparr>"
    and other: "parent \<noteq> ''main'' \<Longrightarrow> \<exists>b m. m = bt_insert branch
           (source\<lparr>ob_base_definition := ob_definition source, ob_base_display_name := ob_display_name source,
              ob_base_revision_id := expected\<rparr>) (branches_of r) \<and> bt_get m parent = Some b \<and>
         r' = set_branches (bt_insert parent (b\<lparr>ob_definition := merged, ob_display_name := merged_name name source,
           ob_author := author, ob_updated_at_ms := t\<rparr>) m) (set_branches m r)"
  have ok: "model_branch_ok source" using assms(1) source(2) by (simp add: workspace_ok_def)
  have "valid_model target" by (rule branch_content_ok(1) [OF assms(1) content])
  then have merged: "valid_model merged"
    using wf_merged_ontology [OF merge] ok by (simp add: valid_model_def model_branch_ok_def)
  define r1 where "r1 = set_branches (bt_insert branch
           (source\<lparr>ob_base_definition := ob_definition source, ob_base_display_name := ob_display_name source,
              ob_base_revision_id := expected\<rparr>) (branches_of r)) r"
  have r1: "workspace_ok r1"
    unfolding r1_def using ok by (intro replace_branch_ok [OF assms(1) source(2)]) (simp_all add: model_branch_ok_def)
  have "workspace_ok r' \<and> (\<exists>n. branch_content [] r' parent = Inr (merged, n))"
  proof (cases "parent = ''main''")
    case True
    then show ?thesis using main main_model_ok [OF r1 merged] by (simp add: r1_def branch_content_def)
  next
    case False
    from other [OF False] obtain b where b: "bt_get (branches_of r1) parent = Some b"
      and r': "r' = set_branches (bt_insert parent (b\<lparr>ob_definition := merged, ob_display_name := merged_name name source,
           ob_author := author, ob_updated_at_ms := t\<rparr>) (branches_of r1)) r1"
      by (auto simp: r1_def)
    have "model_branch_ok b" using r1 b by (simp add: workspace_ok_def)
    then have "workspace_ok r'"
      unfolding r' using merged assms(3) by (intro replace_branch_ok [OF r1 b]) (simp_all add: model_branch_ok_def)
    then show ?thesis using False by (simp add: r' branch_content_def)
  qed
  moreover have "\<exists>n. branch_content [] r parent = Inr (target, n)"
    using content by (auto simp: branch_content_def and_then_Inr_iff option_context_Inr_iff split: if_splits)
  ultimately show thesis using that [OF source(2,3,1)] merge merged by blast
qed

lemma remove_branch_ok:
  assumes "workspace_ok r" "remove_branch r branch = Inr r'"
  shows "workspace_ok r'"
proof -
  have leaf: "ob_parent_branch b \<noteq> branch" if "bt_get (branches_of r) y = Some b" for y b
  proof -
    have "b \<in> set (bt_values (branches_of r))"
      using map_of_SomeD [OF that [unfolded bt_get_def]] unfolding bt_values_def by (metis set_zip_rightD zip_map_fst_snd)
    then show ?thesis using assms(2) by (auto simp: remove_branch_def ensure_Inr_iff list_ex_iff)
  qed
  have r': "r' = set_branches (bt_remove branch (branches_of r)) r"
    using assms(2) by (simp add: remove_branch_def ensure_Inr_iff)
  have "rooted (bt_remove branch (branches_of r)) x" if "rooted (branches_of r) x" "x \<noteq> branch" for x
    by (rule rooted_remove_leaf [OF that leaf])
  moreover have "length (bt_remove branch (branches_of r)) \<le> length (branches_of r)"
    unfolding bt_remove_def by (rule length_filter_le)
  ultimately show ?thesis
    using assms(1) by (auto simp: workspace_ok_def r' btree_remove)
qed

lemma workspace_ok_cong:
  "or_ontology r' = or_ontology r \<Longrightarrow> branches_of r' = branches_of r \<Longrightarrow> stamps_ok r' \<Longrightarrow>
    workspace_ok r \<Longrightarrow> workspace_ok r'"
  by (simp add: workspace_ok_def)

lemma delete_ontology_ok: "workspace_ok r \<Longrightarrow> i64 t \<Longrightarrow> delete_ontology r st t = Inr r' \<Longrightarrow> workspace_ok r'"
  by (rule workspace_ok_cong [of r' r]) (auto simp: delete_ontology_def ensure_Inr_iff workspace_ok_def stamps_ok_def)

lemma apply_ontology_command_ok:
  assumes "workspace_ok r" "wf_json (oi_ontology input)"
    and "apply_ontology_command input expected st t r command = Inr (affected, r')" "i64 t"
  shows "workspace_ok r'"
proof (cases command)
  case (OMerge branch)
  with assms(3) have "merge_branch r branch expected (oi_author input) t = Inr (affected, r')"
    by (simp add: apply_ontology_command_def)
  then show ?thesis by (rule merge_branch_models [OF assms(1) _ assms(4)])
next
  case ORestore
  with assms(1,3) show ?thesis
    by (intro workspace_ok_cong [of r' r]) (auto simp: apply_ontology_command_def ensure_Inr_iff workspace_ok_def stamps_ok_def)
qed (use assms in \<open>auto simp: apply_ontology_command_def and_then_Inr_iff
      intro: fork_ok save_branch_ok remove_branch_ok delete_ontology_ok\<close>)

section \<open>Commands on the store\<close>

context revision_store
begin

lemma author_ontology_Inr:
  assumes "author_ontology pf input command s = (Inr view, s')"
  obtains e sn s1 existing affected r where
    "oi_expected_revision_id input = Some e" "rs_load pf (oi_tenant_id input) None s = (Inr sn, s1)"
    "sn_revision_id sn = e" "bt_get (ts_ontologies (sn_state sn)) (oi_ontology_id input) = Some existing"
    "oa_deleted_at_ms (or_authoring existing) = None \<or> command = ORestore"
    "apply_ontology_command input e
       ((sn_state sn)\<lparr>ts_ontologies := bt_remove (oi_ontology_id input) (ts_ontologies (sn_state sn))\<rparr>)
       (pl_now pf s1) existing command = Inr (affected, r)"
    "ov_record view = authored_ontology input command affected e (pl_now pf s1) r"
    "rs_commit pf (oi_tenant_id input) e
       ((sn_state sn)\<lparr>ts_ontologies := bt_insert (oi_ontology_id input) (ov_record view)
         (bt_remove (oi_ontology_id input) (ts_ontologies (sn_state sn)))\<rparr>)
       (oi_author input) (ontology_operation_name command) s1 = (Inr (ov_revision_id view), s')"
  using assms unfolding author_ontology_def Let_def
  by (clarsimp simp: io_simps option_context_Inr_iff)

text \<open>
  A command that succeeds replaces one record of the head it was aimed at, and leaves a sound
  workspace if it found one.
\<close>

lemma author_ontology_advances:
  assumes "valid s" "wf_json (oi_ontology input)" "author_ontology pf input command s = (Inr view, s')"
    and sound: "\<And>sn s1 r. rs_load pf (oi_tenant_id input) None s = (Inr sn, s1) \<Longrightarrow>
      bt_get (ts_ontologies (sn_state sn)) (oi_ontology_id input) = Some r \<Longrightarrow> workspace_ok r"
  shows "workspace_ok (ov_record view) \<and>
    (\<exists>e. oi_expected_revision_id input = Some e \<and>
      advances commits_of s s' (oi_tenant_id input) e (ov_revision_id view)
        (with_ontology (oi_ontology_id input) (ov_record view)))"
proof (rule author_ontology_Inr [OF assms(3)])
  fix e sn s1 existing affected r
  assume e: "oi_expected_revision_id input = Some e" and load: "rs_load pf (oi_tenant_id input) None s = (Inr sn, s1)"
    and head: "sn_revision_id sn = e"
    and get: "bt_get (ts_ontologies (sn_state sn)) (oi_ontology_id input) = Some existing"
    and apply_c: "apply_ontology_command input e
       ((sn_state sn)\<lparr>ts_ontologies := bt_remove (oi_ontology_id input) (ts_ontologies (sn_state sn))\<rparr>)
       (pl_now pf s1) existing command = Inr (affected, r)"
    and rec: "ov_record view = authored_ontology input command affected e (pl_now pf s1) r"
    and commit: "rs_commit pf (oi_tenant_id input) e
       ((sn_state sn)\<lparr>ts_ontologies := bt_insert (oi_ontology_id input) (ov_record view)
         (bt_remove (oi_ontology_id input) (ts_ontologies (sn_state sn)))\<rparr>)
       (oi_author input) (ontology_operation_name command) s1 = (Inr (ov_revision_id view), s')"
  have wf: "wf_tenant_state (sn_state sn)" by (rule wf_loaded [OF assms(1) load])
  have "workspace_ok r" by (rule apply_ontology_command_ok [OF sound [OF load get] assms(2) apply_c clock])
  then have ok: "workspace_ok (ov_record view)"
    unfolding rec authored_ontology_def
    by (rule workspace_ok_cong [rotated -1]) (use clock \<open>workspace_ok r\<close> in \<open>auto simp: touch_def stamps_ok_def workspace_ok_def\<close>)
  have "wf_tenant_state (with_ontology (oi_ontology_id input) (ov_record view) (sn_state sn))"
    by (intro wf_with(2) wf workspace_wf ok)
  then have "advances commits_of s s' (oi_tenant_id input) e (ov_revision_id view)
      (with_ontology (oi_ontology_id input) (ov_record view))"
    using load_now_commit [OF assms(1) load, of "with_ontology (oi_ontology_id input) (ov_record view)"] commit head
    by (simp add: replace_record [OF wf])
  with e ok show ?thesis by blast
qed

section \<open>History\<close>

lemma history_loop_items:
  assumes "history_loop pf t x n nxt visited items s = (Inr page, s')"
    and "map hi_revision_id items = rev visited" "distinct visited"
  shows "length (hp_items page) \<le> length items + n \<and> distinct (map hi_revision_id (hp_items page))"
  using assms
proof (induction n arbitrary: nxt visited items s)
  case 0
  then show ?case by (auto simp: io_simps)
next
  case (Suc n)
  obtain sn :: snapshot and s1 and r :: ontology_record where fresh: "sn_revision_id sn \<notin> set visited"
    and rest: "(if oa_previous_revision_id (or_authoring r) = None
      then lift_io (Inr \<lparr>hp_items = items @ [history_item (sn_revision_id sn) r], hp_next_revision_id = None\<rparr>)
      else history_loop pf t x n (oa_previous_revision_id (or_authoring r)) (sn_revision_id sn # visited)
        (items @ [history_item (sn_revision_id sn) r])) s1 = (Inr page, s')"
    using Suc.prems(1) by (clarsimp simp: io_simps Let_def option_context_Inr_iff)
  have items: "map hi_revision_id (items @ [history_item (sn_revision_id sn) r]) = rev (sn_revision_id sn # visited)"
    using Suc.prems(2) by (simp add: history_item_def Let_def)
  show ?case
  proof (cases "oa_previous_revision_id (or_authoring r) = None")
    case True
    then have page: "hp_items page = items @ [history_item (sn_revision_id sn) r]" using rest by (auto simp: io_simps)
    show ?thesis unfolding page items using fresh Suc.prems(3) by simp
  next
    case False
    then show ?thesis using Suc.IH [OF _ items, of _ s1] rest fresh Suc.prems(3) by auto
  qed
qed

lemma ontology_history_page:
  assumes "ontology_history pf t x after limit s = (Inr page, s')"
  shows "length (hp_items page) \<le> limit \<and> distinct (map hi_revision_id (hp_items page))"
  using assms history_loop_items [of t x limit after "[]" "[]"] unfolding ontology_history_def
  by (auto simp: io_simps)

end

end
