(* ===== verification/Authoring_Merge.thy ===== *)
theory Authoring_Merge
  imports Authoring
begin

text \<open>
  Correctness of the block-aware merge and of the comparison in \<open>Authoring\<close>: JSON pointers
  address one place each, a merge without conflicts loses no edit of any block, and every
  conflict that is reported is genuine and unresolved.
\<close>

section \<open>Pointers\<close>

definition escape :: "string \<Rightarrow> string" where
  "escape key = replace_char (CHR ''/'') ''~1'' (replace_char (CHR ''~'') ''~0'' key)"

fun pointer_path :: "string \<Rightarrow> string list \<Rightarrow> string" where
  "pointer_path p [] = p"
| "pointer_path p (k # ks) = pointer_path (pointer p k) ks"

lemma escape_simps [simp]:
  "escape [] = []"
  "escape (c # s) = (if c = CHR ''~'' then ''~0'' else if c = CHR ''/'' then ''~1'' else [c]) @ escape s"
  by (simp_all add: escape_def replace_char_def)

lemma pointer_escape: "pointer p k = p @ CHR ''/'' # escape k"
  by (simp add: pointer_def escape_def)

lemma escape_no_slash: "CHR ''/'' \<notin> set (escape s)"
  by (induction s) auto

lemma escape_inject: "escape s = escape t \<Longrightarrow> s = t"
proof (induction s arbitrary: t)
  case Nil
  then show ?case by (cases t) (auto split: if_splits)
next
  case (Cons c s)
  then show ?case by (cases t) (auto split: if_splits)
qed

lemma append_slash_inject:
  assumes "xs @ CHR ''/'' # us = ys @ CHR ''/'' # vs" "CHR ''/'' \<notin> set xs" "CHR ''/'' \<notin> set ys"
  shows "xs = ys \<and> us = vs"
  using assms
proof (induction xs arbitrary: ys)
  case Nil
  then show ?case by (cases ys) auto
next
  case (Cons x xs)
  then show ?case by (cases ys) auto
qed

lemma pointer_path_append: "pointer_path p ks = p @ concat (map (\<lambda>k. CHR ''/'' # escape k) ks)"
  by (induction ks arbitrary: p) (simp_all add: pointer_escape)

text \<open>
  The pointers by which conflicts are reported and resolved are unambiguous: the escaping of
  \<open>pointer\<close> makes different paths into a document different pointers.
\<close>

lemma pointer_path_inject: "pointer_path p ks = pointer_path p ks' \<Longrightarrow> ks = ks'"
proof -
  have "concat (map (\<lambda>k. CHR ''/'' # escape k) ks) = concat (map (\<lambda>k. CHR ''/'' # escape k) ks') \<Longrightarrow> ks = ks'"
  proof (induction ks arbitrary: ks')
    case Nil
    then show ?case by (cases ks') auto
  next
    case (Cons k ks)
    then obtain k' ls where ks': "ks' = k' # ls" by (cases ks') auto
    let ?r = "concat (map (\<lambda>k. CHR ''/'' # escape k) ks)" and ?r' = "concat (map (\<lambda>k. CHR ''/'' # escape k) ls)"
    have eq: "escape k @ ?r = escape k' @ ?r'" using Cons.prems ks' by simp
    have shape: "?r = [] \<or> (\<exists>u. ?r = CHR ''/'' # u)" "?r' = [] \<or> (\<exists>u. ?r' = CHR ''/'' # u)"
      by (cases ks; simp) (cases ls; simp)
    have "escape k = escape k' \<and> ?r = ?r'"
    proof -
      have "(escape k @ ?r) @ [CHR ''/''] = (escape k' @ ?r') @ [CHR ''/'']" using eq by simp
      then have "\<exists>u v. escape k @ CHR ''/'' # u = escape k' @ CHR ''/'' # v"
        using shape by (metis append_Cons append_Nil2 append_assoc)
      then have "escape k = escape k'"
        using append_slash_inject escape_no_slash by blast
      with eq show ?thesis by simp
    qed
    then show ?case using Cons.IH [of ls] escape_inject ks' by auto
  qed
  then show "pointer_path p ks = pointer_path p ks' \<Longrightarrow> ks = ks'" by (simp add: pointer_path_append)
qed

lemma pointer_path_inject_witness: "pointer_path [] [''a'', ''b''] \<noteq> pointer_path [] [''a/b'']"
  using pointer_path_inject [of "[]" "[''a'', ''b'']" "[''a/b'']"] by auto

section \<open>One call of the merge\<close>

definition ancestor_of :: "json option \<Rightarrow> json_map" where
  "ancestor_of b = (case Option.bind b as_object of None \<Rightarrow> [] | Some m \<Rightarrow> m)"

definition object_or_absent :: "json option \<Rightarrow> bool" where
  "object_or_absent b \<longleftrightarrow> b = None \<or> Option.bind b as_object \<noteq> None"

lemma ancestor_field: "object_or_absent b \<Longrightarrow> map_of (ancestor_of b) k = field b k"
  by (cases b) (auto simp: ancestor_of_def object_or_absent_def field_def json_get_def)

definition mergeable :: "json option \<Rightarrow> json option \<Rightarrow> json option \<Rightarrow> bool" where
  "mergeable b t s \<longleftrightarrow> object_or_absent b \<and> (\<exists>m. t = Some (JObject m)) \<and> (\<exists>m. s = Some (JObject m))"

definition merged_fields ::
  "resolutions \<Rightarrow> string \<Rightarrow> json option \<Rightarrow> json option \<Rightarrow> json option \<Rightarrow> nat \<Rightarrow> string
    \<Rightarrow> (json option \<times> definition_conflict list) result" where
  "merged_fields res p b t s d k =
     merge_definition_value res (pointer p k) (field b k) (field t k) (field s k) (d + 1)"

text \<open>The ways in which a successful call ends.\<close>

lemma merge_definition_cases:
  assumes "merge_definition_value res p b t s d = Inr (v, cs)"
  obtains (keep) "opt_eq t s \<or> opt_eq s b" "v = t" "cs = []"
  | (take) "\<not> opt_eq t s" "\<not> opt_eq s b" "opt_eq t b" "v = s" "cs = []"
  | (objects) ks parts where "\<not> opt_eq t s" "\<not> opt_eq s b" "\<not> opt_eq t b" "mergeable b t s"
      "distinct ks" "\<And>k. k \<notin> set ks \<Longrightarrow> field b k = None \<and> field t k = None \<and> field s k = None"
      "list_all2 (\<lambda>k vc. merged_fields res p b t s d k = Inr vc) ks parts"
      "v = Some (JObject (assemble (zip ks (map fst parts))))" "cs = concat (map snd parts)"
  | (resolved) c where "\<not> opt_eq t s" "\<not> opt_eq s b" "\<not> opt_eq t b" "\<not> mergeable b t s"
      "bt_get res p = Some c" "v = (case c of Target \<Rightarrow> t | Source \<Rightarrow> s)" "cs = []"
  | (conflict) "\<not> opt_eq t s" "\<not> opt_eq s b" "\<not> opt_eq t b" "\<not> mergeable b t s"
      "bt_get res p = None" "v = t" "cs = [\<lparr>dc_path = p, dc_base = b, dc_target = t, dc_source = s\<rparr>]"
proof -
  note unfold = merge_definition_value.simps [of res p b t s d]
  have d: "d \<le> 32" using assms unfolding unfold by (simp add: ensure_Inr_iff)
  consider (1) "opt_eq t s \<or> opt_eq s b" | (2) "\<not> opt_eq t s" "\<not> opt_eq s b" "opt_eq t b"
    | (3) "\<not> opt_eq t s" "\<not> opt_eq s b" "\<not> opt_eq t b" "mergeable b t s"
    | (4) "\<not> opt_eq t s" "\<not> opt_eq s b" "\<not> opt_eq t b" "\<not> mergeable b t s" by argo
  then show thesis
  proof cases
    case 1
    then have "merge_definition_value res p b t s d = Inr (t, [])"
      using d by (simp only: unfold ensure_simps if_True simp_thms)
    with assms have "v = t" "cs = []" by simp_all
    with 1 show ?thesis by (rule keep)
  next
    case 2
    then have "merge_definition_value res p b t s d = Inr (s, [])"
      using d by (simp only: unfold ensure_simps if_True if_False simp_thms)
    with assms have "v = s" "cs = []" by simp_all
    with 2 show ?thesis by (rule take)
  next
    case 3
    then obtain l r where lr: "t = Some (JObject l)" "s = Some (JObject r)" and obj: "object_or_absent b"
      by (auto simp: mergeable_def)
    define ks where "ks = bs_collect (map fst l @ map fst r @ map fst (ancestor_of b))"
    have outside: "field b k = None \<and> field t k = None \<and> field s k = None" if "k \<notin> set ks" for k
      using that lr by (simp add: ks_def map_of_eq_None_iff flip: ancestor_field [OF obj])
    have "merge_definition_value res p b t s d =
        and_then (try_map (\<lambda>k. and_then (merged_fields res p b t s d k) (\<lambda>vc. Inr (k, vc))) ks) (\<lambda>parts.
        Inr (Some (JObject (assemble (map (\<lambda>(key, v, _). (key, v)) parts))), concat (map (\<lambda>(_, _, cs). cs) parts)))"
    proof -
      have "merge_definition_value res p b t s d =
          (let ancestor = ancestor_of b in
           and_then (try_map (\<lambda>key.
             and_then (merge_definition_value res (pointer p key) (map_of ancestor key)
               (map_of l key) (map_of r key) (d + 1)) (\<lambda>vc. Inr (key, vc)))
             (bs_collect (map fst l @ map fst r @ map fst ancestor))) (\<lambda>parts.
           Inr (Some (JObject (assemble (map (\<lambda>(key, v, _). (key, v)) parts))),
                concat (map (\<lambda>(_, _, cs). cs) parts))))"
        unfolding unfold using 3(1-3) d obj [unfolded object_or_absent_def]
        by (simp only: ensure_simps if_False simp_thms lr bind.simps as_simps option.case prod.case
            bool.case ancestor_of_def)
      then show ?thesis
        by (simp only: Let_def ancestor_field [OF obj] merged_fields_def ks_def lr field_object)
    qed
    from this [unfolded assms, symmetric] obtain kparts where
        "try_map (\<lambda>k. and_then (merged_fields res p b t s d k) (\<lambda>vc. Inr (k, vc))) ks = Inr kparts"
      and out: "v = Some (JObject (assemble (map (\<lambda>(key, v, _). (key, v)) kparts)))"
        "cs = concat (map (\<lambda>(_, _, cs). cs) kparts)"
      unfolding and_then_Inr_iff by blast
    then have kparts: "list_all2 (\<lambda>k kvc. \<exists>vc. kvc = (k, vc) \<and> merged_fields res p b t s d k = Inr vc) ks kparts"
      unfolding try_map_Inr_iff and_then_Inr_iff by (auto elim: list_all2_mono)
    then have parts: "list_all2 (\<lambda>k vc. merged_fields res p b t s d k = Inr vc) ks (map snd kparts)"
      and "map (\<lambda>(key, v, _). (key, v)) kparts = zip ks (map fst (map snd kparts))"
      by (induction rule: list_all2_induct) auto
    moreover have "map (\<lambda>(_, _, cs). cs) kparts = map snd (map snd kparts)"
      by (simp add: case_prod_beta)
    ultimately have "v = Some (JObject (assemble (zip ks (map fst (map snd kparts)))))"
        "cs = concat (map snd (map snd kparts))"
      using out by metis+
    moreover have "distinct ks" by (simp add: ks_def)
    ultimately show ?thesis using objects [OF 3 _ outside parts] by blast
  next
    case 4
    have "merge_definition_value res p b t s d = (case bt_get res p of
            Some Target \<Rightarrow> Inr (t, []) | Some Source \<Rightarrow> Inr (s, [])
          | None \<Rightarrow> Inr (t, [\<lparr>dc_path = p, dc_base = b, dc_target = t, dc_source = s\<rparr>]))"
      unfolding unfold using 4 d
      by (auto simp: mergeable_def object_or_absent_def as_object_bind_Some split: option.splits bool.splits)
    note eq = this [unfolded assms]
    show ?thesis
    proof (cases "bt_get res p")
      case None
      with eq have "v = t" "cs = [\<lparr>dc_path = p, dc_base = b, dc_target = t, dc_source = s\<rparr>]" by simp_all
      with 4 None show ?thesis by (rule conflict)
    next
      case (Some c)
      with eq have "v = (case c of Target \<Rightarrow> t | Source \<Rightarrow> s)" "cs = []" by (cases c; simp)+
      with 4 Some show ?thesis by (rule resolved)
    qed
  qed
qed

text \<open>Where both sides changed an object, the result is merged field by field.\<close>

lemma merge_definition_None: "d \<le> 32 \<Longrightarrow> merge_definition_value res p None None None d = Inr (None, [])"
  by (subst merge_definition_value.simps) simp

lemma merge_depth: "merge_definition_value res p b t s d = Inr vc \<Longrightarrow> d \<le> 32"
  unfolding merge_definition_value.simps [of res p b t s d] by (simp add: ensure_Inr_iff)

lemma merge_definition_fields:
  assumes merge: "merge_definition_value res p b t s d = Inr (v, cs)"
    and neq: "\<not> opt_eq t s" "\<not> opt_eq s b" "\<not> opt_eq t b" and obj: "mergeable b t s"
  obtains m where "v = Some (JObject m)"
    "\<forall>k. \<exists>ck. merged_fields res p b t s d k = Inr (map_of m k, ck) \<and> set ck \<subseteq> set cs"
    "\<forall>c \<in> set cs. \<exists>k vk ck. merged_fields res p b t s d k = Inr (vk, ck) \<and> c \<in> set ck"
  using merge
proof (cases rule: merge_definition_cases)
  case (objects ks parts)
  define g where "g k = (case merged_fields res p b t s d k of Inl _ \<Rightarrow> (None, []) | Inr vc \<Rightarrow> vc)" for k
  have parts: "parts = map g ks" and g: "\<And>k. k \<in> set ks \<Longrightarrow> merged_fields res p b t s d k = Inr (g k)"
    using objects(7) by (induction rule: list_all2_induct) (auto simp: g_def)
  have "ks \<noteq> []"
  proof
    assume "ks = []"
    then have empty: "field t k = None" "field s k = None" for k using objects(6) by auto
    obtain l r where lr: "t = Some (JObject l)" "s = Some (JObject r)" using obj by (auto simp: mergeable_def)
    then have "map_of l k = None" "map_of r k = None" for k using empty [of k] by simp_all
    then have "l = []" "r = []" by (auto simp: map_of_eq_empty_iff [symmetric] fun_eq_iff)
    then show False using neq(1) lr by (simp add: json_eq.simps)
  qed
  then obtain k0 where "k0 \<in> set ks" by (meson last_in_set)
  from merge_depth [OF g [OF this, unfolded merged_fields_def]] have depth: "d + 1 \<le> 32" .
  define m where "m = assemble (map (\<lambda>k. (k, fst (g k))) ks)"
  have v: "v = Some (JObject m)"
    by (simp add: objects(8) parts m_def zip_map2 zip_same_conv_map comp_def)
  have get: "map_of m k = (if k \<in> set ks then fst (g k) else None)" for k
    unfolding m_def by (rule map_of_assemble [OF objects(5)])
  have "\<exists>ck. merged_fields res p b t s d k = Inr (map_of m k, ck) \<and> set ck \<subseteq> set cs" for k
  proof (cases "k \<in> set ks")
    case True
    then show ?thesis using g [OF True] by (auto simp: get objects(9) parts intro!: exI [of _ "snd (g k)"])
  next
    case False
    then have "merged_fields res p b t s d k = Inr (None, [])"
      using objects(6) [OF False] depth by (simp add: merged_fields_def merge_definition_None)
    with False show ?thesis by (simp add: get)
  qed
  moreover have "\<exists>k vk ck. merged_fields res p b t s d k = Inr (vk, ck) \<and> c \<in> set ck" if "c \<in> set cs" for c
    using that g by (auto simp: objects(9) parts) (metis prod.collapse)
  ultimately show thesis using that v by blast
qed (use neq obj in auto)

lemma definition_merge_induct [case_names step]:
  assumes "\<And>p d b t s. (\<And>k. mergeable b t s \<Longrightarrow> P (pointer p k) (d + 1) (field b k) (field t k) (field s k)) \<Longrightarrow> P p d b t s"
  shows "P p (d :: nat) b t s"
proof (induction t arbitrary: p d b s rule: measure_induct_rule [of opt_size])
  case (less t p d b s)
  show ?case
  proof (rule assms, rule less)
    fix k
    assume "mergeable b t s"
    then obtain l where "t = Some (JObject l)" by (auto simp: mergeable_def)
    then show "opt_size (field t k) < opt_size t" using opt_size_map_of [of t l k] by simp
  qed
qed

lemma wf_json_ofI:
  "distinct (map fst m) \<Longrightarrow> (\<And>k v. map_of m k = Some v \<Longrightarrow> wf_json v) \<Longrightarrow> wf_json (JObject m)"
  by (auto simp: list_all_iff)

lemma distinct_assemble: "distinct (map fst (assemble xs))"
proof -
  have "distinct (map fst (fold (\<lambda>(k, x) m. case x of None \<Rightarrow> m | Some v \<Rightarrow> json_insert k v m) xs m))"
    if "distinct (map fst m)" for m :: json_map
    using that by (induction xs arbitrary: m) (auto simp: distinct_update split: option.splits)
  then show ?thesis by (simp add: assemble_def)
qed

lemma wf_merge_definition:
  assumes "merge_definition_value res p b t s d = Inr (v, cs)" "wf_opt b" "wf_opt t" "wf_opt s"
  shows "wf_opt v"
  using assms
proof (induction p d b t s arbitrary: v cs rule: definition_merge_induct)
  case (step p d b t s)
  show ?case
  proof (cases "\<not> opt_eq t s \<and> \<not> opt_eq s b \<and> \<not> opt_eq t b \<and> mergeable b t s")
    case True
    then have neq: "\<not> opt_eq t s" "\<not> opt_eq s b" "\<not> opt_eq t b" "mergeable b t s" by auto
    obtain m where v: "v = Some (JObject m)"
      and m: "\<forall>k. \<exists>ck. merged_fields res p b t s d k = Inr (map_of m k, ck) \<and> set ck \<subseteq> set cs"
      by (rule merge_definition_fields [OF step.prems(1) neq])
    have "wf_opt (map_of m k)" for k
      using step.IH [OF neq(4)] m [THEN spec, of k] step.prems(2-4) by (auto simp: merged_fields_def wf_opt_field)
    moreover have "distinct (map fst m)"
      using step.prems(1) neq v by (cases rule: merge_definition_cases) (auto simp: distinct_assemble)
    moreover have "wf_json w" if "map_of m k = Some w" for k w
      using \<open>\<And>k. wf_opt (map_of m k)\<close> [of k] that by simp
    ultimately have "wf_json (JObject m)" by (intro wf_json_ofI)
    then show ?thesis using v by simp
  next
    case False
    with step.prems show ?thesis
      by (cases rule: merge_definition_cases [OF step.prems(1)]) (auto split: merge_choice.splits)
  qed
qed

section \<open>Correctness of the merge\<close>

definition merge_outcome :: "string \<times> nat \<Rightarrow> json option \<Rightarrow> json option \<Rightarrow> json option \<Rightarrow> json option" where
  "merge_outcome pd b t s =
     (case merge_definition_value [] (fst pd) b t s (snd pd) of Inl _ \<Rightarrow> None | Inr (v, _) \<Rightarrow> v)"

definition merges_cleanly :: "string \<times> nat \<Rightarrow> json option \<Rightarrow> json option \<Rightarrow> json option \<Rightarrow> bool" where
  "merges_cleanly pd b t s \<longleftrightarrow> (\<exists>v. merge_definition_value [] (fst pd) b t s (snd pd) = Inr (v, []))"

lemma merges_cleanlyD:
  "merges_cleanly pd b t s \<Longrightarrow>
    merge_definition_value [] (fst pd) b t s (snd pd) = Inr (merge_outcome pd b t s, [])"
  by (auto simp: merges_cleanly_def merge_outcome_def)

interpretation pipeline_merge: three_way_merge merge_outcome merges_cleanly
  "\<lambda>pd k. (pointer (fst pd) k, snd pd + 1)"
proof (unfold_locales, goal_cases)
  case (1 pd b t s)
  then show ?case using wf_merge_definition merges_cleanlyD by blast
next
  case (2 pd b t s)
  from merges_cleanlyD [OF 2(1)] show ?case
    by (cases rule: merge_definition_cases) (use 2 in \<open>auto simp: opt_eq_refl\<close>)
next
  case (3 pd b t s)
  from merges_cleanlyD [OF 3(1)] show ?case
  proof (cases rule: merge_definition_cases)
    case keep
    then have "opt_eq t s" using 3 opt_eq_trans opt_eq_sym by blast
    then show ?thesis using keep by simp
  qed (use 3 in \<open>auto simp: opt_eq_refl\<close>)
next
  case (4 pd b t s)
  from merges_cleanlyD [OF 4(1)] show ?case
    by (cases rule: merge_definition_cases) (use 4 in \<open>auto simp: opt_eq_refl\<close>)
next
  case (5 pd b t s k)
  note clean = merges_cleanlyD [OF 5(1)]
  have obj: "mergeable b t s"
    using clean by (cases rule: merge_definition_cases) (use 5 in auto)
  obtain m where m: "merge_outcome pd b t s = Some (JObject m)"
    and fields: "\<forall>k. \<exists>ck. merged_fields [] (fst pd) b t s (snd pd) k = Inr (map_of m k, ck) \<and>
      set ck \<subseteq> set ([] :: definition_conflict list)"
    by (rule merge_definition_fields [OF clean 5(5,7,6) obj])
  from fields [THEN spec, of k] have "merged_fields [] (fst pd) b t s (snd pd) k = Inr (map_of m k, [])" by simp
  then show ?case using m by (auto simp: merged_fields_def merges_cleanly_def merge_outcome_def)
qed

text \<open>
  Each conflict of a pipeline merge is genuine and open: at the path its pointer denotes, source and
  target both changed the base, differently, the three values are not objects to be merged further,
  and no resolution was given for that pointer.
\<close>

lemma merge_definition_conflict:
  assumes "merge_definition_value res p b t s d = Inr (v, cs)" "c \<in> set cs"
  shows "\<exists>q. dc_path c = pointer_path p q \<and> bt_get res (dc_path c) = None \<and>
    dc_base c = opt_path q b \<and> dc_target c = opt_path q t \<and> dc_source c = opt_path q s \<and>
    \<not> opt_eq (dc_target c) (dc_source c) \<and> \<not> opt_eq (dc_source c) (dc_base c) \<and>
    \<not> opt_eq (dc_target c) (dc_base c) \<and> \<not> mergeable (dc_base c) (dc_target c) (dc_source c)"
  using assms
proof (induction p d b t s arbitrary: v cs rule: definition_merge_induct)
  case (step p d b t s)
  from step.prems(1) show ?case
  proof (cases rule: merge_definition_cases)
    case (objects ks parts)
    obtain k vk ck where k: "merged_fields res p b t s d k = Inr (vk, ck)" "c \<in> set ck"
      by (rule merge_definition_fields [OF step.prems(1) objects(1-4)]) (use step.prems(2) in blast)
    have "\<exists>q. dc_path c = pointer_path (pointer p k) q \<and> bt_get res (dc_path c) = None \<and>
        dc_base c = opt_path q (field b k) \<and> dc_target c = opt_path q (field t k) \<and> dc_source c = opt_path q (field s k) \<and>
        \<not> opt_eq (dc_target c) (dc_source c) \<and> \<not> opt_eq (dc_source c) (dc_base c) \<and>
        \<not> opt_eq (dc_target c) (dc_base c) \<and> \<not> mergeable (dc_base c) (dc_target c) (dc_source c)"
      by (rule step.IH [OF objects(4) k(1) [unfolded merged_fields_def] k(2)])
    then obtain q where q: "dc_path c = pointer_path (pointer p k) q \<and> bt_get res (dc_path c) = None \<and>
        dc_base c = opt_path q (field b k) \<and> dc_target c = opt_path q (field t k) \<and> dc_source c = opt_path q (field s k) \<and>
        \<not> opt_eq (dc_target c) (dc_source c) \<and> \<not> opt_eq (dc_source c) (dc_base c) \<and>
        \<not> opt_eq (dc_target c) (dc_base c) \<and> \<not> mergeable (dc_base c) (dc_target c) (dc_source c)" by blast
    show ?thesis
      by (rule exI [of _ "k # q"], unfold opt_path_field pointer_path.simps, rule q)
  next
    case conflict
    with step.prems(2) show ?thesis by (intro exI [of _ "[]"]) simp
  qed (use step.prems(2) in simp_all)
qed

section \<open>Blocks of a definition\<close>

definition block_at :: "json \<Rightarrow> string \<Rightarrow> string \<Rightarrow> string \<Rightarrow> json option" where
  "block_at doc collection key x =
     Option.bind (get_array doc collection) (List.find (\<lambda>v. get_str v key = Some x))"

text \<open>An identity-keyed collection: every entry carries its key.\<close>

definition keyed :: "string \<Rightarrow> json option \<Rightarrow> bool" where
  "keyed key v \<longleftrightarrow> (\<exists>m. v = Some (JObject m) \<and> distinct (map fst m) \<and>
     (\<forall>x w. map_of m x = Some w \<longrightarrow> json_get w key = Some (JString x)))"

lemma update_new: "map_of m x = None \<Longrightarrow> json_insert x v m = m @ [(x, v)]"
  by (induction m) (auto split: if_splits)

lemma index_nodes_loop:
  assumes "try_fold (\<lambda>indexed node.
       and_then (option_context ''pipeline block identity missing'' (get_str node key)) (\<lambda>x.
       ensure (map_of indexed x = None) ''duplicate pipeline block'' (
       Inr (json_insert x node indexed)))) acc nodes = Inr out" "distinct (map fst acc)"
  shows "\<exists>ids. list_all2 (\<lambda>n x. get_str n key = Some x) nodes ids \<and> out = acc @ zip ids nodes \<and> distinct (map fst out)"
  using assms
proof (induction nodes arbitrary: acc)
  case (Cons n nodes)
  let ?f = "\<lambda>indexed node.
       and_then (option_context ''pipeline block identity missing'' (get_str node key)) (\<lambda>x.
       ensure (map_of indexed x = None) ''duplicate pipeline block'' (
       Inr (json_insert x node indexed)))"
  obtain acc' where acc': "?f acc n = Inr acc'" "try_fold ?f acc' nodes = Inr out"
    using Cons.prems(1) by (auto simp: and_then_Inr_iff)
  then obtain x where x: "get_str n key = Some x" "map_of acc x = None" "acc' = json_insert x n acc"
    by (auto simp: and_then_Inr_iff option_context_Inr_iff ensure_Inr_iff)
  then have "acc' = acc @ [(x, n)]" by (simp add: update_new)
  moreover have "distinct (map fst acc')"
    using x(3) Cons.prems(2) by (simp add: distinct_update)
  ultimately obtain ids where "list_all2 (\<lambda>n x. get_str n key = Some x) nodes ids"
      "out = acc' @ zip ids nodes" "distinct (map fst out)"
    using Cons.IH [OF acc'(2)] by blast
  then show ?case using x(1) \<open>acc' = acc @ [(x, n)]\<close> by (intro exI [of _ "x # ids"]) simp
qed simp

lemma index_nodes_Inr:
  assumes "index_nodes key nodes = Inr indexed"
  shows "keyed key (Some (JObject indexed))"
    "map_of indexed x = List.find (\<lambda>v. get_str v key = Some x) nodes" "set (map snd indexed) = set nodes"
proof -
  obtain ids where ids: "list_all2 (\<lambda>n x. get_str n key = Some x) nodes ids" "indexed = zip ids nodes"
      "distinct (map fst indexed)"
    using index_nodes_loop [OF assms [unfolded index_nodes_def]] by auto
  have "json_get w key = Some (JString y)" if "(y, w) \<in> set (zip ids nodes)" for y w
    using ids(1) that by (induction rule: list_all2_induct) (auto simp: get_eq_Some)
  then show "keyed key (Some (JObject indexed))"
    using ids(2,3) by (auto simp: keyed_def dest: map_of_SomeD)
  show "map_of indexed x = List.find (\<lambda>v. get_str v key = Some x) nodes"
    unfolding ids(2) using ids(1) by (induction rule: list_all2_induct) auto
  show "set (map snd indexed) = set nodes"
    unfolding ids(2) using list_all2_lengthD [OF ids(1)] by (simp del: set_map)
qed

lemma normalize_Inr:
  assumes "normalize doc = Inr nd"
  obtains obj nobj where "doc = JObject obj" "nd = JObject nobj"
    "\<And>k. k \<noteq> ''sources'' \<Longrightarrow> k \<noteq> ''pipeline'' \<Longrightarrow> map_of nobj k = map_of obj k"
    "keyed ''id'' (map_of nobj ''sources'')" "keyed ''step'' (map_of nobj ''pipeline'')"
    "\<And>x. opt_path [''sources'', x] (Some nd) = block_at doc ''sources'' ''id'' x"
    "\<And>x. opt_path [''pipeline'', x] (Some nd) = block_at doc ''pipeline'' ''step'' x"
    "wf_json doc \<Longrightarrow> wf_json nd"
proof -
  from assms obtain obj srcs steps si pi where doc: "doc = JObject obj"
    and src: "map_of obj ''sources'' = Some (JArray srcs)" "index_nodes ''id'' srcs = Inr si"
    and pip: "map_of obj ''pipeline'' = Some (JArray steps)" "index_nodes ''step'' steps = Inr pi"
    and nd: "nd = JObject (json_insert ''pipeline'' (JObject pi) (json_insert ''sources'' (JObject si) obj))"
    unfolding normalize_def normalize_collection_def
    by (auto simp: and_then_Inr_iff option_context_Inr_iff bind_eq_Some_conv update_conv')
  define nobj where "nobj = json_insert ''pipeline'' (JObject pi) (json_insert ''sources'' (JObject si) obj)"
  have get: "map_of nobj k = (if k = ''pipeline'' then Some (JObject pi)
      else if k = ''sources'' then Some (JObject si) else map_of obj k)" for k
    by (simp add: nobj_def update_conv')
  have wf: "wf_json (JObject nobj)" if "wf_json doc"
  proof -
    have "wf_json (JObject ix)" if "keyed key (Some (JObject ix))" "set (map snd ix) = set ns"
        "map_of obj k = Some (JArray ns)" for key ix ns k
    proof -
      have "\<forall>n \<in> set ns. wf_json n" using map_of_wf [of obj k] \<open>wf_json doc\<close> doc that(3) by (auto simp: list_all_iff)
      moreover have "snd e \<in> set ns" if "e \<in> set ix" for e
        using that \<open>set (map snd ix) = set ns\<close> by (metis image_eqI set_map)
      ultimately show ?thesis using that(1) by (simp add: keyed_def list_all_iff split_beta)
    qed
    then have "wf_json (JObject si)" "wf_json (JObject pi)"
      using index_nodes_Inr(1,3) [OF src(2)] index_nodes_Inr(1,3) [OF pip(2)] src(1) pip(1) by blast+
    then show ?thesis unfolding nobj_def using that doc by (intro wf_json_insert) simp_all
  qed
  show thesis
  proof (rule that [OF doc nd [folded nobj_def]])
    show "opt_path [''sources'', x] (Some nd) = block_at doc ''sources'' ''id'' x" for x
      using index_nodes_Inr(2) [OF src(2)]
      by (simp add: nd [folded nobj_def] opt_path_field get block_at_def get_array_def json_get_def doc src(1))
    show "opt_path [''pipeline'', x] (Some nd) = block_at doc ''pipeline'' ''step'' x" for x
      using index_nodes_Inr(2) [OF pip(2)]
      by (simp add: nd [folded nobj_def] opt_path_field get block_at_def get_array_def json_get_def doc pip(1))
  qed (use index_nodes_Inr(1) src(2) pip(2) wf in \<open>auto simp: get nd [folded nobj_def]\<close>)
qed

text \<open>A merge never separates a block from its identity.\<close>

definition carries :: "string \<Rightarrow> string \<Rightarrow> json option \<Rightarrow> bool" where
  "carries key x v \<longleftrightarrow> v = None \<or> field v key = Some (JString x)"

lemma merge_definition_carries:
  assumes "merge_definition_value res p b t s d = Inr (v, cs)" "carries key x t" "carries key x s"
  shows "carries key x v"
  using assms(1)
proof (cases rule: merge_definition_cases)
  case (objects ks parts)
  obtain m where m: "v = Some (JObject m)"
      "\<forall>k. \<exists>ck. merged_fields res p b t s d k = Inr (map_of m k, ck) \<and> set ck \<subseteq> set cs"
    by (rule merge_definition_fields [OF assms(1) objects(1-4)])
  obtain ck where ck: "merged_fields res p b t s d key = Inr (map_of m key, ck)" using m(2) by blast
  have ts: "field t key = Some (JString x)" "field s key = Some (JString x)"
    using assms(2,3) objects(4) by (auto simp: carries_def mergeable_def)
  from ck [unfolded merged_fields_def ts] have "map_of m key = Some (JString x)"
    by (cases rule: merge_definition_cases) (simp_all add: json_eq.simps)
  then show ?thesis by (simp add: carries_def m(1))
qed (use assms(2,3) in \<open>auto split: merge_choice.splits\<close>)

lemma keyed_carries: "keyed key v \<Longrightarrow> carries key x (field v x)"
proof (unfold keyed_def, elim exE conjE)
  fix m
  assume "v = Some (JObject m)" "\<forall>y w. map_of m y = Some w \<longrightarrow> json_get w key = Some (JString y)"
  then show ?thesis by (cases "map_of m x") (simp_all add: carries_def field_def json_get_def)
qed

lemma keyed_merge:
  assumes "merge_definition_value res p b t s d = Inr (v, cs)" "keyed key b" "keyed key t" "keyed key s"
  shows "keyed key v"
proof -
  have obj: "mergeable b t s" using assms(2-4) by (auto simp: keyed_def mergeable_def object_or_absent_def)
  from assms(1) show ?thesis
  proof (cases rule: merge_definition_cases)
    case (objects ks parts)
    obtain m where m: "v = Some (JObject m)"
        "\<forall>k. \<exists>ck. merged_fields res p b t s d k = Inr (map_of m k, ck) \<and> set ck \<subseteq> set cs"
      by (rule merge_definition_fields [OF assms(1) objects(1-4)])
    have "json_get w key = Some (JString x)" if w: "map_of m x = Some w" for x w
    proof -
      obtain ck where ck: "merged_fields res p b t s d x = Inr (Some w, ck)" using m(2) w by metis
      have "carries key x (Some w)"
        by (rule merge_definition_carries [OF ck [unfolded merged_fields_def]]) (intro keyed_carries assms)+
      then show ?thesis by (simp add: carries_def field_def)
    qed
    moreover have "distinct (map fst m)" using m(1) objects(8) by (auto simp: distinct_assemble)
    ultimately show ?thesis unfolding keyed_def m(1) by blast
  qed (use assms obj in auto)
qed

lemma find_keyed:
  assumes "keyed key (Some (JObject m))"
  shows "List.find (\<lambda>v. get_str v key = Some x) (map snd m) = map_of m x"
proof -
  have "\<forall>(y, w) \<in> set m. get_str w key = Some y"
    using assms by (auto simp: keyed_def get_eq_Some)
  then show ?thesis by (induction m) auto
qed

section \<open>Merging definitions\<close>

abbreviation blocks_of :: "string \<Rightarrow> json \<Rightarrow> string \<Rightarrow> json option" where
  "blocks_of collection doc \<equiv>
     block_at doc collection (if collection = ''sources'' then ''id'' else ''step'')"

lemma merge_definitions_Inr:
  assumes "merge_definitions base target source res = Inr \<lparr>mv_definition = out, mv_conflicts = cs\<rparr>"
  obtains nb nt ns obj where "normalize base = Inr nb" "normalize target = Inr nt" "normalize source = Inr ns"
    "merge_definition_value res [] (Some nb) (Some nt) (Some ns) 0 = Inr (Some (JObject obj), cs)"
    "get_object (JObject obj) ''sources'' \<noteq> None" "get_object (JObject obj) ''pipeline'' \<noteq> None"
    "out = JObject (json_insert ''pipeline'' (JArray (map snd (the (get_object (JObject obj) ''pipeline''))))
       (json_insert ''sources'' (JArray (map snd (the (get_object (JObject obj) ''sources'')))) obj))"
  using assms unfolding merge_definitions_def denormalize_collection_def
  by (auto simp: and_then_Inr_iff ensure_Inr_iff option_context_Inr_iff bind_eq_Some_conv update_conv'
      get_object_def json_get_def)


lemma keyed_root:
  assumes "merge_definition_value res [] (Some nb) (Some nt) (Some ns) 0 = Inr (Some (JObject obj), cs)"
    and "keyed key (field (Some nb) c)" "keyed key (field (Some nt) c)" "keyed key (field (Some ns) c)"
  shows "keyed key (map_of obj c)"
proof -
  let ?obj = "field (Some (JObject obj)) c"
  have "keyed key ?obj"
    using assms(1)
  proof (cases rule: merge_definition_cases)
    case (objects ks parts)
    obtain ck where "merged_fields res [] (Some nb) (Some nt) (Some ns) 0 c = Inr (map_of obj c, ck)"
      by (rule merge_definition_fields [OF assms(1) objects(1-4)]) (metis json.inject(5) option.inject)
    from keyed_merge [OF this [unfolded merged_fields_def] assms(2-4)] show ?thesis by simp
  next
    case resolved
    with assms(2-4) show ?thesis by (auto split: merge_choice.splits)
  next
    case conflict
    with assms(3) show ?thesis by simp
  next
    case keep
    with assms(3) show ?thesis by simp
  next
    case take
    with assms(4) show ?thesis by simp
  qed
  then show ?thesis by simp
qed

text \<open>The merged definition, read block by block and field by field.\<close>

lemma merge_definitions_reads:
  assumes merge: "merge_definitions base target source res = Inr \<lparr>mv_definition = out, mv_conflicts = cs\<rparr>"
  obtains nb nt ns m where "normalize base = Inr nb" "normalize target = Inr nt" "normalize source = Inr ns"
    "merge_definition_value res [] (Some nb) (Some nt) (Some ns) 0 = Inr (m, cs)"
    "\<forall>c x. c \<in> {''sources'', ''pipeline''} \<longrightarrow> blocks_of c out x = opt_path [c, x] m"
    "\<forall>k. k \<notin> {''sources'', ''pipeline''} \<longrightarrow> json_get out k = field m k"
proof -
  obtain nb nt ns obj where n: "normalize base = Inr nb" "normalize target = Inr nt" "normalize source = Inr ns"
    and m: "merge_definition_value res [] (Some nb) (Some nt) (Some ns) 0 = Inr (Some (JObject obj), cs)"
    and out: "out = JObject (json_insert ''pipeline'' (JArray (map snd (the (get_object (JObject obj) ''pipeline''))))
       (json_insert ''sources'' (JArray (map snd (the (get_object (JObject obj) ''sources'')))) obj))"
    by (rule merge_definitions_Inr [OF merge])
  have keyed: "keyed ''id'' (field (Some nd) ''sources'')" "keyed ''step'' (field (Some nd) ''pipeline'')"
    if "normalize doc = Inr nd" for doc nd
    by (rule normalize_Inr [OF that]; simp)+
  note ks = keyed_root [OF m keyed(1) [OF n(1)] keyed(1) [OF n(2)] keyed(1) [OF n(3)]]
    and kp = keyed_root [OF m keyed(2) [OF n(1)] keyed(2) [OF n(2)] keyed(2) [OF n(3)]]
  obtain si pi where sp: "map_of obj ''sources'' = Some (JObject si)" "map_of obj ''pipeline'' = Some (JObject pi)"
    using ks kp by (auto simp: keyed_def)
  have out': "out = JObject (json_insert ''pipeline'' (JArray (map snd pi)) (json_insert ''sources'' (JArray (map snd si)) obj))"
    unfolding out by (simp add: get_object_def json_get_def sp)
  note finds = find_keyed [OF ks [unfolded sp(1)]] find_keyed [OF kp [unfolded sp(2)]]
  have "blocks_of c out x = opt_path [c, x] (Some (JObject obj))" if "c \<in> {''sources'', ''pipeline''}" for c x
    using that by (auto simp: out' block_at_def get_array_def json_get_def update_conv' opt_path_field sp finds)
  moreover have "json_get out k = field (Some (JObject obj)) k" if "k \<notin> {''sources'', ''pipeline''}" for k
    using that by (simp add: out' json_get_def update_conv')
  ultimately show thesis using that [OF n m] by blast
qed

lemma merge_definitions_reconcile:
  assumes "merge_definitions base target source [] = Inr \<lparr>mv_definition = out, mv_conflicts = []\<rparr>"
    and wf: "wf_json base" "wf_json target" "wf_json source"
  shows "c \<in> {''sources'', ''pipeline''} \<Longrightarrow>
      reconciles (blocks_of c out x) (blocks_of c base x) (blocks_of c target x) (blocks_of c source x)"
    and "k \<notin> {''sources'', ''pipeline''} \<Longrightarrow>
      reconciles (json_get out k) (json_get base k) (json_get target k) (json_get source k)"
proof -
  obtain nb nt ns m where n: "normalize base = Inr nb" "normalize target = Inr nt" "normalize source = Inr ns"
    and m: "merge_definition_value [] [] (Some nb) (Some nt) (Some ns) 0 = Inr (m, [])"
    and blocks: "\<forall>c x. c \<in> {''sources'', ''pipeline''} \<longrightarrow> blocks_of c out x = opt_path [c, x] m"
    and fields: "\<forall>k. k \<notin> {''sources'', ''pipeline''} \<longrightarrow> json_get out k = field m k"
    by (rule merge_definitions_reads [OF assms(1)])
  have nd: "c \<in> {''sources'', ''pipeline''} \<Longrightarrow> opt_path [c, x] (Some nd) = blocks_of c doc x"
      "k \<notin> {''sources'', ''pipeline''} \<Longrightarrow> field (Some nd) k = json_get doc k" "wf_json doc \<Longrightarrow> wf_json nd"
    if "normalize doc = Inr nd" for doc nd c x k
    by (rule normalize_Inr [OF that]; auto simp: json_get_def)+
  have "merges_cleanly ([], 0) (Some nb) (Some nt) (Some ns)" "merge_outcome ([], 0) (Some nb) (Some nt) (Some ns) = m"
    using m by (simp_all add: merges_cleanly_def merge_outcome_def)
  then have root: "reconciles m (Some nb) (Some nt) (Some ns)"
    using pipeline_merge.clean_merge_reconciles [of "([], 0)" "Some nb" "Some nt" "Some ns"] n wf nd(3) by simp
  { assume c: "c \<in> {''sources'', ''pipeline''}"
    from reconciles_field [OF reconciles_field [OF root, of c], of x]
    show "reconciles (blocks_of c out x) (blocks_of c base x) (blocks_of c target x) (blocks_of c source x)"
      using blocks [rule_format, OF c] nd(1) [OF n(1) c] nd(1) [OF n(2) c] nd(1) [OF n(3) c]
      by (simp only: opt_path_field opt_path_Nil) }
  { assume k: "k \<notin> {''sources'', ''pipeline''}"
    from reconciles_field [OF root, of k]
    show "reconciles (json_get out k) (json_get base k) (json_get target k) (json_get source k)"
      using fields [rule_format, OF k] nd(2) [OF n(1) k] nd(2) [OF n(2) k] nd(2) [OF n(3) k] by simp }
qed

text \<open>
  C7. A pipeline merge without open conflicts reconciles its three inputs, block by block (by identity,
  wherever the block stands) and root field by root field: at every path into a block or field, what only one
  side changed is taken from that side, and what both sides agree on is kept.
\<close>

lemma merge_definitions_clean:
  assumes "merge_definitions base target source [] = Inr \<lparr>mv_definition = out, mv_conflicts = []\<rparr>"
    and "wf_json base" "wf_json target" "wf_json source"
  shows "(\<forall>c x. c \<in> {''sources'', ''pipeline''} \<longrightarrow>
      reconciles (blocks_of c out x) (blocks_of c base x) (blocks_of c target x) (blocks_of c source x)) \<and>
    (\<forall>k. k \<notin> {''sources'', ''pipeline''} \<longrightarrow>
      reconciles (json_get out k) (json_get base k) (json_get target k) (json_get source k))"
  using merge_definitions_reconcile [OF assms] by blast

lemma merge_definitions_clean_witness:
  "\<exists>out. merge_definitions example_pipeline renamed_pipeline remodelled_pipeline [] = Inr \<lparr>mv_definition = out, mv_conflicts = []\<rparr> \<and>
    reconciles (blocks_of ''pipeline'' out ''classify'') (blocks_of ''pipeline'' example_pipeline ''classify'')
      (blocks_of ''pipeline'' renamed_pipeline ''classify'') (blocks_of ''pipeline'' remodelled_pipeline ''classify'') \<and>
    reconciles (json_get out ''name'') (json_get example_pipeline ''name'') (json_get renamed_pipeline ''name'')
      (json_get remodelled_pipeline ''name'')"
proof -
  have "case merge_definitions example_pipeline renamed_pipeline remodelled_pipeline [] of Inl _ \<Rightarrow> False
    | Inr v \<Rightarrow> mv_conflicts v = []" and wf: "wf_json example_pipeline" "wf_json renamed_pipeline" "wf_json remodelled_pipeline"
    by code_simp+
  then obtain v where v: "merge_definitions example_pipeline renamed_pipeline remodelled_pipeline [] = Inr v" "mv_conflicts v = []"
    by (auto split: sum.splits)
  then have "merge_definitions example_pipeline renamed_pipeline remodelled_pipeline [] =
      Inr \<lparr>mv_definition = mv_definition v, mv_conflicts = []\<rparr>" by (cases v) simp
  from merge_definitions_clean [OF this wf] this show ?thesis by fastforce
qed

lemma merge_definition_conflict_witness:
  "\<exists>v cs c. merge_definition_value [] [] (Some example_pipeline) (Some renamed_pipeline)
      (Some (pipeline_document ''Letters'' [])) 0 = Inr (v, cs) \<and> c \<in> set cs \<and>
    \<not> opt_eq (dc_target c) (dc_source c) \<and> \<not> opt_eq (dc_source c) (dc_base c) \<and> \<not> opt_eq (dc_target c) (dc_base c)"
proof -
  have "case merge_definition_value [] [] (Some example_pipeline) (Some renamed_pipeline)
      (Some (pipeline_document ''Letters'' [])) 0 of Inl _ \<Rightarrow> False | Inr (v, cs) \<Rightarrow> cs \<noteq> []" by code_simp
  then obtain v cs where run: "merge_definition_value [] [] (Some example_pipeline) (Some renamed_pipeline)
      (Some (pipeline_document ''Letters'' [])) 0 = Inr (v, cs)" "cs \<noteq> []"
    by (auto split: sum.splits)
  then have "hd cs \<in> set cs" by simp
  with merge_definition_conflict [OF run(1) this] run(1) show ?thesis by blast
qed

end
