(* ===== verification/Authoring_Checks.thy ===== *)
theory Authoring_Checks
  imports Authoring_Merge
begin

text \<open>
  Correctness of the comparison and of the diagnostics of pipeline definitions: the comparison
  reports exactly the differences, and the diagnostics the studio shows have nothing left to say
  about a definition that the executability check accepts.
\<close>

section \<open>Comparison\<close>

definition both_objects :: "json option \<Rightarrow> json option \<Rightarrow> bool" where
  "both_objects b a \<longleftrightarrow> (\<exists>l. b = Some (JObject l)) \<and> (\<exists>r. a = Some (JObject r))"

lemma collect_changes_cases:
  assumes "collect_changes p b a d = Inr cs"
  obtains (same) "opt_eq b a" "cs = []"
  | (objects) ks parts where "\<not> opt_eq b a" "both_objects b a"
      "\<forall>k. k \<notin> set ks \<longrightarrow> field b k = None \<and> field a k = None"
      "list_all2 (\<lambda>k part. collect_changes (pointer p k) (field b k) (field a k) (d + 1) = Inr part) ks parts"
      "cs = concat parts"
  | (leaf) "\<not> opt_eq b a" "\<not> both_objects b a" "cs = [\<lparr>df_path = p, df_before = b, df_after = a\<rparr>]"
proof -
  note unfold = collect_changes.simps [of p b a d]
  have d: "d \<le> 32" using assms unfolding unfold by (simp add: ensure_Inr_iff)
  consider (1) "opt_eq b a" | (2) "\<not> opt_eq b a" "both_objects b a" | (3) "\<not> opt_eq b a" "\<not> both_objects b a" by argo
  then show thesis
  proof cases
    case 1
    then have "cs = []" using assms d unfolding unfold by (simp only: ensure_simps if_True) simp
    with 1 show thesis by (rule same)
  next
    case 2
    then obtain l r where lr: "b = Some (JObject l)" "a = Some (JObject r)" by (auto simp: both_objects_def)
    have "and_then (try_map (\<lambda>key. collect_changes (pointer p key) (map_of l key) (map_of r key) (d + 1))
            (bs_collect (map fst l @ map fst r))) (\<lambda>parts. Inr (concat parts)) = Inr cs"
      using assms 2(1) d unfolding unfold
      by (simp only: ensure_simps if_False lr bind.simps as_simps option.case prod.case simp_thms)
    then obtain parts where parts: "list_all2 (\<lambda>k part. collect_changes (pointer p k) (map_of l k) (map_of r k) (d + 1) = Inr part)
        (bs_collect (map fst l @ map fst r)) parts" "cs = concat parts"
      by (auto simp: and_then_Inr_iff try_map_Inr_iff)
    show thesis
      by (rule objects [OF 2 _ _ parts(2), of "bs_collect (map fst l @ map fst r)"])
        (use parts(1) in \<open>simp_all add: lr map_of_eq_None_iff\<close>)
  next
    case 3
    then have "cs = [\<lparr>df_path = p, df_before = b, df_after = a\<rparr>]"
      using assms d unfolding unfold
      by (auto simp: both_objects_def as_object_bind_Some split: option.splits)
    with 3 show thesis by (rule leaf)
  qed
qed

lemma change_induct [case_names step]:
  assumes "\<And>p d b a. (\<And>k. both_objects b a \<Longrightarrow> P (pointer p k) (d + 1) (field b k) (field a k)) \<Longrightarrow> P p d b a"
  shows "P p (d :: nat) b a"
proof (induction b arbitrary: p d a rule: measure_induct_rule [of opt_size])
  case (less b p d a)
  show ?case
  proof (rule assms, rule less)
    fix k
    assume "both_objects b a"
    then obtain l where "b = Some (JObject l)" by (auto simp: both_objects_def)
    then show "opt_size (field b k) < opt_size b" using opt_size_map_of [of b l k] by simp
  qed
qed

lemma collect_changes_field:
  assumes "list_all2 (\<lambda>k part. f k = Inr part) ks parts" "c \<in> set (concat parts)"
  shows "\<exists>k part. k \<in> set ks \<and> f k = Inr part \<and> c \<in> set part"
  using assms by (induction rule: list_all2_induct) auto

lemma collect_changes_part:
  assumes "list_all2 (\<lambda>k part. f k = Inr part) ks parts" "k \<in> set ks"
  shows "\<exists>part. f k = Inr part \<and> set part \<subseteq> set (concat parts)"
  using assms by (induction rule: list_all2_induct) auto

text \<open>Every reported change quotes the two versions at its pointer, and they differ.\<close>

lemma collect_changes_sound:
  assumes "collect_changes p b a d = Inr cs" "c \<in> set cs"
  shows "\<exists>q. df_path c = pointer_path p q \<and> df_before c = opt_path q b \<and> df_after c = opt_path q a \<and>
    \<not> opt_eq (df_before c) (df_after c)"
  using assms
proof (induction p d b a arbitrary: cs rule: change_induct)
  case (step p d b a)
  from step.prems(1) show ?case
  proof (cases rule: collect_changes_cases)
    case (objects ks parts)
    obtain k part where k: "collect_changes (pointer p k) (field b k) (field a k) (d + 1) = Inr part" "c \<in> set part"
      using collect_changes_field [OF objects(4) step.prems(2) [unfolded objects(5)]] by blast
    from step.IH [OF objects(2) k] obtain q where "df_path c = pointer_path (pointer p k) q"
        "df_before c = opt_path q (field b k)" "df_after c = opt_path q (field a k)" "\<not> opt_eq (df_before c) (df_after c)"
      by blast
    then show ?thesis by (intro exI [of _ "k # q"]) (simp add: opt_path_field)
  next
    case leaf
    then show ?thesis using step.prems(2) by (intro exI [of _ "[]"]) simp
  qed (use step.prems(2) in simp)
qed

text \<open>And nothing changes silently.\<close>

lemma collect_changes_complete:
  assumes "collect_changes p b a d = Inr cs" "wf_opt b" "wf_opt a" "\<not> opt_eq b a"
  shows "cs \<noteq> []"
  using assms
proof (induction p d b a arbitrary: cs rule: change_induct)
  case (step p d b a)
  from step.prems(1) show ?case
  proof (cases rule: collect_changes_cases)
    case (objects ks parts)
    obtain l r where lr: "b = Some (JObject l)" "a = Some (JObject r)" using objects(2) by (auto simp: both_objects_def)
    then obtain k where k: "\<not> opt_eq (field b k) (field a k)"
      using step.prems(2-4) json_eq_object [of l r] by auto
    then have "k \<in> set ks" using objects(3) by auto
    then obtain part where "collect_changes (pointer p k) (field b k) (field a k) (d + 1) = Inr part" "set part \<subseteq> set cs"
      using collect_changes_part [OF objects(4)] objects(5) by blast
    with step.IH [OF objects(2) _ _ _ k] step.prems(2,3) show ?thesis by (fastforce simp: wf_opt_field)
  qed (use step.prems(4) in simp_all)
qed

text \<open>
  C40. Comparing two pipeline definitions reports no change exactly when their normal forms are equal.
\<close>

lemma compare_definitions_Nil_iff:
  assumes "compare_definitions before after = Inr cs" "wf_json before" "wf_json after"
    and "normalize before = Inr nb" "normalize after = Inr na"
  shows "cs = [] \<longleftrightarrow> json_eq nb na"
proof -
  have c: "collect_changes [] (Some nb) (Some na) 0 = Inr cs"
    using assms(1,4,5) by (simp add: compare_definitions_def)
  have "wf_json nb" "wf_json na" using assms(2-5) by (meson normalize_Inr)+
  with collect_changes_complete [OF c] have "\<not> json_eq nb na \<Longrightarrow> cs \<noteq> []" by simp
  moreover have "json_eq nb na \<Longrightarrow> cs = []"
    using c by (cases rule: collect_changes_cases) simp_all
  ultimately show ?thesis by blast
qed

lemma compare_definitions_Nil_iff_witness:
  "\<exists>cs nb na. compare_definitions example_pipeline renamed_pipeline = Inr cs \<and> cs \<noteq> [] \<and>
     normalize example_pipeline = Inr nb \<and> normalize renamed_pipeline = Inr na \<and> \<not> json_eq nb na"
proof -
  have "case compare_definitions example_pipeline renamed_pipeline of Inl _ \<Rightarrow> False | Inr cs \<Rightarrow> cs \<noteq> []"
    "\<not> isl (normalize example_pipeline)" "\<not> isl (normalize renamed_pipeline)"
    "wf_json example_pipeline" "wf_json renamed_pipeline" by code_simp+
  then obtain cs nb na where run: "compare_definitions example_pipeline renamed_pipeline = Inr cs" "cs \<noteq> []"
    "normalize example_pipeline = Inr nb" "normalize renamed_pipeline = Inr na"
    and wf: "wf_json example_pipeline" "wf_json renamed_pipeline"
    by (cases "normalize example_pipeline"; cases "normalize renamed_pipeline") (auto split: sum.splits)
  from compare_definitions_Nil_iff [OF run(1) wf run(3,4)] run show ?thesis by blast
qed

section \<open>Diagnostics\<close>

lemma diagnostic_Nil [simp]: "diagnostic c code node fld = [] \<longleftrightarrow> \<not> c"
  by (simp add: diagnostic_def)

lemma text_within_nonblank: "text_within n s \<Longrightarrow> nonblank s"
  by (auto simp: text_within_def nonblank_def split: option.splits)

lemma executable_source_diagnosed: "executable_source s = Inr () \<Longrightarrow> diagnose_source s = []"
  by (simp add: executable_source_def diagnose_source_def ensure_Inr_iff try_each_Inr_iff)

lemma executable_conditions:
  assumes "executable_step step = Inr ()" "get_str step ''type'' = Some kind" "uses_conditions step kind"
  shows "\<exists>rules. path_array step [''params'', ''conditions''] = Some rules \<and> rules \<noteq> [] \<and>
    list_all (\<lambda>rule. nonblank (get_str rule ''value'')) rules"
proof -
  obtain rules where "path_array step [''params'', ''conditions''] = Some rules" "rules \<noteq> []"
      "\<forall>rule \<in> set rules. executable_condition rule = Inr ()"
    using assms unfolding executable_step_def
    by (auto simp: and_then_Inr_iff ensure_Inr_iff option_context_Inr_iff try_each_Inr_iff)
  moreover have "nonblank (get_str rule ''value'')" if "executable_condition rule = Inr ()" for rule
    using that unfolding executable_condition_def by (auto simp: ensure_Inr_iff intro: text_within_nonblank)
  ultimately show ?thesis by (auto simp: list_all_iff)
qed

lemma executable_step_diagnosed:
  assumes exec: "executable_step step = Inr ()" and ok: "step_readable step" "kind_ok step"
    and known: "set (step_inputs step) \<subseteq> set known"
    and ref: "step_kind step = ''pipeline'' \<longrightarrow> \<not> missing_or_null step ''pipeline_ref''"
  shows "diagnose_step known step = []"
proof -
  obtain kind inputs where kind: "get_str step ''type'' = Some kind" and inputs: "get_array step ''input_from'' = Some inputs"
    and cron: "pointer_str step [''params'', ''trigger''] = Some ''cron'' \<longrightarrow> nonblank (pointer_str step [''params'', ''cron''])"
    and card: "if scheduled step then inputs = [] else inputs \<noteq> [] \<and> (length inputs = 1 \<or> is_union step kind)"
    using exec unfolding executable_step_def
    by (auto simp: and_then_Inr_iff ensure_Inr_iff option_context_Inr_iff)
  have kind': "step_kind step = kind" using kind by (simp add: step_kind_def)
  have connected: "\<not> list_ex (\<lambda>input. case as_str input of None \<Rightarrow> True | Some x \<Rightarrow> x \<notin> set known) inputs"
    using ok(1) known inputs
    by (fastforce simp: list_ex_iff step_readable_def all_strings_def step_inputs_def names_of_def
        set_map_filter_iff split: option.splits)
  have model: "\<not> (kind = ''inference'' \<and> missing_or_null step ''model'' \<and> missing_or_null step ''capability_id'')"
    using ok(2) by (auto simp: kind_ok_def kind' missing_or_null_def get_str_def is_null_def split: option.splits)
  have conditions: "\<not> (uses_conditions step kind \<and> \<not> (case path_array step [''params'', ''conditions''] of
      None \<Rightarrow> False | Some rules \<Rightarrow> rules \<noteq> [] \<and> list_all (\<lambda>rule. nonblank (get_str rule ''value'')) rules))"
    using executable_conditions [OF exec kind] by auto
  show ?thesis
    unfolding diagnose_step_def Let_def kind option.case inputs append_is_Nil_conv diagnostic_Nil
    using card cron connected model conditions ref [unfolded kind'] by (auto split: if_splits)
qed

text \<open>
  A definition that \<open>validate_executable\<close> accepts has no diagnostics, provided its transfers name a
  pipeline (which \<open>validate_executable\<close> does not ask for).
\<close>

lemma executable_no_diagnostics:
  assumes "validate_executable to_vec doc = Inr ()"
    and "\<And>steps step. get_array doc ''pipeline'' = Some steps \<Longrightarrow> step \<in> set steps \<Longrightarrow>
      step_kind step = ''pipeline'' \<Longrightarrow> \<not> missing_or_null step ''pipeline_ref''"
  shows "diagnose_definition to_vec doc = Inr []"
proof -
  obtain ord sources steps where draft: "validate_draft to_vec doc = Inr ()"
    and struct: "validate_pipeline_structure doc = Inr ord"
    and doc: "get_array doc ''sources'' = Some sources" "get_array doc ''pipeline'' = Some steps"
    and exec: "\<forall>s \<in> set sources. executable_source s = Inr ()" "\<forall>s \<in> set steps. executable_step s = Inr ()"
      "sources \<noteq> [] \<or> list_ex scheduled steps"
    using assms(1) unfolding validate_executable_def
    by (auto simp: and_then_Inr_iff ensure_Inr_iff option_context_Inr_iff try_each_Inr_iff)
  have ok: "pipeline_ok sources steps"
    using struct doc unfolding validate_pipeline_structure_def validate_pipeline_internal_Inr by auto
  define known where "known = List.map_filter (\<lambda>s. get_str s ''id'') sources @ List.map_filter (\<lambda>s. get_str s ''step'') steps"
  have sub: "set (pipeline_nodes sources steps) - {[]} \<subseteq> set known"
    by (auto simp: pipeline_nodes_def known_def set_map_filter_iff source_id_def step_id_def split: option.splits)
  have nonempty: "[] \<notin> set (pipeline_nodes sources steps)"
    using ok by (force simp: pipeline_ok_def pipeline_nodes_def step_readable_def)
  have "diagnose_step known s = []" if s: "s \<in> set steps" for s
  proof (rule executable_step_diagnosed)
    show "set (step_inputs s) \<subseteq> set known"
    proof
      fix i
      assume "i \<in> set (step_inputs s)"
      then have "(i, step_id s) \<in> feeds steps" using s unfolding feeds_def by blast
      then have "i \<in> fst ` feeds steps" by (rule image_eqI [rotated]) simp
      then have "i \<in> set (pipeline_nodes sources steps)" using ok unfolding pipeline_ok_def by (meson subsetD)
      then show "i \<in> set known" using sub nonempty by (metis DiffI singletonD subsetD)
    qed
    show "step_kind s = ''pipeline'' \<longrightarrow> \<not> missing_or_null s ''pipeline_ref''" using assms(2) doc(2) s by blast
  qed (use s exec(2) ok in \<open>auto simp: pipeline_ok_def\<close>)
  moreover have "diagnose_source s = []" if "s \<in> set sources" for s
    using that exec(1) executable_source_diagnosed by blast
  ultimately show ?thesis
    using draft doc exec(3) by (simp add: diagnose_definition_def Let_def known_def)
qed

lemma executable_no_diagnostics_witness: "diagnose_definition (\<lambda>_. []) example_pipeline = Inr []"
proof (rule executable_no_diagnostics)
  show "validate_executable (\<lambda>_. []) example_pipeline = Inr ()" by code_simp
  fix steps step
  assume "get_array example_pipeline ''pipeline'' = Some steps" "step \<in> set steps" "step_kind step = ''pipeline''"
  then show "\<not> missing_or_null step ''pipeline_ref''"
    by (auto simp: example_pipeline_def pipeline_document_def step_document_def get_eq_Some json_get_def step_kind_def get_str_def)
qed

end
