(* ===== verification/Authoring_Service.thy ===== *)
theory Authoring_Service
  imports Registry_Properties Authoring_Checks
begin

text \<open>
  Pipeline workspaces (\<open>platform/registry/src/authoring_service.rs\<close>): every authoring command as a
  transition on one pipeline record, and the handler \<open>author_pipeline\<close> that loads the head, applies
  one command and commits the result.
\<close>

section \<open>Commands\<close>

fun operation_name :: "authoring_command \<Rightarrow> string" where
  "operation_name (SaveDraft _) = ''save_draft''"
| "operation_name (BindOntology _ _) = ''bind_ontology''"
| "operation_name (CreateBranch _ _) = ''create_branch''"
| "operation_name (DeleteBranch _) = ''delete_branch''"
| "operation_name (ProposeMerge _) = ''propose_merge''"
| "operation_name (Merge _ _) = ''merge''"
| "operation_name Approve = ''approve''"
| "operation_name Publish = ''publish''"
| "operation_name Deploy = ''deploy''"

abbreviation pipe_branches :: "pipeline_record \<Rightarrow> (string, branch) btree_map" where
  "pipe_branches r \<equiv> as_branches (pipe_authoring r)"

abbreviation pipe_proposals :: "pipeline_record \<Rightarrow> (string, merge_proposal) btree_map" where
  "pipe_proposals r \<equiv> as_proposals (pipe_authoring r)"

definition map_authoring :: "(authoring_state \<Rightarrow> authoring_state) \<Rightarrow> pipeline_record \<Rightarrow> pipeline_record" where
  "map_authoring f r = r\<lparr>pipe_authoring := f (pipe_authoring r)\<rparr>"

definition revoke_approval :: "pipeline_record \<Rightarrow> pipeline_record" where
  "revoke_approval = map_authoring (\<lambda>a. a\<lparr>as_approval := None\<rparr>)"

definition put_branch :: "string \<Rightarrow> branch \<Rightarrow> pipeline_record \<Rightarrow> pipeline_record" where
  "put_branch x b = map_authoring (\<lambda>a. a\<lparr>as_branches := bt_insert x b (as_branches a)\<rparr>)"

definition hash_of :: "'s platform \<Rightarrow> json \<Rightarrow> string" where
  "hash_of pf = definition_hash (pl_to_vec pf) (pl_sha256_hex pf)"

definition BOUND_KINDS :: "string list" where
  "BOUND_KINDS = [''object_type'', ''event_type'', ''property'', ''link_type'']"

fun require_ontology :: "string \<Rightarrow> json list \<Rightarrow> json list result" where
  "require_ontology block [] = bail ''pipeline block unavailable''"
| "require_ontology block (step # steps) =
     (if get_str step ''step'' = Some block then
        ensure (\<not> (case get_str step ''type'' of
            None \<Rightarrow> True | Some kind \<Rightarrow> kind \<in> {''forward'', ''filter'', ''pipeline''}))
          ''control-flow block cannot bind ontology'' (
        and_then (option_context ''invalid pipeline block'' (as_object step)) (\<lambda>m.
        Inr (JObject (json_insert ''ontology_required'' (JBool True) m) # steps)))
      else and_then (require_ontology block steps) (\<lambda>rest. Inr (step # rest)))"

text \<open>\<open>get_mut("pipeline").and_then(as_array_mut)\<close>: the array is changed in place.\<close>

definition update_steps :: "(json list \<Rightarrow> json list result) \<Rightarrow> json \<Rightarrow> json result" where
  "update_steps f document =
     (case (document, get_array document ''pipeline'') of
        (JObject m, Some steps) \<Rightarrow>
          and_then (f steps) (\<lambda>steps. Inr (JObject (json_insert ''pipeline'' (JArray steps) m)))
      | _ \<Rightarrow> bail ''pipeline block unavailable'')"

definition bind_ontology_draft ::
  "'s platform \<Rightarrow> string \<Rightarrow> pipeline_record \<Rightarrow> tenant_state \<Rightarrow> string \<Rightarrow> string
    \<Rightarrow> ('s, pipeline_record \<times> tenant_state) io" where
  "bind_ontology_draft pf tenant_id r st block ontology =
     io_then (now pf) (\<lambda>now_ms.
     let binding =
       \<lparr>bd_pipeline_id = pipe_pipeline_id r, bd_block_id = block, bd_ontology_id = ontology,
        bd_resource_ids = [], bd_resource_kinds = BOUND_KINDS, bd_include_dependencies = True,
        bd_metadata = JObject [(''source'', JString ''explicit_tenant_selection'')], bd_updated_at_ms = now_ms\<rparr> in
     io_then (validate_published_binding pf tenant_id st binding) (\<lambda>_.
     io_then (lift_io (update_steps (require_ontology block) (pipe_definition r))) (\<lambda>document.
     io_then (lift_io (validate_draft (pl_to_vec pf) document)) (\<lambda>_.
     lift_io (Inr (revoke_approval (r\<lparr>pipe_definition := document\<rparr>),
       st\<lparr>ts_bindings := bt_insert (binding_key (pipe_pipeline_id r) block) binding (ts_bindings st)\<rparr>))))))"

definition save_draft :: "'s platform \<Rightarrow> put_pipeline_input \<Rightarrow> int \<Rightarrow> pipeline_record \<Rightarrow> string \<Rightarrow> pipeline_record result" where
  "save_draft pf input now_ms r branch =
     and_then (validate_draft (pl_to_vec pf) (pi_definition input)) (\<lambda>_.
     ensure (get_str (pi_definition input) ''name'' = Some (pi_name input)) ''pipeline name mismatch'' (
     if branch = ''main'' then
       Inr (revoke_approval (r\<lparr>pipe_definition := pi_definition input, pipe_name := pi_name input\<rparr>))
     else
       and_then (option_context ''pipeline branch unavailable'' (bt_get (pipe_branches r) branch)) (\<lambda>b.
       Inr (put_branch branch (b\<lparr>br_definition := pi_definition input, br_author_id := pi_author input,
         br_updated_at_ms := now_ms\<rparr>) r))))"

definition delete_branch :: "pipeline_record \<Rightarrow> string \<Rightarrow> pipeline_record result" where
  "delete_branch r branch =
     ensure (valid_branch branch \<and> branch \<noteq> ''main'') ''invalid pipeline branch'' (
     ensure (bt_contains (pipe_branches r) branch) ''pipeline branch unavailable'' (
     ensure (\<not> list_ex (\<lambda>child. br_parent_branch child = Some branch) (bt_values (pipe_branches r)))
       ''pipeline branch has children'' (
     ensure (\<not> list_ex (\<lambda>p. mp_source_branch p = branch) (bt_values (pipe_proposals r)))
       ''pipeline branch has an open proposal'' (
     Inr (map_authoring (\<lambda>a. a\<lparr>as_branches := bt_remove branch (as_branches a)\<rparr>) r)))))"

definition create_branch ::
  "put_pipeline_input \<Rightarrow> int \<Rightarrow> string \<Rightarrow> pipeline_record \<Rightarrow> string \<Rightarrow> string \<Rightarrow> pipeline_record result" where
  "create_branch input now_ms head r branch from_branch =
     ensure (valid_branch branch \<and> branch \<noteq> ''main'') ''invalid pipeline branch'' (
     ensure (length (pipe_branches r) < 32 \<and> \<not> bt_contains (pipe_branches r) branch)
       ''pipeline branch exists or limit reached'' (
     and_then (if from_branch = ''main'' then Inr (pipe_definition r, pipe_definition r, head)
       else and_then (option_context ''pipeline branch unavailable'' (bt_get (pipe_branches r) from_branch)) (\<lambda>parent.
         Inr (br_definition parent, br_base_definition parent, br_base_revision_id parent)))
     (\<lambda>(document, base_document, base_revision).
     Inr (put_branch branch
       \<lparr>br_parent_branch = Some from_branch, br_definition = document, br_base_definition = base_document,
        br_base_revision_id = base_revision, br_author_id = pi_author input, br_updated_at_ms = now_ms\<rparr> r))))"

definition propose_merge ::
  "'s platform \<Rightarrow> put_pipeline_input \<Rightarrow> int \<Rightarrow> pipeline_record \<Rightarrow> string \<Rightarrow> pipeline_record result" where
  "propose_merge pf input now_ms r source_branch =
     and_then (option_context ''pipeline source branch unavailable'' (bt_get (pipe_branches r) source_branch)) (\<lambda>source.
     ensure (length (pipe_proposals r) < 32 \<or> bt_contains (pipe_proposals r) source_branch)
       ''pipeline proposal limit exceeded'' (
     Inr (map_authoring (\<lambda>a. a\<lparr>as_proposals := bt_insert source_branch
       \<lparr>mp_source_branch = source_branch, mp_source_hash = hash_of pf (br_definition source),
        mp_target_hash = hash_of pf (pipe_definition r), mp_author_id = pi_author input, mp_created_at_ms = now_ms\<rparr>
       (as_proposals a)\<rparr>) r)))"

definition merge_proposed ::
  "'s platform \<Rightarrow> string \<Rightarrow> pipeline_record \<Rightarrow> string \<Rightarrow> resolutions \<Rightarrow> pipeline_record result" where
  "merge_proposed pf head r proposal_id resolutions =
     and_then (option_context ''pipeline proposal unavailable'' (bt_get (pipe_proposals r) proposal_id)) (\<lambda>proposal.
     and_then (option_context ''pipeline branch unavailable'' (bt_get (pipe_branches r) (mp_source_branch proposal))) (\<lambda>source.
     ensure (mp_source_hash proposal = hash_of pf (br_definition source) \<and>
         mp_target_hash proposal = hash_of pf (pipe_definition r)) ''pipeline proposal changed; refresh proposal'' (
     and_then (merge_definitions (br_base_definition source) (pipe_definition r) (br_definition source) resolutions) (\<lambda>preview.
     ensure (mv_conflicts preview = []) ''pipeline merge conflicts unresolved'' (
     and_then (validate_draft (pl_to_vec pf) (mv_definition preview)) (\<lambda>_.
     and_then (option_context ''pipeline name missing'' (get_str (mv_definition preview) ''name'')) (\<lambda>name.
     let r = map_authoring (\<lambda>a. a\<lparr>as_approval := None, as_proposals := bt_remove proposal_id (as_proposals a)\<rparr>)
           (r\<lparr>pipe_name := name, pipe_definition := mv_definition preview\<rparr>) in
     and_then (option_context ''pipeline branch unavailable'' (bt_get (pipe_branches r) proposal_id)) (\<lambda>b.
     Inr (put_branch proposal_id (b\<lparr>br_base_definition := mv_definition preview,
       br_definition := mv_definition preview, br_base_revision_id := head\<rparr>) r)))))))))"

definition approve ::
  "'s platform \<Rightarrow> put_pipeline_input \<Rightarrow> int \<Rightarrow> string \<Rightarrow> pipeline_record \<Rightarrow> ('s, pipeline_record) io" where
  "approve pf input now_ms head r =
     io_then (lift_io (validate_executable (pl_to_vec pf) (pipe_definition r))) (\<lambda>_.
     io_ensure (case get_array (pipe_definition r) ''sources'' of None \<Rightarrow> False | Some xs \<Rightarrow> xs \<noteq> [])
       ''pipeline requires a source'' (
     io_then (compile_composition pf (pi_tenant_id input) (pi_pipeline_id input) head (pipe_definition r) False) (\<lambda>_.
     lift_io (Inr (map_authoring (\<lambda>a. a\<lparr>as_approval := Some
       \<lparr>cr_definition_hash = hash_of pf (pipe_definition r), cr_author_id = pi_author input,
        cr_reviewed_at_ms = now_ms\<rparr>\<rparr>) r)))))"

definition publish ::
  "'s platform \<Rightarrow> put_pipeline_input \<Rightarrow> int \<Rightarrow> string \<Rightarrow> pipeline_record \<Rightarrow> ('s, pipeline_record) io" where
  "publish pf input now_ms head r =
     io_then (lift_io (option_context ''pipeline approval required'' (as_approval (pipe_authoring r)))) (\<lambda>review.
     io_ensure (cr_definition_hash review = hash_of pf (pipe_definition r)) ''pipeline approval stale'' (
     io_then (compile_composition pf (pi_tenant_id input) (pi_pipeline_id input) head (pipe_definition r) True) (\<lambda>_.
     lift_io (Inr (map_authoring (\<lambda>a. a\<lparr>as_release := Some
       \<lparr>rl_revision_id = head, rl_definition_hash = cr_definition_hash review, rl_author_id = pi_author input,
        rl_published_at_ms = now_ms\<rparr>\<rparr>) r)))))"

definition deploy :: "'s platform \<Rightarrow> put_pipeline_input \<Rightarrow> pipeline_record \<Rightarrow> ('s, pipeline_record) io" where
  "deploy pf input r =
     io_then (lift_io (option_context ''pipeline publication required'' (as_release (pipe_authoring r)))) (\<lambda>release.
     io_then (pipeline_revision pf (pi_tenant_id input) (pi_pipeline_id input) (rl_revision_id release)) (\<lambda>pinned.
     io_ensure (rl_definition_hash release = hash_of pf (pipe_definition (pv_record pinned)))
       ''pipeline publication invalid'' (
     io_then (compile_composition pf (pi_tenant_id input) (pi_pipeline_id input) (rl_revision_id release)
       (pipe_definition (pv_record pinned)) True) (\<lambda>_.
     io_then (runtime_pipeline pf (pi_tenant_id input) (pi_pipeline_id input) (rl_revision_id release)) (\<lambda>_.
     lift_io (Inr (r\<lparr>pipe_published_revision_id := Some (rl_revision_id release)\<rparr>)))))))"

definition apply_command ::
  "'s platform \<Rightarrow> put_pipeline_input \<Rightarrow> int \<Rightarrow> string \<Rightarrow> tenant_state \<Rightarrow> pipeline_record \<Rightarrow> authoring_command
    \<Rightarrow> ('s, pipeline_record \<times> tenant_state) io" where
  "apply_command pf input now_ms head st r command =
     (case command of
        BindOntology block ontology \<Rightarrow>
          io_ensure (json_eq (pi_definition input) (pipe_definition r)) ''binding cannot replace the pipeline definition'' (
          bind_ontology_draft pf (pi_tenant_id input) r st block ontology)
      | SaveDraft branch \<Rightarrow> io_then (lift_io (save_draft pf input now_ms r branch)) (\<lambda>r. lift_io (Inr (r, st)))
      | DeleteBranch branch \<Rightarrow> io_then (lift_io (delete_branch r branch)) (\<lambda>r. lift_io (Inr (r, st)))
      | CreateBranch branch from_branch \<Rightarrow>
          io_then (lift_io (create_branch input now_ms head r branch from_branch)) (\<lambda>r. lift_io (Inr (r, st)))
      | ProposeMerge source_branch \<Rightarrow>
          io_then (lift_io (propose_merge pf input now_ms r source_branch)) (\<lambda>r. lift_io (Inr (r, st)))
      | Merge proposal_id resolutions \<Rightarrow>
          io_then (lift_io (merge_proposed pf head r proposal_id resolutions)) (\<lambda>r. lift_io (Inr (r, st)))
      | Approve \<Rightarrow> io_then (approve pf input now_ms head r) (\<lambda>r. lift_io (Inr (r, st)))
      | Publish \<Rightarrow> io_then (publish pf input now_ms head r) (\<lambda>r. lift_io (Inr (r, st)))
      | Deploy \<Rightarrow> io_then (deploy pf input r) (\<lambda>r. lift_io (Inr (r, st))))"

section \<open>The handler\<close>

definition blank_pipeline :: "put_pipeline_input \<Rightarrow> int \<Rightarrow> pipeline_record" where
  "blank_pipeline input now_ms =
     \<lparr>pipe_authoring = default_authoring, pipe_previous_revision_id = None, pipe_pipeline_id = pi_pipeline_id input,
      pipe_name = pi_name input, pipe_owner_id = pi_owner_id input, pipe_published_revision_id = None,
      pipe_definition = JNull, pipe_author_id = pi_author input, pipe_message = pi_message input,
      pipe_created_at_ms = now_ms, pipe_updated_at_ms = now_ms, pipe_deleted_at_ms = None\<rparr>"

definition stamp :: "put_pipeline_input \<Rightarrow> string \<Rightarrow> int \<Rightarrow> pipeline_record \<Rightarrow> pipeline_record" where
  "stamp input head now_ms r =
     r\<lparr>pipe_previous_revision_id := (if pi_create_only input then None else Some head),
       pipe_author_id := pi_author input, pipe_message := pi_message input, pipe_updated_at_ms := now_ms\<rparr>"

definition author_pipeline ::
  "'s platform \<Rightarrow> put_pipeline_input \<Rightarrow> authoring_command \<Rightarrow> ('s, pipeline_view) io" where
  "author_pipeline pf input command =
     io_ensure (valid_tenant (pi_tenant_id input) \<and> valid_branch (pi_pipeline_id input)) ''invalid pipeline identity'' (
     io_ensure (pi_author input \<noteq> [] \<and> pi_owner_id input \<noteq> []) ''pipeline principal required'' (
     io_ensure (\<not> trim_is_empty (pi_name input) \<and> length (pi_name input) \<le> 256) ''pipeline name required'' (
     io_ensure (pi_message input \<noteq> [] \<and> length (pi_message input) \<le> 1024) ''pipeline message required'' (
     io_then (if pi_create_only input then
         io_ensure (command = SaveDraft ''main'') ''only a main draft can create a pipeline'' (
         io_then (rs_ensure_tenant pf (pi_tenant_id input)) (\<lambda>_. lift_io (Inr ())))
       else lift_io (Inr ())) (\<lambda>_.
     io_then (rs_load pf (pi_tenant_id input) None) (\<lambda>sn.
     io_ensure (pi_create_only input \<or> pi_expected_revision_id input = Some (sn_revision_id sn)) ''pipeline head changed'' (
     let previous = bt_get (ts_pipelines (sn_state sn)) (pi_pipeline_id input);
         st = (sn_state sn)\<lparr>ts_pipelines := bt_remove (pi_pipeline_id input) (ts_pipelines (sn_state sn))\<rparr> in
     io_ensure (\<not> pi_create_only input \<or> previous = None) ''pipeline already exists'' (
     io_ensure (pi_create_only input \<or> (case previous of None \<Rightarrow> False | Some r \<Rightarrow> pipe_deleted_at_ms r = None))
       ''pipeline unavailable'' (
     io_then (now pf) (\<lambda>now_ms.
     let r = (case previous of None \<Rightarrow> blank_pipeline input now_ms | Some r \<Rightarrow> r);
         r = map_authoring (\<lambda>a. a\<lparr>as_enabled := True\<rparr>) r in
     io_then (apply_command pf input now_ms (sn_revision_id sn) st r command) (\<lambda>(r, st).
     let record = stamp input (sn_revision_id sn) now_ms r;
         st = st\<lparr>ts_pipelines := bt_insert (pi_pipeline_id input) record (ts_pipelines st)\<rparr> in
     io_ensure (length (pl_to_vec pf (encode_pipeline_record record)) \<le> 3 * 1024 * 1024)
       ''pipeline workspace size limit exceeded'' (
     io_then (rs_commit pf (pi_tenant_id input) (sn_revision_id sn) st (pi_author input) (pi_message input)) (\<lambda>head.
     io_then (lift_io (option_context ''committed pipeline missing'' (bt_get (ts_pipelines st) (pi_pipeline_id input)))) (\<lambda>record.
     lift_io (Inr \<lparr>pv_head_revision_id = head, pv_record = record\<rparr>)))))))))))))))"

end
