(* ===== verification/Authoring_Workspace.thy ===== *)
theory Authoring_Workspace
  imports Authoring_Service
begin

text \<open>
  Correctness of pipeline workspaces: an approval always speaks of the current definition and of
  one that may run, proposals and branches stay consistent and bounded, a command advances the
  history by one commit, and what was deployed stays runnable.
\<close>

section \<open>The workspace invariant\<close>

definition approval_ok :: "'s platform \<Rightarrow> pipeline_record \<Rightarrow> bool" where
  "approval_ok pf r \<longleftrightarrow> (\<forall>c. as_approval (pipe_authoring r) = Some c \<longrightarrow>
     cr_definition_hash c = hash_of pf (pipe_definition r) \<and>
     validate_executable (pl_to_vec pf) (pipe_definition r) = Inr ())"

definition branches_ok :: "pipeline_record \<Rightarrow> bool" where
  "branches_ok r \<longleftrightarrow> btree (pipe_branches r) \<and> length (pipe_branches r) \<le> 32 \<and> bt_get (pipe_branches r) ''main'' = None \<and>
     (\<forall>x b p. bt_get (pipe_branches r) x = Some b \<longrightarrow> br_parent_branch b = Some p \<longrightarrow>
        p = ''main'' \<or> bt_get (pipe_branches r) p \<noteq> None)"

definition proposals_ok :: "pipeline_record \<Rightarrow> bool" where
  "proposals_ok r \<longleftrightarrow> btree (pipe_proposals r) \<and> length (pipe_proposals r) \<le> 32 \<and>
     (\<forall>x p. bt_get (pipe_proposals r) x = Some p \<longrightarrow> mp_source_branch p = x \<and> bt_get (pipe_branches r) x \<noteq> None)"

definition workspace_sound :: "'s platform \<Rightarrow> pipeline_record \<Rightarrow> bool" where
  "workspace_sound pf r \<longleftrightarrow> approval_ok pf r \<and> branches_ok r \<and> proposals_ok r"

lemmas workspace_defs = workspace_sound_def approval_ok_def branches_ok_def proposals_ok_def

lemma length_btree_eq: "btree m \<Longrightarrow> length m = card (fst ` set m)"
  by (metis btree_distinct distinct_card length_map list.set_map)

lemma length_bt_insert:
  assumes "btree m"
  shows "length (bt_insert k v m) = (if bt_get m k = None then Suc (length m) else length m)"
proof -
  have fin: "finite (fst ` set m)" by simp
  have "bt_get m k = None \<longleftrightarrow> k \<notin> fst ` set m" by (simp add: bt_get_def map_of_eq_None_iff)
  then show ?thesis
    by (simp add: length_btree_eq [OF assms] length_btree_eq [OF btree_insert [OF assms]] card_insert_if insert_absorb)
qed

lemma map_authoring_sel [simp]:
  "pipe_authoring (map_authoring f r) = f (pipe_authoring r)"
  "pipe_definition (map_authoring f r) = pipe_definition r"
  "pipe_pipeline_id (map_authoring f r) = pipe_pipeline_id r"
  "pipe_published_revision_id (map_authoring f r) = pipe_published_revision_id r"
  "pipe_created_at_ms (map_authoring f r) = pipe_created_at_ms r"
  "pipe_updated_at_ms (map_authoring f r) = pipe_updated_at_ms r"
  "pipe_deleted_at_ms (map_authoring f r) = pipe_deleted_at_ms r"
  by (simp_all add: map_authoring_def)

lemma revoke_approval_sel [simp]:
  "as_approval (pipe_authoring (revoke_approval r)) = None"
  "pipe_branches (revoke_approval r) = pipe_branches r" "pipe_proposals (revoke_approval r) = pipe_proposals r"
  "pipe_definition (revoke_approval r) = pipe_definition r"
  by (simp_all add: revoke_approval_def)

lemma put_branch_sel [simp]:
  "pipe_branches (put_branch x b r) = bt_insert x b (pipe_branches r)"
  "pipe_proposals (put_branch x b r) = pipe_proposals r" "pipe_definition (put_branch x b r) = pipe_definition r"
  "as_approval (pipe_authoring (put_branch x b r)) = as_approval (pipe_authoring r)"
  by (simp_all add: put_branch_def)

lemma replace_branch_sound:
  assumes "workspace_sound pf r" "bt_get (pipe_branches r) x = Some b" "br_parent_branch b' = br_parent_branch b"
  shows "workspace_sound pf (put_branch x b' r)"
  using assms by (auto simp: workspace_defs length_bt_insert btree_insert)

lemma new_definition_sound:
  "workspace_sound pf r \<Longrightarrow> workspace_sound pf (revoke_approval (r\<lparr>pipe_definition := d, pipe_name := n\<rparr>))"
  by (simp add: workspace_defs)

lemma save_draft_sound:
  assumes "workspace_sound pf r" "save_draft pf input t r branch = Inr r'"
  shows "workspace_sound pf r'"
proof (cases "branch = ''main''")
  case True
  with assms show ?thesis
    by (auto simp: save_draft_def and_then_Inr_iff ensure_Inr_iff intro: new_definition_sound)
next
  case False
  with assms obtain b where "bt_get (pipe_branches r) branch = Some b"
    "r' = put_branch branch (b\<lparr>br_definition := pi_definition input, br_author_id := pi_author input, br_updated_at_ms := t\<rparr>) r"
    by (auto simp: save_draft_def and_then_Inr_iff ensure_Inr_iff option_context_Inr_iff)
  with assms(1) show ?thesis by (simp add: replace_branch_sound)
qed

lemma bt_values_get: "bt_get m x = Some v \<Longrightarrow> v \<in> set (bt_values m)"
  unfolding bt_get_def bt_values_def by (metis map_of_SomeD set_zip_rightD zip_map_fst_snd)

lemma delete_branch_sound:
  assumes "workspace_sound pf r" "delete_branch r branch = Inr r'"
  shows "workspace_sound pf r'"
proof -
  have r': "r' = map_authoring (\<lambda>a. a\<lparr>as_branches := bt_remove branch (as_branches a)\<rparr>) r"
    and "\<forall>b \<in> set (bt_values (pipe_branches r)). br_parent_branch b \<noteq> Some branch"
      "\<forall>p \<in> set (bt_values (pipe_proposals r)). mp_source_branch p \<noteq> branch" and main: "branch \<noteq> ''main''"
    using assms(2) by (auto simp: delete_branch_def ensure_Inr_iff list_ex_iff)
  then have free: "bt_get (pipe_branches r) x = Some b \<Longrightarrow> br_parent_branch b \<noteq> Some branch"
      "bt_get (pipe_proposals r) x = Some p \<Longrightarrow> mp_source_branch p \<noteq> branch" for x b p
    using bt_values_get by fast+
  have "length (bt_remove branch (pipe_branches r)) \<le> length (pipe_branches r)"
    unfolding bt_remove_def by (rule length_filter_le)
  then show ?thesis using assms(1) free main by (auto simp: workspace_defs r' btree_remove)
qed

lemma create_branch_sound:
  assumes "workspace_sound pf r" "create_branch input t head r branch from_branch = Inr r'"
  shows "workspace_sound pf r'"
proof -
  obtain d bd br where new: "branch \<noteq> ''main''" "length (pipe_branches r) < 32" "bt_get (pipe_branches r) branch = None"
    and from_b: "from_branch = ''main'' \<or> bt_get (pipe_branches r) from_branch \<noteq> None"
    and r': "r' = put_branch branch
       \<lparr>br_parent_branch = Some from_branch, br_definition = d, br_base_definition = bd,
        br_base_revision_id = br, br_author_id = pi_author input, br_updated_at_ms = t\<rparr> r"
    using assms(2) unfolding create_branch_def
    by (auto simp: ensure_Inr_iff and_then_Inr_iff option_context_Inr_iff bt_contains_get split: if_splits)
  show ?thesis using assms(1) new from_b by (auto simp: workspace_defs r' length_bt_insert btree_insert)
qed

lemma propose_merge_sound:
  assumes "workspace_sound pf r" "propose_merge pf input t r x = Inr r'"
  shows "workspace_sound pf r'"
proof -
  obtain source where p: "bt_get (pipe_branches r) x = Some source"
      "length (pipe_proposals r) < 32 \<or> bt_get (pipe_proposals r) x \<noteq> None"
      "r' = map_authoring (\<lambda>a. a\<lparr>as_proposals := bt_insert x
        \<lparr>mp_source_branch = x, mp_source_hash = hash_of pf (br_definition source),
         mp_target_hash = hash_of pf (pipe_definition r), mp_author_id = pi_author input, mp_created_at_ms = t\<rparr>
        (as_proposals a)\<rparr>) r"
    using assms(2) unfolding propose_merge_def
    by (auto simp: ensure_Inr_iff and_then_Inr_iff option_context_Inr_iff bt_contains_get)
  show ?thesis using assms(1) p(1,2) by (auto simp: workspace_defs p(3) length_bt_insert btree_insert)
qed

lemma merge_proposed_Inr:
  assumes "merge_proposed pf head r x res = Inr r'" "proposals_ok r"
  obtains source preview name where "bt_get (pipe_branches r) x = Some source"
    "merge_definitions (br_base_definition source) (pipe_definition r) (br_definition source) res = Inr preview"
    "mv_conflicts preview = []" "validate_draft (pl_to_vec pf) (mv_definition preview) = Inr ()"
    "r' = put_branch x (source\<lparr>br_base_definition := mv_definition preview,
       br_definition := mv_definition preview, br_base_revision_id := head\<rparr>)
       (map_authoring (\<lambda>a. a\<lparr>as_approval := None, as_proposals := bt_remove x (as_proposals a)\<rparr>)
         (r\<lparr>pipe_name := name, pipe_definition := mv_definition preview\<rparr>))"
proof -
  obtain p where p: "bt_get (pipe_proposals r) x = Some p"
    using assms(1) unfolding merge_proposed_def by (auto simp: and_then_Inr_iff option_context_Inr_iff)
  then have "mp_source_branch p = x" using assms(2) by (simp add: proposals_ok_def)
  note run = assms(1) [unfolded merge_proposed_def p option_context_simps and_then_simps this Let_def]
  then obtain source preview name where "bt_get (pipe_branches r) x = Some source"
    "merge_definitions (br_base_definition source) (pipe_definition r) (br_definition source) res = Inr preview"
    "mv_conflicts preview = []" "validate_draft (pl_to_vec pf) (mv_definition preview) = Inr ()"
    "r' = put_branch x (source\<lparr>br_base_definition := mv_definition preview,
       br_definition := mv_definition preview, br_base_revision_id := head\<rparr>)
       (map_authoring (\<lambda>a. a\<lparr>as_approval := None, as_proposals := bt_remove x (as_proposals a)\<rparr>)
         (r\<lparr>pipe_name := name, pipe_definition := mv_definition preview\<rparr>))"
    by (auto simp: and_then_Inr_iff ensure_Inr_iff option_context_Inr_iff)
  then show thesis by (rule that)
qed

lemma merge_proposed_sound:
  assumes "workspace_sound pf r" "merge_proposed pf head r x res = Inr r'"
  shows "workspace_sound pf r'"
proof (rule merge_proposed_Inr [OF assms(2)])
  show "proposals_ok r" using assms(1) by (simp add: workspace_sound_def)
  fix source preview name
  assume source: "bt_get (pipe_branches r) x = Some source"
    and r': "r' = put_branch x (source\<lparr>br_base_definition := mv_definition preview,
       br_definition := mv_definition preview, br_base_revision_id := head\<rparr>)
       (map_authoring (\<lambda>a. a\<lparr>as_approval := None, as_proposals := bt_remove x (as_proposals a)\<rparr>)
         (r\<lparr>pipe_name := name, pipe_definition := mv_definition preview\<rparr>))"
  have "length (bt_remove x (pipe_proposals r)) \<le> length (pipe_proposals r)"
    unfolding bt_remove_def by (rule length_filter_le)
  then have "workspace_sound pf (map_authoring (\<lambda>a. a\<lparr>as_approval := None, as_proposals := bt_remove x (as_proposals a)\<rparr>)
         (r\<lparr>pipe_name := name, pipe_definition := mv_definition preview\<rparr>))"
    using assms(1) by (auto simp: workspace_defs btree_remove)
  then show ?thesis unfolding r' by (rule replace_branch_sound) (use source in simp_all)
qed

section \<open>Well-formed records\<close>

lemma wf_merge_definitions:
  assumes "merge_definitions base target source res = Inr preview" "wf_json base" "wf_json target" "wf_json source"
  shows "wf_json (mv_definition preview)"
proof -
  obtain out cs where preview: "preview = \<lparr>mv_definition = out, mv_conflicts = cs\<rparr>" by (cases preview) auto
  obtain nb nt ns obj where n: "normalize base = Inr nb" "normalize target = Inr nt" "normalize source = Inr ns"
    and m: "merge_definition_value res [] (Some nb) (Some nt) (Some ns) 0 = Inr (Some (JObject obj), cs)"
    and some: "get_object (JObject obj) ''sources'' \<noteq> None" "get_object (JObject obj) ''pipeline'' \<noteq> None"
    and out: "out = JObject (json_insert ''pipeline'' (JArray (map snd (the (get_object (JObject obj) ''pipeline''))))
       (json_insert ''sources'' (JArray (map snd (the (get_object (JObject obj) ''sources'')))) obj))"
    by (rule merge_definitions_Inr [OF assms(1) [unfolded preview]])
  have "wf_json nb" "wf_json nt" "wf_json ns" using n assms(2-4) by (meson normalize_Inr)+
  then have obj: "wf_json (JObject obj)" using wf_merge_definition [OF m] by simp
  have part: "wf_json (JArray (map snd (the (get_object (JObject obj) k))))" if has: "get_object (JObject obj) k \<noteq> None" for k
  proof -
    obtain mm where mm: "get_object (JObject obj) k = Some mm" using has by auto
    then have "map_of obj k = Some (JObject mm)" by (simp add: get_eq_Some json_get_def)
    then have "wf_json (JObject mm)" by (rule map_of_wf [OF obj])
    then show ?thesis by (auto simp: mm list_all_iff)
  qed
  have "wf_json out" unfolding out by (intro wf_json_insert obj part some)
  then show ?thesis by (simp add: preview)
qed

lemma wf_require_ontology:
  "require_ontology block steps = Inr steps' \<Longrightarrow> list_all wf_json steps \<Longrightarrow> list_all wf_json steps'"
proof (induction steps arbitrary: steps')
  case (Cons step steps)
  show ?case
  proof (cases "get_str step ''step'' = Some block")
    case True
    then obtain m where "step = JObject m" "steps' = JObject (json_insert ''ontology_required'' (JBool True) m) # steps"
      using Cons.prems(1) by (auto simp: ensure_Inr_iff and_then_Inr_iff option_context_Inr_iff)
    then show ?thesis using Cons.prems(2) wf_json_insert [of m "JBool True"] by simp
  next
    case False
    then show ?thesis using Cons by (auto simp: and_then_Inr_iff)
  qed
qed simp

lemma wf_update_steps:
  assumes "update_steps f document = Inr d" "wf_json document"
    and "\<And>steps steps'. f steps = Inr steps' \<Longrightarrow> list_all wf_json steps \<Longrightarrow> list_all wf_json steps'"
  shows "wf_json d"
proof -
  obtain m steps steps' where m: "document = JObject m" "map_of m ''pipeline'' = Some (JArray steps)"
      "f steps = Inr steps'" "d = JObject (json_insert ''pipeline'' (JArray steps') m)"
    using assms(1) unfolding update_steps_def
    by (auto simp: and_then_Inr_iff get_array_def json_get_def bind_eq_Some_conv split: json.splits option.splits)
  have "wf_json (JArray steps)" using map_of_wf [OF _ m(2)] assms(2) m(1) by blast
  then show ?thesis unfolding m(4) using assms(2,3) m(1,3) by (intro wf_json_insert) auto
qed

lemma wf_put_branch:
  "wf_pipeline_record r \<Longrightarrow> wf_branch b \<Longrightarrow> wf_pipeline_record (put_branch x b r)"
  by (auto simp: wf_pipeline_record_def put_branch_def map_authoring_def wf_authoring_state_def)

lemma wf_revoke: "wf_pipeline_record r \<Longrightarrow> wf_pipeline_record (revoke_approval r)"
  by (auto simp: wf_pipeline_record_def revoke_approval_def map_authoring_def wf_authoring_state_def)

lemma wf_branch_get: "wf_pipeline_record r \<Longrightarrow> bt_get (pipe_branches r) x = Some b \<Longrightarrow> wf_branch b"
  by (auto simp: wf_pipeline_record_def wf_authoring_state_def dest: wf_map_get)

lemma wf_save_draft:
  assumes "wf_pipeline_record r" "wf_json (pi_definition input)" "i64 t" "save_draft pf input t r x = Inr r'"
  shows "wf_pipeline_record r'"
proof (cases "x = ''main''")
  case True
  have "wf_pipeline_record (r\<lparr>pipe_definition := pi_definition input, pipe_name := pi_name input\<rparr>)"
    using assms(1,2) by (simp add: wf_pipeline_record_def)
  then show ?thesis using True assms(4) by (auto simp: save_draft_def and_then_Inr_iff ensure_Inr_iff wf_revoke)
next
  case False
  then obtain b where b: "bt_get (pipe_branches r) x = Some b" "r' = put_branch x
      (b\<lparr>br_definition := pi_definition input, br_author_id := pi_author input, br_updated_at_ms := t\<rparr>) r"
    using assms(4) by (auto simp: save_draft_def and_then_Inr_iff ensure_Inr_iff option_context_Inr_iff)
  show ?thesis unfolding b(2)
    using wf_branch_get [OF assms(1) b(1)] assms(2,3) by (intro wf_put_branch assms(1)) (simp add: wf_branch_def)
qed

lemma wf_create_branch:
  assumes "wf_pipeline_record r" "i64 t" "create_branch input t head r x from_branch = Inr r'"
  shows "wf_pipeline_record r'"
proof -
  obtain d bd br where docs: "wf_json d" "wf_json bd" and r': "r' = put_branch x
       \<lparr>br_parent_branch = Some from_branch, br_definition = d, br_base_definition = bd,
        br_base_revision_id = br, br_author_id = pi_author input, br_updated_at_ms = t\<rparr> r"
  proof (cases "from_branch = ''main''")
    case True
    then show thesis using assms(3) assms(1) that [of "pipe_definition r" "pipe_definition r" head]
      by (auto simp: create_branch_def ensure_Inr_iff and_then_Inr_iff wf_pipeline_record_def)
  next
    case False
    then obtain p where "bt_get (pipe_branches r) from_branch = Some p" "r' = put_branch x
       \<lparr>br_parent_branch = Some from_branch, br_definition = br_definition p, br_base_definition = br_base_definition p,
        br_base_revision_id = br_base_revision_id p, br_author_id = pi_author input, br_updated_at_ms = t\<rparr> r"
      using assms(3) by (auto simp: create_branch_def ensure_Inr_iff and_then_Inr_iff option_context_Inr_iff)
    moreover from this(1) have "wf_branch p" by (rule wf_branch_get [OF assms(1)])
    ultimately show thesis
      using that [of "br_definition p" "br_base_definition p" "br_base_revision_id p"] by (simp add: wf_branch_def)
  qed
  show ?thesis unfolding r' using docs assms(2) by (intro wf_put_branch assms(1)) (simp add: wf_branch_def)
qed

lemma wf_merge_proposed:
  assumes "wf_pipeline_record r" "merge_proposed pf head r x res = Inr r'"
  shows "wf_pipeline_record r'"
proof -
  obtain y source b preview name where source: "bt_get (pipe_branches r) y = Some source"
      "bt_get (pipe_branches r) x = Some b"
    and merge: "merge_definitions (br_base_definition source) (pipe_definition r) (br_definition source) res = Inr preview"
    and r': "r' = put_branch x (b\<lparr>br_base_definition := mv_definition preview,
       br_definition := mv_definition preview, br_base_revision_id := head\<rparr>)
       (map_authoring (\<lambda>a. a\<lparr>as_approval := None, as_proposals := bt_remove x (as_proposals a)\<rparr>)
         (r\<lparr>pipe_name := name, pipe_definition := mv_definition preview\<rparr>))"
    using assms(2) unfolding merge_proposed_def Let_def
    by (auto simp: and_then_Inr_iff ensure_Inr_iff option_context_Inr_iff)
  have b: "wf_branch source" "wf_branch b" by (rule wf_branch_get [OF assms(1)], rule source)+
  then have d: "wf_json (mv_definition preview)"
    using wf_merge_definitions [OF merge] assms(1) by (simp add: wf_branch_def wf_pipeline_record_def)
  have "wf_pipeline_record (map_authoring (\<lambda>a. a\<lparr>as_approval := None, as_proposals := bt_remove x (as_proposals a)\<rparr>)
         (r\<lparr>pipe_name := name, pipe_definition := mv_definition preview\<rparr>))"
    using assms(1) d by (auto simp: wf_pipeline_record_def wf_authoring_state_def map_authoring_def)
  then show ?thesis unfolding r' using b d by (intro wf_put_branch) (simp_all add: wf_branch_def)
qed

section \<open>Commands on the store\<close>

definition binds_only :: "string \<Rightarrow> tenant_state \<Rightarrow> tenant_state \<Rightarrow> bool" where
  "binds_only x st st' \<longleftrightarrow> st' = st \<or>
     (\<exists>block b. wf_ontology_binding_record b \<and> st' = with_binding (binding_key x block) b st)"

lemma binds_only_transfer:
  assumes "binds_only y (st\<lparr>ts_pipelines := bt_remove x (ts_pipelines st)\<rparr>) st'" "wf_tenant_state st"
  shows "\<exists>st0. binds_only y st st0 \<and> wf_tenant_state st0 \<and>
    st'\<lparr>ts_pipelines := bt_insert x r (ts_pipelines st')\<rparr> = with_pipeline x r st0"
proof -
  have eq: "bt_insert x r (bt_remove x (ts_pipelines st)) = bt_insert x r (ts_pipelines st)"
    using assms(2) by (simp add: bt_insert_remove wf_tenant_state_def wf_map_def)
  from assms(1) consider "st' = st\<lparr>ts_pipelines := bt_remove x (ts_pipelines st)\<rparr>"
    | block b where "wf_ontology_binding_record b"
      "st' = with_binding (binding_key y block) b (st\<lparr>ts_pipelines := bt_remove x (ts_pipelines st)\<rparr>)"
    unfolding binds_only_def by blast
  then show ?thesis
  proof cases
    case 1
    then show ?thesis using assms(2) eq by (intro exI [of _ st]) (simp add: binds_only_def with_pipeline_def)
  next
    case (2 block b)
    then show ?thesis using wf_with(3) [OF assms(2) 2(1)] eq
      by (intro exI [of _ "with_binding (binding_key y block) b st"])
        (auto simp: binds_only_def with_pipeline_def with_binding_def)
  qed
qed

context revision_reader
begin

lemma steady_apply_command: "steady (apply_command pf input now_ms head st r command)"
  unfolding apply_command_def bind_ontology_draft_def approve_def publish_def deploy_def
  by (auto intro!: keeps_io simp: Let_def split: authoring_command.split)

end

context revision_store
begin

lemma bind_ontology_draft_Inr:
  assumes "bind_ontology_draft pf t r st block ontology s = (Inr (r', st'), s')" "wf_pipeline_record r"
  shows "binds_only (pipe_pipeline_id r) st st'" "wf_pipeline_record r'" "workspace_sound pf r \<Longrightarrow> workspace_sound pf r'"
proof -
  let ?b = "\<lparr>bd_pipeline_id = pipe_pipeline_id r, bd_block_id = block, bd_ontology_id = ontology,
        bd_resource_ids = [], bd_resource_kinds = BOUND_KINDS, bd_include_dependencies = True,
        bd_metadata = JObject [(''source'', JString ''explicit_tenant_selection'')], bd_updated_at_ms = pl_now pf s\<rparr>"
  obtain d where d: "update_steps (require_ontology block) (pipe_definition r) = Inr d"
    and r': "r' = revoke_approval (r\<lparr>pipe_definition := d\<rparr>)"
    and st': "st' = with_binding (binding_key (pipe_pipeline_id r) block) ?b st"
    using assms(1) unfolding bind_ontology_draft_def Let_def with_binding_def by (auto simp: io_simps)
  have "wf_ontology_binding_record ?b" using clock by (simp add: wf_ontology_binding_record_def)
  then show "binds_only (pipe_pipeline_id r) st st'" unfolding binds_only_def st' by blast
  have "wf_json d"
    using wf_update_steps [OF d] wf_require_ontology assms(2) by (simp add: wf_pipeline_record_def)
  then show "wf_pipeline_record r'" unfolding r' using assms(2) by (intro wf_revoke) (simp add: wf_pipeline_record_def)
  show "workspace_sound pf r \<Longrightarrow> workspace_sound pf r'" by (simp add: r' workspace_defs)
qed

lemma workspace_sound_cong:
  "pipe_branches r' = pipe_branches r \<Longrightarrow> pipe_proposals r' = pipe_proposals r \<Longrightarrow> approval_ok pf r' \<Longrightarrow>
    workspace_sound pf r \<Longrightarrow> workspace_sound pf r'"
  by (simp add: workspace_sound_def branches_ok_def proposals_ok_def)

lemma approve_Inr:
  assumes "approve pf input now_ms head r s = (Inr r', s')"
  shows "r' = map_authoring (\<lambda>a. a\<lparr>as_approval := Some
       \<lparr>cr_definition_hash = hash_of pf (pipe_definition r), cr_author_id = pi_author input,
        cr_reviewed_at_ms = now_ms\<rparr>\<rparr>) r" "validate_executable (pl_to_vec pf) (pipe_definition r) = Inr ()"
  using assms unfolding approve_def by (auto simp: io_simps)

lemma publish_Inr:
  assumes "publish pf input now_ms head r s = (Inr r', s')"
  shows "\<exists>review. as_approval (pipe_authoring r) = Some review \<and> cr_definition_hash review = hash_of pf (pipe_definition r) \<and>
    r' = map_authoring (\<lambda>a. a\<lparr>as_release := Some
       \<lparr>rl_revision_id = head, rl_definition_hash = hash_of pf (pipe_definition r), rl_author_id = pi_author input,
        rl_published_at_ms = now_ms\<rparr>\<rparr>) r"
  using assms unfolding publish_def by (auto simp: io_simps option_context_Inr_iff)

lemma deploy_Inr:
  "deploy pf input r s = (Inr r', s') \<Longrightarrow> \<exists>rev. r' = r\<lparr>pipe_published_revision_id := rev\<rparr>"
  unfolding deploy_def by (auto simp: io_simps)

lemma lifecycle_sound:
  assumes "workspace_sound pf r"
  shows "approve pf input now_ms head r s = (Inr r', s') \<Longrightarrow> workspace_sound pf r'"
    "publish pf input now_ms head r s = (Inr r', s') \<Longrightarrow> workspace_sound pf r'"
    "deploy pf input r s = (Inr r', s') \<Longrightarrow> workspace_sound pf r'"
proof -
  have ok: "approval_ok pf r" using assms by (simp add: workspace_sound_def)
  { assume run: "approve pf input now_ms head r s = (Inr r', s')"
    show "workspace_sound pf r'" unfolding approve_Inr(1) [OF run]
      by (rule workspace_sound_cong [OF _ _ _ assms]) (simp_all add: approval_ok_def approve_Inr(2) [OF run]) }
  { assume "publish pf input now_ms head r s = (Inr r', s')"
    from publish_Inr [OF this] ok show "workspace_sound pf r'"
      by (intro workspace_sound_cong [OF _ _ _ assms]) (auto simp: approval_ok_def) }
  { assume "deploy pf input r s = (Inr r', s')"
    from deploy_Inr [OF this] ok show "workspace_sound pf r'"
      by (intro workspace_sound_cong [OF _ _ _ assms]) (auto simp: approval_ok_def) }
qed

text \<open>Every command keeps the workspace sound and the record storable.\<close>

lemma apply_command_sound:
  assumes "apply_command pf input now_ms head st r command s = (Inr (r', st'), s')" "workspace_sound pf r"
  shows "workspace_sound pf r'"
proof (cases command)
  case (BindOntology block ontology)
  then obtain d where "r' = revoke_approval (r\<lparr>pipe_definition := d\<rparr>)"
    using assms(1) by (auto simp: apply_command_def bind_ontology_draft_def Let_def io_simps)
  then show ?thesis using assms(2) by (simp add: workspace_defs)
qed (use assms in \<open>auto simp: apply_command_def io_simps intro: save_draft_sound delete_branch_sound
      create_branch_sound propose_merge_sound merge_proposed_sound lifecycle_sound\<close>)

lemma apply_command_wf:
  assumes "apply_command pf input now_ms head st r command s = (Inr (r', st'), s')"
    and wf: "wf_pipeline_record r" "wf_json (pi_definition input)" "i64 now_ms"
  shows "wf_pipeline_record r' \<and> binds_only (pipe_pipeline_id r) st st'"
proof (cases command)
  case (BindOntology block ontology)
  with assms show ?thesis using bind_ontology_draft_Inr
    by (auto simp: apply_command_def io_simps)
next
  case (DeleteBranch x)
  with assms show ?thesis
    by (auto simp: apply_command_def io_simps binds_only_def delete_branch_def ensure_Inr_iff wf_pipeline_record_def
        wf_authoring_state_def)
next
  case (ProposeMerge x)
  with assms show ?thesis
    by (auto simp: apply_command_def io_simps binds_only_def propose_merge_def ensure_Inr_iff and_then_Inr_iff
        wf_pipeline_record_def wf_authoring_state_def wf_merge_proposal_def intro!: wf_map_insert)
next
  case Approve
  with assms show ?thesis
    by (auto simp: apply_command_def io_simps binds_only_def wf_pipeline_record_def
        wf_authoring_state_def wf_content_review_def dest!: approve_Inr(1))
next
  case Publish
  with assms show ?thesis
    by (auto simp: apply_command_def io_simps binds_only_def wf_pipeline_record_def
        wf_authoring_state_def wf_pipeline_release_def dest!: publish_Inr)
next
  case Deploy
  with assms show ?thesis
    by (auto simp: apply_command_def io_simps binds_only_def wf_pipeline_record_def dest!: deploy_Inr)
qed (use assms in \<open>auto simp: apply_command_def io_simps binds_only_def
      intro: wf_save_draft wf_create_branch wf_merge_proposed\<close>)

text \<open>One authoring command, as a step of the history.\<close>

lemma author_pipeline_Inr:
  assumes "author_pipeline pf input command s = (Inr view, s')" "valid s"
  obtains s0 sn s1 r0 r st where
    "valid s0" "extends commits_of s s0" "rs_load pf (pi_tenant_id input) None s0 = (Inr sn, s1)"
    "pi_create_only input \<or> pi_expected_revision_id input = Some (sn_revision_id sn)"
    "r0 = map_authoring (\<lambda>a. a\<lparr>as_enabled := True\<rparr>)
       (case bt_get (ts_pipelines (sn_state sn)) (pi_pipeline_id input) of
          None \<Rightarrow> blank_pipeline input (pl_now pf s1) | Some r \<Rightarrow> r)"
    "\<exists>s2. apply_command pf input (pl_now pf s1) (sn_revision_id sn)
       ((sn_state sn)\<lparr>ts_pipelines := bt_remove (pi_pipeline_id input) (ts_pipelines (sn_state sn))\<rparr>) r0 command s1 =
         (Inr (r, st), s2) \<and>
       rs_commit pf (pi_tenant_id input) (sn_revision_id sn)
         (st\<lparr>ts_pipelines := bt_insert (pi_pipeline_id input) (pv_record view) (ts_pipelines st)\<rparr>)
         (pi_author input) (pi_message input) s2 = (Inr (pv_head_revision_id view), s')"
    "pv_record view = stamp input (sn_revision_id sn) (pl_now pf s1) r"
proof -
  let ?t = "pi_tenant_id input"
  let ?prepare = "if pi_create_only input then
         io_ensure (command = SaveDraft ''main'') ''only a main draft can create a pipeline'' (
         io_then (rs_ensure_tenant pf ?t) (\<lambda>_. lift_io (Inr ())))
       else lift_io (Inr ())"
  have steady: "steady ?prepare" by (auto intro: keeps_io)
  obtain s0 sn s1 r st s2 where prepare: "?prepare s = (Inr (), s0)"
    and load: "rs_load pf ?t None s0 = (Inr sn, s1)"
    and head: "pi_create_only input \<or> pi_expected_revision_id input = Some (sn_revision_id sn)"
    and apply_c: "apply_command pf input (pl_now pf s1) (sn_revision_id sn)
       ((sn_state sn)\<lparr>ts_pipelines := bt_remove (pi_pipeline_id input) (ts_pipelines (sn_state sn))\<rparr>)
       (map_authoring (\<lambda>a. a\<lparr>as_enabled := True\<rparr>)
         (case bt_get (ts_pipelines (sn_state sn)) (pi_pipeline_id input) of
            None \<Rightarrow> blank_pipeline input (pl_now pf s1) | Some r \<Rightarrow> r)) command s1 = (Inr (r, st), s2)"
    and commit: "rs_commit pf ?t (sn_revision_id sn)
         (st\<lparr>ts_pipelines := bt_insert (pi_pipeline_id input) (pv_record view) (ts_pipelines st)\<rparr>)
         (pi_author input) (pi_message input) s2 = (Inr (pv_head_revision_id view), s')"
    and rec: "pv_record view = stamp input (sn_revision_id sn) (pl_now pf s1) r"
    using assms(1) unfolding author_pipeline_def Let_def
    by (clarsimp simp: io_simps option_context_Inr_iff simp del: if_split)
  show thesis
    using keepsD [OF steady assms(2) prepare] load head apply_c commit rec that by blast
qed

lemma author_pipeline_committed:
  assumes "valid s" "wf_json (pi_definition input)" "author_pipeline pf input command s = (Inr view, s')"
  obtains sn :: snapshot and s1 r0 r st st0 s2 where
    "extends commits_of s s1" "extends commits_of s1 s2" "extends commits_of s2 s'" "valid s1" "valid s2"
    "sn_state sn = state_at (commits_of s1) (pi_tenant_id input) (sn_revision_id sn)"
    "pi_create_only input \<or> pi_expected_revision_id input = Some (sn_revision_id sn)"
    "r0 = map_authoring (\<lambda>a. a\<lparr>as_enabled := True\<rparr>)
       (case bt_get (ts_pipelines (sn_state sn)) (pi_pipeline_id input) of
          None \<Rightarrow> blank_pipeline input (pl_now pf s1) | Some r \<Rightarrow> r)"
    "apply_command pf input (pl_now pf s1) (sn_revision_id sn)
       ((sn_state sn)\<lparr>ts_pipelines := bt_remove (pi_pipeline_id input) (ts_pipelines (sn_state sn))\<rparr>) r0 command s1 =
         (Inr (r, st), s2)"
    "pv_record view = stamp input (sn_revision_id sn) (pl_now pf s1) r"
    "binds_only (pipe_pipeline_id r0) (sn_state sn) st0"
    "commits_of s2 (pi_tenant_id input) (pv_head_revision_id view) = None"
    "commits_of s' (pi_tenant_id input) (pv_head_revision_id view) =
      Some (sn_revision_id sn, with_pipeline (pi_pipeline_id input) (pv_record view) st0)"
proof -
  let ?t = "pi_tenant_id input" and ?x = "pi_pipeline_id input"
  obtain s0 sn s1 r0 r st s2 where s0: "valid s0" "extends commits_of s s0"
    and load: "rs_load pf ?t None s0 = (Inr sn, s1)"
    and head: "pi_create_only input \<or> pi_expected_revision_id input = Some (sn_revision_id sn)"
    and r0: "r0 = map_authoring (\<lambda>a. a\<lparr>as_enabled := True\<rparr>) (case bt_get (ts_pipelines (sn_state sn)) ?x of
          None \<Rightarrow> blank_pipeline input (pl_now pf s1) | Some r \<Rightarrow> r)"
    and apply_c: "apply_command pf input (pl_now pf s1) (sn_revision_id sn)
       ((sn_state sn)\<lparr>ts_pipelines := bt_remove ?x (ts_pipelines (sn_state sn))\<rparr>) r0 command s1 = (Inr (r, st), s2)"
    and commit: "rs_commit pf ?t (sn_revision_id sn)
         (st\<lparr>ts_pipelines := bt_insert ?x (pv_record view) (ts_pipelines st)\<rparr>)
         (pi_author input) (pi_message input) s2 = (Inr (pv_head_revision_id view), s')"
    and rec: "pv_record view = stamp input (sn_revision_id sn) (pl_now pf s1) r"
    by (rule author_pipeline_Inr [OF assms(3,1)]) blast
  note wf = wf_loaded [OF s0(1) load] and s1 = load_extends [OF s0(1) load] and sn = load_state [OF s0(1) load]
  have "wf_pipeline_record r0"
    using wf_records(1) [OF wf] clock
    by (auto simp: r0 wf_pipeline_record_def blank_pipeline_def wf_authoring_state_def default_authoring_def split: option.split)
  note applied = apply_command_wf [OF apply_c this assms(2) clock]
  have wf_rec: "wf_pipeline_record (pv_record view)"
    using applied clock by (simp add: rec stamp_def wf_pipeline_record_def)
  obtain st0 where st0: "binds_only (pipe_pipeline_id r0) (sn_state sn) st0" "wf_tenant_state st0"
      "st\<lparr>ts_pipelines := bt_insert ?x (pv_record view) (ts_pipelines st)\<rparr> = with_pipeline ?x (pv_record view) st0"
    using binds_only_transfer [OF conjunct2 [OF applied] wf] by blast
  note s2 = keepsD [OF steady_apply_command conjunct1 [OF s1] apply_c]
  have wf_new: "wf_tenant_state (with_pipeline ?x (pv_record view) st0)" by (rule wf_with(1) [OF st0(2) wf_rec])
  note done' = commit_records [OF conjunct1 [OF s2] wf_new commit [unfolded st0(3)]]
    and s' = commit_extends [OF conjunct1 [OF s2] wf_new commit [unfolded st0(3)]]
  show thesis
    by (rule that [OF extends_trans [OF s0(2) conjunct2 [OF s1]] conjunct2 [OF s2] conjunct2 [OF s'] conjunct1 [OF s1]
          conjunct1 [OF s2] conjunct1 [OF sn] head r0 apply_c rec st0(1) conjunct1 [OF done'] conjunct2 [OF done']])
qed

lemma author_pipeline_advances:
  assumes "valid s" "wf_json (pi_definition input)" "author_pipeline pf input command s = (Inr view, s')"
  shows "\<exists>base s1 st. extends commits_of s s1 \<and> extends commits_of s1 s' \<and>
    (pi_create_only input \<or> pi_expected_revision_id input = Some base) \<and>
    commits_of s (pi_tenant_id input) (pv_head_revision_id view) = None \<and>
    commits_of s' (pi_tenant_id input) (pv_head_revision_id view) =
      Some (base, with_pipeline (pi_pipeline_id input) (pv_record view) st) \<and>
    (\<exists>x. binds_only x (state_at (commits_of s1) (pi_tenant_id input) base) st)"
proof (rule author_pipeline_committed [OF assms])
  fix sn :: snapshot and s1 r0 r st st0 s2
  assume ext: "extends commits_of s s1" "extends commits_of s1 s2" "extends commits_of s2 s'"
    and sn: "sn_state sn = state_at (commits_of s1) (pi_tenant_id input) (sn_revision_id sn)"
      "pi_create_only input \<or> pi_expected_revision_id input = Some (sn_revision_id sn)"
    and st0: "binds_only (pipe_pipeline_id r0) (sn_state sn) st0"
    and commit: "commits_of s2 (pi_tenant_id input) (pv_head_revision_id view) = None"
      "commits_of s' (pi_tenant_id input) (pv_head_revision_id view) =
        Some (sn_revision_id sn, with_pipeline (pi_pipeline_id input) (pv_record view) st0)"
  have "commits_of s (pi_tenant_id input) (pv_head_revision_id view) = None"
    using commit(1) extends_commit [OF extends_trans [OF ext(1,2)], of "pi_tenant_id input" "pv_head_revision_id view"]
    by (cases "commits_of s (pi_tenant_id input) (pv_head_revision_id view)") auto
  moreover have "extends commits_of s1 s'" by (rule extends_trans [OF ext(2,3)])
  ultimately show ?thesis using ext(1) sn st0 commit(2) by metis
qed

end

context durable_store
begin

lemma runtime_forever:
  assumes "runtime_pipeline pf t x r s = (Inr record, s')" "valid s" "valid u" "extends commits_of s' u"
  shows "\<exists>u'. runtime_pipeline pf t x r u = (Inr record, u')"
proof -
  obtain sn s1 live compiled where ids: "validate_identity t x = Inr ()" "valid_revision r"
    and load: "rs_load pf t (Some r) s = (Inr sn, s1)"
    and deps: "validate_pipeline_ontology_dependencies (sn_state sn) x = Inr ()"
    and live: "live_pipeline ''pipeline unavailable at revision'' (sn_state sn) x = Inr live"
    and compile: "compile_composition pf t x r (pipe_definition live) True s1 = (Inr compiled, s')"
    and rec: "record = live\<lparr>pipe_definition := compiled\<rparr>"
    using assms(1) unfolding runtime_pipeline_def by (auto simp: io_simps)
  note s1 = load_extends [OF assms(2) load]
  note s' = keepsD [OF steady_compile_composition conjunct1 [OF s1] compile]
  have content: "sn_state sn \<noteq> default_tenant_state" using live by (auto simp: live_pipeline_Inr)
  have "extends commits_of s1 u" by (rule extends_trans [OF conjunct2 [OF s'] assms(4)])
  from pinned_forever [OF assms(2) load content assms(3) this ids(2)] obtain u1 where
    u1: "rs_load pf t (Some r) u = (Inr sn, u1)" by blast
  note u1' = load_extends [OF assms(3) u1]
  have "extends commits_of s' u1" by (rule extends_trans [OF assms(4) conjunct2 [OF u1']])
  from compile_composition_forever [OF compile conjunct1 [OF s1] conjunct1 [OF u1'] this] obtain u2 where
    "compile_composition pf t x r (pipe_definition live) True u1 = (Inr compiled, u2)" by blast
  then show ?thesis using ids deps live u1 rec by (auto simp: runtime_pipeline_def io_then_def lift_io_def)
qed

text \<open>What was deployed can run in every later world.\<close>

lemma deploy_forever:
  assumes "deploy pf input r s = (Inr r', s')" "valid s"
  shows "\<exists>revision record. pipe_published_revision_id r' = Some revision \<and>
    (\<forall>u. valid u \<longrightarrow> extends commits_of s' u \<longrightarrow>
      (\<exists>u'. runtime_pipeline pf (pi_tenant_id input) (pi_pipeline_id input) revision u = (Inr record, u')))"
proof -
  obtain rel :: pipeline_release and pinned :: pipeline_view and s1 compiled s2 out where
    pin: "pipeline_revision pf (pi_tenant_id input) (pi_pipeline_id input) (rl_revision_id rel) s = (Inr pinned, s1)"
    and compile: "compile_composition pf (pi_tenant_id input) (pi_pipeline_id input) (rl_revision_id rel)
       (pipe_definition (pv_record pinned)) True s1 = (Inr compiled, s2)"
    and run: "runtime_pipeline pf (pi_tenant_id input) (pi_pipeline_id input) (rl_revision_id rel) s2 = (Inr out, s')"
    and r': "r' = r\<lparr>pipe_published_revision_id := Some (rl_revision_id rel)\<rparr>"
    using assms(1) unfolding deploy_def by (auto simp: io_simps)
  have "valid s2"
    using keepsD [OF steady_compile_composition conjunct1 [OF keepsD [OF steady_views(2) assms(2) pin]] compile] by simp
  then show ?thesis using runtime_forever [OF run] r' by auto
qed

text \<open>A deployed release can be run in every later world.\<close>

lemma author_deploy_forever:
  assumes "valid s" "wf_json (pi_definition input)" "author_pipeline pf input Deploy s = (Inr view, s')"
  shows "\<exists>revision out. pipe_published_revision_id (pv_record view) = Some revision \<and>
    (\<forall>u. valid u \<longrightarrow> extends commits_of s' u \<longrightarrow>
      (\<exists>u'. runtime_pipeline pf (pi_tenant_id input) (pi_pipeline_id input) revision u = (Inr out, u')))"
proof (rule author_pipeline_committed [OF assms])
  fix sn :: snapshot and s1 r0 r st st0 s2
  assume "apply_command pf input (pl_now pf s1) (sn_revision_id sn)
       ((sn_state sn)\<lparr>ts_pipelines := bt_remove (pi_pipeline_id input) (ts_pipelines (sn_state sn))\<rparr>) r0 Deploy s1 =
         (Inr (r, st), s2)"
    and rec: "pv_record view = stamp input (sn_revision_id sn) (pl_now pf s1) r"
    and s1: "valid s1" and ext: "extends commits_of s2 s'"
  then have "deploy pf input r0 s1 = (Inr r, s2)" by (auto simp: apply_command_def io_simps)
  from deploy_forever [OF this s1] obtain revision out where
    r: "pipe_published_revision_id r = Some revision"
    and run: "\<And>u. valid u \<Longrightarrow> extends commits_of s2 u \<Longrightarrow>
      \<exists>u'. runtime_pipeline pf (pi_tenant_id input) (pi_pipeline_id input) revision u = (Inr out, u')" by blast
  from run extends_trans [OF ext] have "\<forall>u. valid u \<longrightarrow> extends commits_of s' u \<longrightarrow>
      (\<exists>u'. runtime_pipeline pf (pi_tenant_id input) (pi_pipeline_id input) revision u = (Inr out, u'))" by simp
  then show ?thesis using r by (auto simp: rec stamp_def)
qed

end

end
