(* ===== verification/Registry_Machine.thy ===== *)
theory Registry_Machine
  imports Ontology_Workspace Authoring_Workspace
begin

text \<open>
  The Registry as a state machine. A world moves by serving requests, one at a time, whatever each
  of them answers; \<open>runs\<close> is the trace of served requests. Over a store that only changes when
  the service calls it (\<open>quiet_store\<close>), every served request keeps every committed revision sound
  (\<open>tenant_sound\<close>) and keeps the history of every tenant it does not purge.
\<close>

section \<open>Sound tenants\<close>

definition tenant_sound :: "'s platform \<Rightarrow> tenant_state \<Rightarrow> bool" where
  "tenant_sound pf st \<longleftrightarrow> wf_tenant_state st \<and>
     (\<forall>x r. bt_get (ts_ontologies st) x = Some r \<longrightarrow> workspace_ok r) \<and>
     (\<forall>x r. bt_get (ts_pipelines st) x = Some r \<longrightarrow> workspace_sound pf r)"

definition history_sound :: "'s platform \<Rightarrow> commits \<Rightarrow> bool" where
  "history_sound pf cs \<longleftrightarrow> (\<forall>t r. tenant_sound pf (state_at cs t r))"

lemma tenant_soundD:
  assumes "tenant_sound pf st"
  shows "wf_tenant_state st" "bt_get (ts_ontologies st) x = Some r \<Longrightarrow> workspace_ok r"
    "bt_get (ts_pipelines st) x = Some p \<Longrightarrow> workspace_sound pf p"
    "bt_get (ts_pipelines st) x = Some p \<Longrightarrow> wf_pipeline_record p"
  using assms wf_records(1) by (auto simp: tenant_sound_def)

lemma tenant_sound_default [simp]: "tenant_sound pf default_tenant_state"
  by (simp add: tenant_sound_def default_tenant_state_def wf_tenant_state_def)

lemma tenant_sound_with:
  assumes "tenant_sound pf st"
  shows "wf_pipeline_record p \<Longrightarrow> workspace_sound pf p \<Longrightarrow> tenant_sound pf (with_pipeline x p st)"
    "workspace_ok r \<Longrightarrow> tenant_sound pf (with_ontology x r st)"
    "wf_ontology_binding_record b \<Longrightarrow> tenant_sound pf (with_binding x b st)"
  using assms wf_with [of st] workspace_wf
  by (auto simp: tenant_sound_def with_pipeline_def with_ontology_def with_binding_def)

text \<open>The same closures in the form in which the operations write them.\<close>

lemma tenant_sound_updates:
  assumes "tenant_sound pf st"
  shows "wf_pipeline_record p \<Longrightarrow> workspace_sound pf p \<Longrightarrow>
      tenant_sound pf (st\<lparr>ts_pipelines := bt_insert x p (ts_pipelines st)\<rparr>)"
    "wf_pipeline_record p \<Longrightarrow> workspace_sound pf p \<Longrightarrow>
      tenant_sound pf (st\<lparr>ts_pipelines := bt_insert x p (bt_remove x (ts_pipelines st))\<rparr>)"
    "workspace_ok r \<Longrightarrow> tenant_sound pf (st\<lparr>ts_ontologies := bt_insert x r (ts_ontologies st)\<rparr>)"
    "workspace_ok r \<Longrightarrow> tenant_sound pf (st\<lparr>ts_ontologies := bt_insert x r (bt_remove x (ts_ontologies st))\<rparr>)"
    "wf_ontology_binding_record b \<Longrightarrow> tenant_sound pf (st\<lparr>ts_bindings := bt_insert x b (ts_bindings st)\<rparr>)"
  using tenant_sound_with [OF assms] replace_record [OF tenant_soundD(1) [OF assms]]
  by (simp_all flip: with_pipeline_def with_ontology_def with_binding_def)

lemma fresh_pipeline_sound:
  "pipe_authoring p = default_authoring \<Longrightarrow> workspace_sound pf p"
  by (simp add: workspace_defs default_authoring_def btree_def)

lemma tenant_sound_same_pipeline:
  assumes "tenant_sound pf st" "bt_get (ts_pipelines st) x = Some p" "pipe_authoring p' = pipe_authoring p"
    and "pipe_definition p' = pipe_definition p" "pipe_created_at_ms p' = pipe_created_at_ms p"
    and "i64 (pipe_updated_at_ms p') \<or> pipe_updated_at_ms p' = pipe_updated_at_ms p"
    and "pred_option i64 (pipe_deleted_at_ms p') \<or> pipe_deleted_at_ms p' = pipe_deleted_at_ms p"
  shows "tenant_sound pf (st\<lparr>ts_pipelines := bt_insert x p' (ts_pipelines st)\<rparr>)"
  using tenant_soundD(3,4) [OF assms(1,2)] assms(3-7)
  by (intro tenant_sound_updates(1) [OF assms(1)]) (auto simp: wf_pipeline_record_def workspace_defs)

lemma tenant_sound_same_ontology:
  assumes "tenant_sound pf st" "bt_get (ts_ontologies st) x = Some r" "or_ontology r' = or_ontology r"
    and "oa_branches (or_authoring r') = oa_branches (or_authoring r)" "stamps_ok r \<Longrightarrow> stamps_ok r'"
  shows "tenant_sound pf (st\<lparr>ts_ontologies := bt_insert x r' (ts_ontologies st)\<rparr>)"
  using tenant_soundD(2) [OF assms(1,2)] assms(3-5)
  by (intro tenant_sound_updates(3) [OF assms(1)] workspace_ok_cong [of r' r]) (auto simp: workspace_ok_def)

section \<open>Requests\<close>

datatype request =
    PutTenant string
  | DeleteTenant string string
  | PutPipeline put_pipeline_input
  | PublishPipeline string string string
  | DeletePipeline string string string
  | PutOntology put_ontology_input
  | PublishOntology string string string string string json bool
  | RetireOntology string string string string
  | PutBinding string string ontology_binding_record
  | MergeOntology string string string string string string string string
  | AuthorPipeline put_pipeline_input authoring_command
  | AuthorOntology put_ontology_input ontology_command

text \<open>The answer is dropped: the machine observes the world.\<close>

definition answered :: "('s, 'a) io \<Rightarrow> ('s, unit) io" where
  "answered m = io_then m (\<lambda>_. lift_io (Inr ()))"

fun serve :: "'s platform \<Rightarrow> request \<Rightarrow> ('s, unit) io" where
  "serve pf (PutTenant t) = answered (put_tenant pf t)"
| "serve pf (DeleteTenant t confirmation) = answered (delete_tenant pf t confirmation)"
| "serve pf (PutPipeline input) = answered (put_pipeline pf input)"
| "serve pf (PublishPipeline t x r) = answered (publish_pipeline pf t x r)"
| "serve pf (DeletePipeline t x e) = answered (delete_pipeline pf t x e)"
| "serve pf (PutOntology input) = answered (put_ontology pf input)"
| "serve pf (PublishOntology t x name p r metadata create_only) =
     answered (publish_ontology pf t x name p r metadata create_only)"
| "serve pf (RetireOntology t x p r) = answered (retire_ontology pf t x p r)"
| "serve pf (PutBinding t e b) = answered (put_binding pf t e b)"
| "serve pf (MergeOntology t x base left right e author message) =
     answered (merge_ontology_revisions pf t x base left right e author message)"
| "serve pf (AuthorPipeline input command) = answered (author_pipeline pf input command)"
| "serve pf (AuthorOntology input command) = answered (author_ontology pf input command)"

text \<open>What decoding a request guarantees: JSON documents without repeated keys, 64-bit timestamps.\<close>

fun admissible :: "request \<Rightarrow> bool" where
  "admissible (PutPipeline input) = wf_json (pi_definition input)"
| "admissible (PutOntology input) = wf_json (oi_ontology input)"
| "admissible (PublishOntology t x name p r metadata create_only) = wf_json metadata"
| "admissible (PutBinding t e b) = wf_ontology_binding_record b"
| "admissible (AuthorPipeline input command) = wf_json (pi_definition input)"
| "admissible (AuthorOntology input command) = wf_json (oi_ontology input)"
| "admissible q = True"

fun purges :: "string \<Rightarrow> request \<Rightarrow> bool" where
  "purges t (DeleteTenant t' confirmation) = (t' = t)"
| "purges t q = False"

inductive runs :: "'s platform \<Rightarrow> 's \<Rightarrow> request list \<Rightarrow> 's \<Rightarrow> bool" for pf s where
  start: "runs pf s [] s"
| request: "\<lbrakk>runs pf s qs s1; admissible q; serve pf q s1 = (res, s2)\<rbrakk> \<Longrightarrow> runs pf s (qs @ [q]) s2"

section \<open>Quiet stores\<close>

lemma keeps_thenI:
  assumes "\<And>s t u. R s t \<Longrightarrow> R t u \<Longrightarrow> R s u" "keeps V R m"
    and "\<And>s x s1. V s \<Longrightarrow> m s = (Inr x, s1) \<Longrightarrow> Q x" "\<And>x. Q x \<Longrightarrow> keeps V R (f x)"
  shows "keeps V R (io_then m f)"
  unfolding keeps_def
proof (intro allI impI)
  fix s res s'
  assume v: "V s" and run: "io_then m f s = (res, s')"
  obtain r s1 where m: "m s = (r, s1)" by (cases "m s")
  note s1 = keepsD [OF assms(2) v m]
  show "V s' \<and> R s s'"
  proof (cases r)
    case (Inr x)
    with m run have "f x s1 = (res, s')" by simp
    moreover have "keeps V R (f x)" using assms(3) [OF v] m Inr by (intro assms(4)) simp
    ultimately show ?thesis using s1 assms(1) keepsD by metis
  qed (use m run s1 in simp)
qed

locale quiet_store = revision_store +
  assumes reads_quiet:
    "valid s \<Longrightarrow> rs_tenant_exists pf t s = (res, s') \<Longrightarrow> commits_of s' = commits_of s"
    "valid s \<Longrightarrow> rs_ensure_tenant pf t s = (res2, s') \<Longrightarrow> commits_of s' = commits_of s"
    "valid s \<Longrightarrow> rs_load pf t pin s = (res3, s') \<Longrightarrow> commits_of s' = commits_of s"
    and commit_quiet:
    "\<lbrakk>valid s; wf_tenant_state st; rs_commit pf t e st a m s = (res5, s')\<rbrakk> \<Longrightarrow>
      commits_of s' = commits_of s \<and> isl res5 \<or>
      (\<exists>r. commits_of s' = (commits_of s)(t := (commits_of s t)(r \<mapsto> (e, st))) \<and> (\<forall>x. res5 = Inr x \<longrightarrow> x = r))"
    and delete_drops:
    "\<lbrakk>valid s; rs_delete_tenant pf t s = (res4, s')\<rbrakk> \<Longrightarrow>
      valid s' \<and> (commits_of s' = commits_of s \<or> commits_of s' = (commits_of s)(t := Map.empty))"

sublocale quiet_store \<subseteq> sound: revision_reader pf "\<lambda>s. valid s \<and> history_sound pf (commits_of s)" commits_of
proof (unfold_locales, goal_cases)
  case (1 t)
  then show ?case using exists_keeps reads_quiet(1) by (fastforce simp: keeps_def)
next
  case (2 t)
  then show ?case using ensure_keeps reads_quiet(2) by (fastforce simp: keeps_def)
next
  case (3 t pin)
  then show ?case using load_keeps reads_quiet(3) by (fastforce simp: keeps_def)
qed

context quiet_store
begin

lemma sound_commit:
  assumes "tenant_sound pf st"
  shows "sound.steady (rs_commit pf t e st a m)"
  unfolding keeps_def
proof (intro allI impI)
  fix s res s'
  assume s: "valid s \<and> history_sound pf (commits_of s)" and run: "rs_commit pf t e st a m s = (res, s')"
  note wf = tenant_soundD(1) [OF assms]
  have "history_sound pf (commits_of s')"
    using commit_quiet [OF conjunct1 [OF s] wf run] s assms unfolding history_sound_def
    by (auto simp: state_at_def)
  with commit_extends [OF conjunct1 [OF s] wf run]
  show "(valid s' \<and> history_sound pf (commits_of s')) \<and> extends commits_of s s'" by blast
qed

lemma sound_loaded:
  assumes "valid s \<and> history_sound pf (commits_of s)" "rs_load pf t pin s = (Inr sn, s')"
  shows "tenant_sound pf (sn_state sn)"
  using load_state [OF conjunct1 [OF assms(1)] assms(2)] assms reads_quiet(3) by (metis history_sound_def)

lemma sound_thenI:
  assumes "sound.steady m" "\<And>s x s1. valid s \<and> history_sound pf (commits_of s) \<Longrightarrow> m s = (Inr x, s1) \<Longrightarrow> Q x"
    and "\<And>x. Q x \<Longrightarrow> sound.steady (f x)"
  shows "sound.steady (io_then m f)"
  by (rule keeps_thenI [OF _ assms]) (rule extends_trans)

lemma sound_intros:
  "(\<And>sn. tenant_sound pf (sn_state sn) \<Longrightarrow> sound.steady (f1 sn)) \<Longrightarrow> sound.steady (io_then (rs_load pf t pin) f1)"
  "(\<And>tn. sound.steady (f2 tn)) \<Longrightarrow> sound.steady (io_then (rs_ensure_tenant pf t) f2)"
  "(\<And>n. i64 n \<Longrightarrow> sound.steady (f3 n)) \<Longrightarrow> sound.steady (io_then (now pf) f3)"
  "(\<And>x. r = Inr x \<Longrightarrow> sound.steady (f4 x)) \<Longrightarrow> sound.steady (io_then (lift_io r) f4)"
  "(\<And>x. sound.steady (f5 x)) \<Longrightarrow> sound.steady (io_then (compile_composition pf t p v doc q) f5)"
  "(\<And>x. validate_ontology (or_ontology (ov_record x)) = Inr () \<Longrightarrow> wf_json (or_ontology (ov_record x)) \<Longrightarrow>
     sound.steady (f6 x)) \<Longrightarrow> sound.steady (io_then (ontology_at pf t y v) f6)"
  "(\<And>x. sound.steady (f7 x)) \<Longrightarrow> sound.steady (io_then (validate_published_binding pf t st b) f7)"
  "tenant_sound pf st \<Longrightarrow> (\<And>x. sound.steady (f8 x)) \<Longrightarrow> sound.steady (io_then (rs_commit pf t e st a m) f8)"
  "(c \<Longrightarrow> sound.steady k) \<Longrightarrow> sound.steady (io_ensure c msg k)"
proof -
  show "sound.steady (io_then (rs_load pf t pin) f1)" if "\<And>sn. tenant_sound pf (sn_state sn) \<Longrightarrow> sound.steady (f1 sn)"
    by (rule sound_thenI [OF sound.load_keeps sound_loaded that])
  show "sound.steady (io_then (rs_ensure_tenant pf t) f2)" if "\<And>tn. sound.steady (f2 tn)"
    by (rule sound.keeps_io(3) [OF sound.ensure_keeps that])
  show "sound.steady (io_then (now pf) f3)" if "\<And>n. i64 n \<Longrightarrow> sound.steady (f3 n)"
    by (rule sound_thenI [OF sound.keeps_now _ that]) (auto simp: now_Inr clock)
  show "sound.steady (io_then (lift_io r) f4)" if "\<And>x. r = Inr x \<Longrightarrow> sound.steady (f4 x)"
    using that by (cases r) auto
  show "sound.steady (io_then (compile_composition pf t p v doc q) f5)" if "\<And>x. sound.steady (f5 x)"
    by (rule sound.keeps_io(3) [OF sound.steady_reads(1) that])
  show "sound.steady (io_then (ontology_at pf t y v) f6)" if
    "\<And>x. validate_ontology (or_ontology (ov_record x)) = Inr () \<Longrightarrow> wf_json (or_ontology (ov_record x)) \<Longrightarrow> sound.steady (f6 x)"
  proof (rule sound_thenI [OF sound.steady_reads(2), where Q =
        "\<lambda>x. validate_ontology (or_ontology (ov_record x)) = Inr () \<and> wf_json (or_ontology (ov_record x))"])
    fix s x s1
    assume s: "valid s \<and> history_sound pf (commits_of s)" and "ontology_at pf t y v s = (Inr x, s1)"
    then obtain sn where sn: "rs_load pf t (Some v) s = (Inr sn, s1)" "bt_get (ts_ontologies (sn_state sn)) y = Some (ov_record x)"
      unfolding ontology_at_def by (auto simp: io_simps option_context_Inr_iff)
    from tenant_soundD(2) [OF sound_loaded [OF s sn(1)] sn(2)]
    show "validate_ontology (or_ontology (ov_record x)) = Inr () \<and> wf_json (or_ontology (ov_record x))"
      by (simp add: workspace_ok_def valid_model_def)
  qed (use that in auto)
  show "sound.steady (io_then (validate_published_binding pf t st b) f7)" if "\<And>x. sound.steady (f7 x)"
    by (rule sound.keeps_io(3) [OF sound.steady_views(3) that])
  show "sound.steady (io_then (rs_commit pf t e st a m) f8)" if "tenant_sound pf st" "\<And>x. sound.steady (f8 x)"
    by (rule sound.keeps_io(3) [OF sound_commit that(2)]) (rule that)
  show "sound.steady (io_ensure c msg k)" if "c \<Longrightarrow> sound.steady k"
    using that by (cases c) auto
qed

text \<open>Each operation, whatever it answers.\<close>

lemma put_pipeline_sound: "wf_json (pi_definition input) \<Longrightarrow> sound.steady (put_pipeline pf input)"
  unfolding put_pipeline_def Let_def
  by (intro sound_intros sound.keeps_io(1))
    (auto intro!: tenant_sound_updates fresh_pipeline_sound
      simp: new_pipeline_record_def wf_pipeline_record_def dest: tenant_soundD(4) split: option.split)

lemma publish_pipeline_sound: "sound.steady (publish_pipeline pf t x r)"
  unfolding publish_pipeline_def Let_def
  by (intro sound_intros sound.keeps_io(1))
    (auto intro: tenant_sound_same_pipeline simp: option_context_Inr_iff)

lemma delete_pipeline_sound: "sound.steady (delete_pipeline pf t x e)"
  unfolding delete_pipeline_def Let_def
  by (intro sound_intros sound_commit)
    (auto intro: tenant_sound_same_pipeline simp: option_context_Inr_iff)

lemma put_binding_sound: "wf_ontology_binding_record b \<Longrightarrow> sound.steady (put_binding pf t e b)"
  unfolding put_binding_def Let_def
  by (intro sound_intros sound.keeps_io(1)) (auto intro: tenant_sound_updates(5))

lemma retire_ontology_sound: "sound.steady (retire_ontology pf t x p r)"
  unfolding retire_ontology_def Let_def
  by (intro sound_intros sound_commit)
    (auto intro!: tenant_sound_same_ontology
      simp: option_context_Inr_iff stamps_ok_def touch_def wf_ontology_publication_record_def)

lemma publish_ontology_sound: "wf_json metadata \<Longrightarrow> sound.steady (publish_ontology pf t x name p r metadata c)"
  unfolding publish_ontology_def Let_def
  by (intro sound_intros sound.keeps_io(1))
    (auto intro!: tenant_sound_same_ontology
      simp: option_context_Inr_iff stamps_ok_def touch_def wf_ontology_publication_record_def)

lemma kept_ontology_ok:
  assumes "kept_ontology pf input existing s = (Inr kept, s')" "\<And>r. existing = Some r \<Longrightarrow> workspace_ok r"
    and "i64 n" "valid_model (oi_ontology input')"
  shows "workspace_ok (new_ontology_record input' head kept n)"
  using assms clock
  by (auto simp: kept_ontology_def new_ontology_record_def workspace_ok_def stamps_ok_def touch_def io_simps
      ensure_Inr_iff default_ontology_authoring_def btree_def split: option.splits)

lemma put_ontology_sound:
  assumes "wf_json (oi_ontology input)"
  shows "sound.steady (put_ontology pf input)"
proof -
  have kept: "sound.steady (io_then (kept_ontology pf input existing) f)"
    if ok: "\<And>r. existing = Some r \<Longrightarrow> workspace_ok r"
      and f: "\<And>kept. (\<And>head n. i64 n \<Longrightarrow> validate_ontology (oi_ontology input) = Inr () \<Longrightarrow>
        workspace_ok (new_ontology_record input head kept n)) \<Longrightarrow> sound.steady (f kept)"
    for existing and f :: "_ \<Rightarrow> ('a, ontology_view) io"
  proof (rule sound_thenI [where Q = "\<lambda>kept. \<forall>head n. i64 n \<longrightarrow> validate_ontology (oi_ontology input) = Inr () \<longrightarrow>
        workspace_ok (new_ontology_record input head kept n)"])
    show "sound.steady (kept_ontology pf input existing)"
      unfolding kept_ontology_def by (auto intro!: sound.keeps_io split: option.split)
  qed (use kept_ontology_ok ok f assms in \<open>auto simp: valid_model_def\<close>)
  show ?thesis
    unfolding put_ontology_def Let_def
    by (intro sound_intros sound.keeps_io(1) kept)
      (auto intro!: tenant_sound_updates dest: tenant_soundD(2))
qed

lemma merge_ontology_revisions_sound: "sound.steady (merge_ontology_revisions pf t x b l r e a m)"
proof -
  have put: "sound.steady (case mr_ontology outcome of None \<Rightarrow> lift_io (Inr (outcome, None))
      | Some ontology \<Rightarrow> io_then (put_ontology pf (input ontology)) (\<lambda>view. lift_io (Inr (outcome, Some view))))"
    if "\<And>out. mr_ontology outcome = Some out \<Longrightarrow> wf_json (oi_ontology (input out))" for outcome input
    using that by (auto intro!: sound.keeps_io put_ontology_sound split: option.split)
  show ?thesis unfolding merge_ontology_revisions_def
    by (intro sound_intros put) (auto dest: wf_merged_ontology(1))
qed

lemma author_ontology_sound:
  assumes "wf_json (oi_ontology input)"
  shows "sound.steady (author_ontology pf input command)"
proof -
  have done': "workspace_ok (authored_ontology input command (fst p) head n (snd p))"
    if "tenant_sound pf st0" "bt_get (ts_ontologies st0) x = Some r"
      "apply_ontology_command input e st n0 r command = Inr p" "i64 n0" "i64 n"
    for r p head n n0 e st st0 x
  proof (cases p)
    case (Pair affected r')
    have "workspace_ok r'"
      by (rule apply_ontology_command_ok [OF tenant_soundD(2) [OF that(1,2)] assms that(3) [unfolded Pair] that(4)])
    then show ?thesis unfolding Pair
      by (rule workspace_ok_cong [rotated -1])
        (use that(5) \<open>workspace_ok r'\<close> in \<open>auto simp: authored_ontology_def touch_def stamps_ok_def workspace_ok_def\<close>)
  qed
  show ?thesis unfolding author_ontology_def Let_def split_def
    by (intro sound_intros sound.keeps_io(1), simp add: option_context_Inr_iff)
      (rule tenant_sound_updates(4), assumption, rule done', assumption+)
qed

lemma tenant_sound_binds:
  assumes "tenant_sound pf st" "binds_only y st st'"
  shows "tenant_sound pf st'"
  using assms tenant_sound_with(3) by (auto simp: binds_only_def)

lemma author_pipeline_sound:
  assumes "wf_json (pi_definition input)"
  shows "sound.steady (author_pipeline pf input command)"
proof -
  let ?x = "pi_pipeline_id input"
  let ?start = "\<lambda>st n. map_authoring (\<lambda>a. a\<lparr>as_enabled := True\<rparr>)
    (case bt_get (ts_pipelines st) ?x of None \<Rightarrow> blank_pipeline input n | Some r \<Rightarrow> r)"
  let ?done = "\<lambda>head n p. (snd p)\<lparr>ts_pipelines := bt_insert ?x (stamp input head n (fst p)) (ts_pipelines (snd p))\<rparr>"
  have step: "sound.steady (io_then (apply_command pf input n head
      (st\<lparr>ts_pipelines := bt_remove ?x (ts_pipelines st)\<rparr>) (?start st n) command) f)"
    if st: "tenant_sound pf st" and n: "i64 n"
      and f: "\<And>p. tenant_sound pf (?done head n p) \<Longrightarrow> sound.steady (f p)"
    for st n head and f :: "_ \<Rightarrow> ('a, pipeline_view) io"
  proof (rule sound_thenI [OF sound.steady_apply_command _ f])
    fix s p s1
    assume "apply_command pf input n head (st\<lparr>ts_pipelines := bt_remove ?x (ts_pipelines st)\<rparr>) (?start st n) command s = (Inr p, s1)"
    then have run: "apply_command pf input n head (st\<lparr>ts_pipelines := bt_remove ?x (ts_pipelines st)\<rparr>) (?start st n) command s =
        (Inr (fst p, snd p), s1)" by simp
    have start: "wf_pipeline_record (?start st n)" "workspace_sound pf (?start st n)"
      using tenant_soundD(3,4) [OF st] n
      by (auto simp: wf_pipeline_record_def blank_pipeline_def wf_authoring_state_def default_authoring_def
          workspace_defs btree_def split: option.split)
    note wf = apply_command_wf [OF run start(1) assms n]
    from binds_only_transfer [OF conjunct2 [OF wf] tenant_soundD(1) [OF st]] obtain st0 where
      st0: "binds_only (pipe_pipeline_id (?start st n)) st st0"
        "?done head n p = with_pipeline ?x (stamp input head n (fst p)) st0" by blast
    have "workspace_sound pf (stamp input head n (fst p))" "wf_pipeline_record (stamp input head n (fst p))"
      using apply_command_sound [OF run start(2)] conjunct1 [OF wf] n
      by (simp_all add: stamp_def workspace_defs wf_pipeline_record_def)
    then show "tenant_sound pf (?done head n p)"
      unfolding st0(2) using tenant_sound_with(1) [OF tenant_sound_binds [OF st st0(1)]] by blast
  qed
  have prepare: "sound.steady (io_then (if c then io_ensure b msg (io_then (rs_ensure_tenant pf t) (\<lambda>_. lift_io (Inr ())))
      else lift_io (Inr ())) f)" if "\<And>u. sound.steady (f u)" for c b msg t and f :: "unit \<Rightarrow> ('a, pipeline_view) io"
    using that by (auto intro!: sound.keeps_io)
  show ?thesis unfolding author_pipeline_def Let_def split_def
    by (intro sound_intros prepare step sound.keeps_io(1))
qed

lemma put_tenant_sound: "sound.steady (put_tenant pf t)"
  unfolding put_tenant_def by (intro sound_intros sound.keeps_io(1))

lemmas served_sound = put_tenant_sound put_pipeline_sound publish_pipeline_sound delete_pipeline_sound
  put_ontology_sound publish_ontology_sound retire_ontology_sound put_binding_sound
  merge_ontology_revisions_sound author_pipeline_sound author_ontology_sound

lemma answered_sound: "sound.steady m \<Longrightarrow> sound.steady (answered m)"
  unfolding answered_def by (auto intro: sound.keeps_io)

lemma delete_tenant_sound:
  assumes "delete_tenant pf t c s = (res, s')" "valid s" "history_sound pf (commits_of s)"
  shows "valid s'" "history_sound pf (commits_of s')" "u \<noteq> t \<Longrightarrow> commits_of s' u = commits_of s u"
proof -
  consider "s' = s" | res' where "rs_delete_tenant pf t s = (res', s')"
    using assms(1) by (auto simp: delete_tenant_def io_ensure_def split: if_splits)
  then have "valid s' \<and> (commits_of s' = commits_of s \<or> commits_of s' = (commits_of s)(t := Map.empty))"
    using assms(2) delete_drops by cases auto
  then show "valid s'" "history_sound pf (commits_of s')" "u \<noteq> t \<Longrightarrow> commits_of s' u = commits_of s u"
    using assms(3) by (auto simp: history_sound_def state_at_def)
qed

lemma serve_sound:
  assumes "serve pf q s = (res, s')" "admissible q" "valid s" "history_sound pf (commits_of s)"
  shows "valid s'" "history_sound pf (commits_of s')" "\<not> purges t q \<Longrightarrow> commits_of s t \<subseteq>\<^sub>m commits_of s' t"
proof -
  have "valid s' \<and> history_sound pf (commits_of s') \<and> (\<not> purges t q \<longrightarrow> commits_of s t \<subseteq>\<^sub>m commits_of s' t)"
  proof (cases "\<exists>u c. q = DeleteTenant u c")
    case True
    then obtain u c r where q: "q = DeleteTenant u c" and run: "delete_tenant pf u c s = (r, s')"
      using assms(1) by (auto simp: answered_def io_then_def lift_io_def split: prod.splits sum.splits)
    from delete_tenant_sound [OF run assms(3,4)] show ?thesis by (auto simp: q)
  next
    case False
    then have "sound.steady (serve pf q)"
      using assms(2) by (cases q) (auto intro!: answered_sound served_sound)
    from keepsD [OF this _ assms(1)] assms(3,4) show ?thesis by (auto simp: extends_def)
  qed
  then show "valid s'" "history_sound pf (commits_of s')" "\<not> purges t q \<Longrightarrow> commits_of s t \<subseteq>\<^sub>m commits_of s' t"
    by blast+
qed

lemma runs_sound:
  assumes "runs pf s qs s'" "valid s" "history_sound pf (commits_of s)"
  shows "valid s' \<and> history_sound pf (commits_of s') \<and>
    (\<forall>t. (\<forall>q \<in> set qs. \<not> purges t q) \<longrightarrow> commits_of s t \<subseteq>\<^sub>m commits_of s' t)"
  using assms
proof induction
  case (request qs s1 q res s2)
  then show ?case using serve_sound [OF request(3,2)] by (auto intro: map_le_trans)
qed simp

end

section \<open>The in-memory store is quiet\<close>

interpretation memory: quiet_store "memory_platform clock to_vec sha" memory_valid memory_commits
  for clock to_vec sha
proof (unfold_locales, goal_cases)
  case (1 s t res s')
  then show ?case by (simp add: memory_tenant_exists_def)
next
  case (2 s t res s')
  then show ?case by (auto simp: memory_ensure_tenant_def entry_Inr split: prod.splits)
next
  case (3 s t pin res s')
  then show ?case by (simp add: memory_load_def)
next
  case (4 s st t e a m res s')
  then show ?case
    using memory_commit_Inr [of t e st a m s _ s'] memory_commit_Inl [of t e st a m s _ s'] by (cases res) auto
next
  case (5 s t res s')
  then show ?case
    by (auto simp: memory_delete_tenant_def Let_def memory_valid_def memory_commits_def fun_eq_iff split: option.splits if_splits)
qed

end
