(* ===== verification/Scenario.thy ===== *)
theory Scenario
  imports Registry_Machine
begin

text \<open>
  A concrete session with the Registry on the in-memory store: one tenant writes and publishes a pipeline and an
  ontology. The properties of the root theory are exercised on it.
\<close>

abbreviation example_platform :: "memory_store platform" where
  "example_platform \<equiv> memory_platform (\<lambda>_. 0) (\<lambda>_. []) (\<lambda>s. s)"

definition empty_store :: memory_store where
  "empty_store = \<lparr>ms_tenants = [], ms_fail_next_commit = False\<rparr>"

definition pipeline_input :: put_pipeline_input where
  "pipeline_input = \<lparr>pi_tenant_id = ''acme'', pi_pipeline_id = ''mail'', pi_name = ''Mail'', pi_owner_id = ''ann'',
     pi_definition = example_pipeline, pi_author = ''ann'', pi_message = ''Initial'',
     pi_expected_revision_id = None, pi_create_only = True\<rparr>"

definition ontology_input :: put_ontology_input where
  "ontology_input = \<lparr>oi_tenant_id = ''acme'', oi_ontology_id = ''base'', oi_display_name = ''Base'',
     oi_ontology = base_ontology, oi_author = ''ann'', oi_message = ''Initial'',
     oi_expected_revision_id = None, oi_create_only = True\<rparr>"

definition example_binding :: ontology_binding_record where
  "example_binding = \<lparr>bd_pipeline_id = ''mail'', bd_block_id = ''classify'', bd_ontology_id = ''base'',
     bd_resource_ids = [''t''], bd_resource_kinds = [], bd_include_dependencies = True, bd_metadata = JNull,
     bd_updated_at_ms = 0\<rparr>"

definition after :: "request list \<Rightarrow> memory_store" where
  "after qs = fold (\<lambda>q s. snd (serve example_platform q s)) qs empty_store"

definition with_pipeline_written :: memory_store where
  "with_pipeline_written = after [PutPipeline pipeline_input]"

definition with_ontology_written :: memory_store where
  "with_ontology_written = after [PutOntology ontology_input]"

definition with_ontology_published :: memory_store where
  "with_ontology_published = after [PutOntology ontology_input,
     PublishOntology ''acme'' ''base'' ''Base'' ''p1'' (format20 1) JNull True]"

definition with_both :: memory_store where
  "with_both = after [PutOntology ontology_input,
     PublishOntology ''acme'' ''base'' ''Base'' ''p1'' (format20 1) JNull True, PutPipeline pipeline_input]"

definition draft_input :: "string \<Rightarrow> put_pipeline_input" where
  "draft_input e = pipeline_input\<lparr>pi_expected_revision_id := Some e, pi_create_only := False\<rparr>"

definition with_release :: memory_store where
  "with_release = after [AuthorPipeline pipeline_input (SaveDraft ''main''),
     AuthorPipeline (draft_input (format20 1)) Approve, AuthorPipeline (draft_input (format20 2)) Publish]"

definition branch_input :: put_ontology_input where
  "branch_input = ontology_input\<lparr>oi_expected_revision_id := Some (format20 1), oi_create_only := False\<rparr>"

lemma memory_valid_empty: "memory_valid empty_store"
  by (simp add: memory_valid_def empty_store_def)

lemma memory_commits_empty: "memory_commits empty_store t = Map.empty"
  by (simp add: memory_commits_def empty_store_def)

lemma history_sound_empty: "(\<And>t. cs t = Map.empty) \<Longrightarrow> history_sound pf cs"
  by (simp add: history_sound_def state_at_def)

lemma runs_after: "\<forall>q \<in> set qs. admissible q \<Longrightarrow> runs example_platform empty_store qs (after qs)"
proof (induction qs rule: rev_induct)
  case (snoc q qs)
  then have "runs example_platform empty_store qs (after qs)" "admissible q" by simp_all
  then have "runs example_platform empty_store (qs @ [q]) (snd (serve example_platform q (after qs)))"
    by (rule runs.request) (rule prod.collapse [symmetric])
  then show ?case by (simp add: after_def)
qed (simp add: after_def runs.start)

lemma after_valid: "\<forall>q \<in> set qs. admissible q \<Longrightarrow> memory_valid (after qs)"
  using memory.runs_sound [OF runs_after memory_valid_empty history_sound_empty [OF memory_commits_empty]] by blast

lemma after_sound: "\<forall>q \<in> set qs. admissible q \<Longrightarrow> history_sound example_platform (memory_commits (after qs))"
  using memory.runs_sound [OF runs_after memory_valid_empty history_sound_empty [OF memory_commits_empty]] by blast

lemma admissible_examples:
  "admissible (PutPipeline pipeline_input)" "admissible (PutOntology ontology_input)"
  "admissible (PublishOntology ''acme'' ''base'' ''Base'' ''p1'' (format20 1) JNull True)"
  "admissible (AuthorPipeline pipeline_input command)" "admissible (AuthorPipeline (draft_input e) command)"
proof -
  have "wf_json example_pipeline" "wf_json base_ontology" by code_simp+
  then show "admissible (PutPipeline pipeline_input)" "admissible (PutOntology ontology_input)"
    "admissible (PublishOntology ''acme'' ''base'' ''Base'' ''p1'' (format20 1) JNull True)"
    "admissible (AuthorPipeline pipeline_input command)" "admissible (AuthorPipeline (draft_input e) command)"
    by (simp_all add: pipeline_input_def ontology_input_def draft_input_def)
qed

lemmas scenario_defs = with_pipeline_written_def with_ontology_written_def with_ontology_published_def with_both_def
  with_release_def

lemma scenario_valid [simp]:
  "memory_valid with_pipeline_written" "memory_valid with_ontology_written" "memory_valid with_ontology_published"
  "memory_valid with_both" "memory_valid with_release"
  unfolding scenario_defs using admissible_examples by (auto intro!: after_valid simp del: admissible.simps)

lemma scenario_sound [simp]:
  "history_sound example_platform (memory_commits with_pipeline_written)"
  "history_sound example_platform (memory_commits with_ontology_written)"
  "history_sound example_platform (memory_commits with_release)"
  unfolding scenario_defs using admissible_examples by (auto intro!: after_sound simp del: admissible.simps)

text \<open>What a call answers, when evaluation shows that it succeeds.\<close>

text \<open>A workspace whose branch and main model have both moved on since the branch was forked.\<close>

definition merging_record :: ontology_record where
  "merging_record =
     \<lparr>or_authoring = default_ontology_authoring\<lparr>oa_branches := [(''draft'',
        \<lparr>ob_parent_branch = ''main'', ob_definition = right_ontology, ob_display_name = ''Base'',
         ob_base_definition = base_ontology, ob_base_display_name = ''Base'', ob_base_revision_id = PINNED,
         ob_author = ''ann'', ob_updated_at_ms = 0\<rparr>)]\<rparr>,
      or_ontology_id = ''base'', or_display_name = ''Base'', or_ontology = left_ontology, or_author = ''ann'',
      or_message = ''Edit'', or_created_at_ms = 0, or_production_publication = None\<rparr>"

lemma merging_record_ok: "workspace_ok merging_record"
proof -
  have "wf_json base_ontology" "wf_json left_ontology" "wf_json right_ontology" "validate_ontology base_ontology = Inr ()"
    "validate_ontology left_ontology = Inr ()" "validate_ontology right_ontology = Inr ()" by code_simp+
  moreover have "rooted (branches_of merging_record) ''draft''"
    by (rule rooted.child) (auto simp: merging_record_def bt_get_def intro: rooted.main)
  ultimately show ?thesis
    by (auto simp: workspace_ok_def merging_record_def valid_model_def model_branch_ok_def stamps_ok_def i64_def I64_MAX_def
        default_ontology_authoring_def btree_def bt_get_def split: if_splits)
qed

end
