(* ===== verification/Bytes.thy ===== *)
theory Bytes
  imports Prelude
begin

text \<open>
  The functions of Rust's \<open>str\<close> on byte lists: searching, splitting and trimming. A pattern of ASCII characters
  is found in the bytes of a UTF-8 string exactly where it is found in its characters.
\<close>

section \<open>Definitions\<close>

fun ends_with :: "string \<Rightarrow> string \<Rightarrow> bool" where
  "ends_with p s = starts_with (List.rev p) (List.rev s)"

fun contains_str :: "string \<Rightarrow> string \<Rightarrow> bool" where
  "contains_str p [] = (p = [])"
| "contains_str p (c # s) = (starts_with p (c # s) \<or> contains_str p s)"

definition strip_prefix :: "string \<Rightarrow> string \<Rightarrow> string option" where
  "strip_prefix p s = (if starts_with p s then Some (drop (length p) s) else None)"

fun split_once :: "char \<Rightarrow> string \<Rightarrow> (string \<times> string) option" where
  "split_once c [] = None"
| "split_once c (d # s) =
     (if c = d then Some ([], s) else map_option (\<lambda>(a, b). (d # a, b)) (split_once c s))"

fun split_once_str :: "string \<Rightarrow> string \<Rightarrow> (string \<times> string) option" where
  "split_once_str p [] = (if p = [] then Some ([], []) else None)"
| "split_once_str p (c # s) =
     (if starts_with p (c # s) then Some ([], drop (length p) (c # s))
      else map_option (\<lambda>(a, b). (c # a, b)) (split_once_str p s))"

definition rsplit_once :: "char \<Rightarrow> string \<Rightarrow> (string \<times> string) option" where
  "rsplit_once c s = map_option (\<lambda>(a, b). (List.rev b, List.rev a)) (split_once c (List.rev s))"

definition strip_suffix :: "string \<Rightarrow> string \<Rightarrow> string option" where
  "strip_suffix p s = (if ends_with p s then Some (take (length s - length p) s) else None)"

text \<open>\<open>s.split(c)\<close>, all parts.\<close>

fun split_char :: "char \<Rightarrow> string \<Rightarrow> string list" where
  "split_char c [] = [[]]"
| "split_char c (d # s) =
     (if d = c then [] # split_char c s
      else case split_char c s of [] \<Rightarrow> [[d]] | part # parts \<Rightarrow> (d # part) # parts)"

text \<open>
  \<open>std::str::from_utf8\<close>: the well-formed byte sequences of one, two, three and four bytes (no overlong
  forms, no surrogates, nothing above U+10FFFF).
\<close>

definition utf8_tail :: "char \<Rightarrow> bool" where
  "utf8_tail c \<longleftrightarrow> CHR 0x80 \<le> c \<and> c \<le> CHR 0xBF"

definition utf8_two :: "char \<Rightarrow> char \<Rightarrow> bool" where
  "utf8_two a b \<longleftrightarrow> CHR 0xC2 \<le> a \<and> a \<le> CHR 0xDF \<and> utf8_tail b"

definition utf8_three :: "char \<Rightarrow> char \<Rightarrow> char \<Rightarrow> bool" where
  "utf8_three a b c \<longleftrightarrow> utf8_tail c \<and>
     (a = CHR 0xE0 \<and> CHR 0xA0 \<le> b \<and> b \<le> CHR 0xBF \<or>
      CHR 0xE1 \<le> a \<and> a \<le> CHR 0xEF \<and> a \<noteq> CHR 0xED \<and> utf8_tail b \<or>
      a = CHR 0xED \<and> CHR 0x80 \<le> b \<and> b \<le> CHR 0x9F)"

definition utf8_four :: "char \<Rightarrow> char \<Rightarrow> char \<Rightarrow> char \<Rightarrow> bool" where
  "utf8_four a b c d \<longleftrightarrow> utf8_tail c \<and> utf8_tail d \<and>
     (a = CHR 0xF0 \<and> CHR 0x90 \<le> b \<and> b \<le> CHR 0xBF \<or>
      CHR 0xF1 \<le> a \<and> a \<le> CHR 0xF3 \<and> utf8_tail b \<or>
      a = CHR 0xF4 \<and> CHR 0x80 \<le> b \<and> b \<le> CHR 0x8F)"

fun valid_utf8 :: "string \<Rightarrow> bool" where
  "valid_utf8 [] = True"
| "valid_utf8 (a # s) =
     (if a < CHR 0x80 then valid_utf8 s
      else case s of
        [] \<Rightarrow> False
      | b # t \<Rightarrow>
          if utf8_two a b then valid_utf8 t
          else case t of
            [] \<Rightarrow> False
          | c # u \<Rightarrow>
              if utf8_three a b c then valid_utf8 u
              else case u of [] \<Rightarrow> False | d # v \<Rightarrow> utf8_four a b c d \<and> valid_utf8 v)"

text \<open>\<open>usize::saturating_add\<close> on a 64-bit machine.\<close>

definition saturating_add :: "nat \<Rightarrow> nat \<Rightarrow> nat" where
  "saturating_add a b = min (a + b) (2 ^ 64 - 1)"

lemma saturating_add_code [code]:
  "saturating_add a b = (if int a + int b < 18446744073709551616 then a + b else nat 18446744073709551615)"
  by (auto simp: saturating_add_def)

lemma saturating_add_le: "n < 2 ^ 64 - 1 \<Longrightarrow> saturating_add a b \<le> n \<longleftrightarrow> a + b \<le> n"
  by (auto simp: saturating_add_def)

section \<open>Splitting\<close>

lemma split_once_Some: "split_once c s = Some (a, b) \<Longrightarrow> s = a @ c # b \<and> c \<notin> set a"
  by (induction s arbitrary: a) (auto split: if_splits)

lemma contains_str_chars: "contains_str p s \<Longrightarrow> set p \<subseteq> set s"
proof (induction s)
  case (Cons c s)
  then have "starts_with p (c # s) \<Longrightarrow> set p \<subseteq> set (c # s)" unfolding starts_with_iff by (metis set_append sup_ge1)
  with Cons show ?case by auto
qed simp

lemma split_once_str_Some: "split_once_str p s = Some (a, b) \<Longrightarrow> s = a @ p @ b"
  by (induction s arbitrary: a) (auto simp: starts_with_iff split: if_splits)

text \<open>The split is at the first occurrence.\<close>

lemma split_once_str_first: "split_once_str p s = Some (a, b) \<Longrightarrow> s = x @ p @ y \<Longrightarrow> length a \<le> length x"
proof (induction s arbitrary: a x)
  case (Cons c s)
  show ?case
  proof (cases x)
    case Nil
    with Cons.prems have "starts_with p (c # s)" by (simp add: starts_with_iff)
    with Cons.prems(1) show ?thesis by (auto split: if_splits)
  next
    case (Cons d x')
    with Cons.prems Cons.IH show ?thesis by (auto split: if_splits)
  qed
qed simp

lemma split_once_str_None: "split_once_str p s = None \<longleftrightarrow> \<not> contains_str p s"
  by (induction s) (auto split: if_splits)

lemma contains_str_iff: "contains_str p s \<longleftrightarrow> (\<exists>a b. s = a @ p @ b)"
proof
  show "contains_str p s \<Longrightarrow> \<exists>a b. s = a @ p @ b"
    using split_once_str_None split_once_str_Some by (metis option.exhaust surj_pair)
  have "contains_str p (a @ p @ b)" for a b
  proof (induction a)
    case Nil
    have "starts_with p (p @ b)" by simp
    then show ?case by (cases "p @ b") auto
  qed simp
  then show "\<exists>a b. s = a @ p @ b \<Longrightarrow> contains_str p s" by blast
qed

lemma rsplit_once_Some: "rsplit_once c s = Some (a, b) \<Longrightarrow> s = a @ c # b \<and> c \<notin> set b"
  by (auto simp: rsplit_once_def dest!: split_once_Some) (metis append.assoc append_Cons append_Nil rev.simps(2) rev_append rev_rev_ident)

lemma split_char_not_Nil [simp]: "split_char c s \<noteq> []"
  by (cases s) (auto split: list.splits)

lemma join_split_char: "join [c] (split_char c s) = s"
proof (induction s)
  case (Cons d s)
  then show ?case by (cases "split_char c s"; cases "tl (split_char c s)") (auto split: list.splits)
qed simp

lemma split_char_parts: "part \<in> set (split_char c s) \<Longrightarrow> c \<notin> set part \<and> set part \<subseteq> set s"
  by (induction s arbitrary: part) (force split: if_splits list.splits)+

end
