(* ===== verification/Lakefs_Config.thy ===== *)
theory Lakefs_Config
  imports Registry Bytes
begin

text \<open>
  Configuration and naming of the lakeFS store (\<open>platform/registry/src/storage.rs\<close>): what \<open>LakeFsStore::new\<close>
  and \<open>S3TenantDirectory::new\<close> accept, and the repository, namespace and object key derived from a tenant.
  URL parsing (\<open>reqwest::Url::parse\<close>) is a parameter; building the two clients has no state to model.
\<close>

section \<open>Definitions\<close>

record lakefs_config =
  lc_endpoint :: string
  lc_access_key :: string
  lc_secret_key :: string
  lc_repository_prefix :: string
  lc_storage_namespace :: string
  lc_branch :: string

record s3_config =
  sc_endpoint :: string
  sc_region :: string
  sc_access_key :: string
  sc_secret_key :: string

record tenant_directory =
  td_bucket :: string
  td_prefix :: string

record lakefs_store =
  ls_config :: lakefs_config
  ls_directory :: tenant_directory

text \<open>The parts of a parsed URL that the checks read.\<close>

record url =
  u_scheme :: string
  u_host_str :: "string option"
  u_username :: string
  u_password :: "string option"
  u_path :: string
  u_query :: "string option"
  u_fragment :: "string option"

definition valid_segment :: "string \<Rightarrow> bool" where
  "valid_segment s \<longleftrightarrow> s \<noteq> [] \<and> length s \<le> 63 \<and>
     list_all (\<lambda>c. is_ascii_lowercase c \<or> is_ascii_digit c \<or> c = CHR ''-'') s"

definition valid_bucket :: "string \<Rightarrow> bool" where
  "valid_bucket s \<longleftrightarrow> 3 \<le> length s \<and> length s \<le> 63 \<and>
     list_all (\<lambda>c. is_ascii_lowercase c \<or> is_ascii_digit c \<or> c \<in> {CHR ''.'', CHR ''-''}) s \<and>
     \<not> starts_with ''.'' s \<and> \<not> starts_with ''-'' s \<and> \<not> ends_with ''.'' s \<and> \<not> ends_with ''-'' s \<and>
     \<not> contains_str ''..'' s"

definition plain_endpoint :: "url \<Rightarrow> bool" where
  "plain_endpoint u \<longleftrightarrow> u_scheme u \<in> {''http'', ''https''} \<and> u_host_str u \<noteq> None \<and> u_username u = [] \<and>
     u_password u = None \<and> u_path u \<in> {[], ''/''} \<and> u_query u = None \<and> u_fragment u = None"

definition valid_namespace_prefix :: "string \<Rightarrow> bool" where
  "valid_namespace_prefix p \<longleftrightarrow> p = [] \<or>
     (ends_with ''/'' p \<and> \<not> starts_with ''/'' p \<and> \<not> contains_str ''..'' p \<and> \<not> contains_str ''//'' p \<and>
      list_all (\<lambda>c. is_ascii_alphanumeric c \<or> c \<in> {CHR ''/'', CHR ''_'', CHR ''-'', CHR ''.''}) p)"

definition new_directory :: "(string \<Rightarrow> url result) \<Rightarrow> s3_config \<Rightarrow> string \<Rightarrow> tenant_directory result" where
  "new_directory parse_url cfg storage_namespace =
     and_then (parse_url (sc_endpoint cfg)) (\<lambda>endpoint.
     ensure (plain_endpoint endpoint) ''invalid S3 endpoint'' (
     ensure (sc_region cfg \<noteq> [] \<and> length (sc_region cfg) \<le> 64 \<and> list_all is_name_byte (sc_region cfg))
       ''invalid S3 region'' (
     ensure (sc_access_key cfg \<noteq> [] \<and> length (sc_access_key cfg) \<le> 256) ''invalid S3 access key'' (
     ensure (sc_secret_key cfg \<noteq> []) ''invalid S3 secret key'' (
     and_then (option_context ''invalid S3 storage namespace'' (strip_prefix ''s3://'' storage_namespace)) (\<lambda>namespace.
     and_then (option_context ''S3 storage namespace requires a prefix'' (split_once CHR ''/'' namespace)) (\<lambda>(bucket, prefix).
     ensure (valid_bucket bucket) ''invalid S3 bucket'' (
     ensure (valid_namespace_prefix prefix) ''invalid S3 namespace prefix'' (
     Inr \<lparr>td_bucket = bucket, td_prefix = prefix\<rparr>)))))))))"

definition new_store :: "(string \<Rightarrow> url result) \<Rightarrow> lakefs_config \<Rightarrow> s3_config \<Rightarrow> lakefs_store result" where
  "new_store parse_url cfg s3 =
     and_then (parse_url (lc_endpoint cfg)) (\<lambda>endpoint.
     ensure (plain_endpoint endpoint) ''invalid lakeFS endpoint'' (
     ensure (valid_segment (lc_repository_prefix cfg)) ''invalid repository prefix'' (
     ensure (valid_segment (lc_branch cfg)) ''invalid lakeFS branch'' (
     ensure (lc_access_key cfg \<noteq> [] \<and> length (lc_access_key cfg) \<le> 256) ''invalid lakeFS access key'' (
     ensure (lc_secret_key cfg \<noteq> []) ''invalid lakeFS secret key'' (
     ensure (starts_with ''s3://'' (lc_storage_namespace cfg) \<and> ends_with ''/'' (lc_storage_namespace cfg))
       ''lakeFS storage namespace must be an S3 prefix ending in slash'' (
     and_then (new_directory parse_url s3 (lc_storage_namespace cfg)) (\<lambda>directory.
     Inr \<lparr>ls_config = cfg, ls_directory = directory\<rparr>))))))))"

text \<open>Names derived from a tenant. The digest in hexadecimal is a parameter.\<close>

definition repository_for_tenant :: "(string \<Rightarrow> string) \<Rightarrow> lakefs_store \<Rightarrow> string \<Rightarrow> string result" where
  "repository_for_tenant sha256_hex st tenant_id =
     ensure (valid_tenant tenant_id) ''invalid tenant ID'' (
     Inr (take 63 (lc_repository_prefix (ls_config st) @ ''-'' @ sha256_hex tenant_id)))"

definition namespace_for_tenant :: "lakefs_store \<Rightarrow> string \<Rightarrow> string result" where
  "namespace_for_tenant st tenant_id =
     ensure (valid_tenant tenant_id) ''invalid tenant ID'' (
     Inr (lc_storage_namespace (ls_config st) @ tenant_id @ ''/_lakefs/''))"

definition marker_key :: "string \<Rightarrow> string result" where
  "marker_key tenant_id =
     ensure (valid_tenant tenant_id) ''invalid tenant ID'' (
     Inr (tenant_id @ ''/_registry/tenant.json''))"

definition directory_key :: "tenant_directory \<Rightarrow> string \<Rightarrow> string result" where
  "directory_key dir relative =
     ensure (relative \<noteq> [] \<and> \<not> starts_with ''/'' relative \<and> \<not> contains_str ''..'' relative)
       ''invalid Registry S3 key'' (
     Inr (td_prefix dir @ relative))"

section \<open>Where the names lie\<close>

text \<open>A store that was accepted puts its directory where its namespace is.\<close>

definition coherent_store :: "lakefs_store \<Rightarrow> bool" where
  "coherent_store st \<longleftrightarrow> lc_storage_namespace (ls_config st) =
     ''s3://'' @ td_bucket (ls_directory st) @ ''/'' @ td_prefix (ls_directory st) \<and>
     valid_segment (lc_repository_prefix (ls_config st)) \<and> valid_segment (lc_branch (ls_config st)) \<and>
     valid_bucket (td_bucket (ls_directory st)) \<and> valid_namespace_prefix (td_prefix (ls_directory st))"

lemma new_store_coherent: "new_store parse_url cfg s3 = Inr st \<Longrightarrow> coherent_store st \<and> ls_config st = cfg"
  unfolding new_store_def new_directory_def coherent_store_def
  by (auto simp: and_then_Inr_iff ensure_Inr_iff option_context_Inr_iff strip_prefix_def starts_with_iff
      dest!: split_once_Some split: if_splits)

lemma tenant_no_slash: "valid_tenant t \<Longrightarrow> CHR ''/'' \<notin> set t \<and> CHR ''.'' \<notin> set t"
proof -
  have "\<not> is_name_byte CHR ''/''" "\<not> is_name_byte CHR ''.''" by code_simp+
  then show "valid_tenant t \<Longrightarrow> CHR ''/'' \<notin> set t \<and> CHR ''.'' \<notin> set t" by (auto simp: valid_tenant_def list_all_iff)
qed

lemma no_slash_split:
  assumes "CHR ''/'' \<notin> set a" "CHR ''/'' \<notin> set b" "a @ CHR ''/'' # x = b @ CHR ''/'' # y"
  shows "a = b \<and> x = y"
  using assms
proof (induction a arbitrary: b)
  case Nil
  then show ?case by (cases b) auto
next
  case (Cons c a)
  then show ?case by (cases b) auto
qed

end
