(* ===== verification/Lakefs_Store.thy ===== *)
theory Lakefs_Store
  imports Lakefs_Config "HOL-Library.Word"
begin

text \<open>
  The lakeFS implementation of the storage trait (\<open>impl RevisionStore for LakeFsStore\<close> in
  \<open>platform/registry/src/storage.rs\<close>). The lakeFS HTTP API, the S3 client, the JSON reader and printer, the
  digest, the hasher of the lock table and the liveness of cache entries are the parameters \<open>services\<close>;
  requests are values of \<open>lakefs_request\<close>, one constructor per endpoint and method that the store calls, and a
  response is its status, its announced length and the chunks of its body. The store's own state is the
  tenant cache. A world of the store pairs the cache with the world of the services.
\<close>

section \<open>What the store calls\<close>

text \<open>
  \<open>GetBranch\<close>: \<open>GET repositories/{r}/branches/{b}\<close>; \<open>CreateRepository\<close>: \<open>POST repositories\<close>; \<open>DeleteRepository\<close>:
  \<open>DELETE repositories/{r}\<close>; \<open>GetObject\<close>: \<open>GET repositories/{r}/refs/{ref}/objects?path=\<close>; \<open>PutObject\<close>:
  \<open>POST repositories/{r}/branches/{b}/objects?path=\<close>; \<open>CreateCommit\<close>: \<open>POST repositories/{r}/branches/{b}/commits\<close>.
\<close>

datatype lakefs_request =
    GetBranch string string
  | CreateRepository string string string bool
  | DeleteRepository string
  | GetObject string string string
  | PutObject string string string string
  | CreateCommit string string string string string

record http_response =
  hr_status :: nat
  hr_content_length :: "nat option"
  hr_chunks :: "string result list"

record s3_object =
  so_content_length :: "int option"
  so_body :: "string result"

record 'w services =
  sv_send :: "lakefs_request \<Rightarrow> ('w, http_response) io"
  sv_s3_get :: "string \<Rightarrow> string \<Rightarrow> ('w, s3_object option) io"
  sv_s3_put :: "string \<Rightarrow> string \<Rightarrow> string \<Rightarrow> ('w, unit) io"
  sv_s3_list :: "string \<Rightarrow> string \<Rightarrow> ('w, string option list) io"
  sv_s3_delete :: "string \<Rightarrow> string list \<Rightarrow> ('w, string list) io"
  sv_cache_live :: "'w \<Rightarrow> string \<Rightarrow> bool"
  sv_hash_one :: "string \<Rightarrow> 64 word"
  sv_from_slice :: "string \<Rightarrow> json result"
  sv_to_vec :: "json \<Rightarrow> string"
  sv_sha256_hex :: "string \<Rightarrow> string"
  sv_now :: "'w \<Rightarrow> int"

definition is_success :: "http_response \<Rightarrow> bool" where
  "is_success response \<longleftrightarrow> 200 \<le> hr_status response \<and> hr_status response < 300"

definition NOT_FOUND :: nat where "NOT_FOUND = 404"

definition CONFLICT :: nat where "CONFLICT = 409"

definition PRECONDITION_FAILED :: nat where "PRECONDITION_FAILED = 412"

definition response_bytes :: "http_response \<Rightarrow> string result" where
  "response_bytes response = and_then (try_map (\<lambda>chunk. chunk) (hr_chunks response)) (\<lambda>chunks. Inr (concat chunks))"

section \<open>Documents\<close>

definition ONTOLOGY_STATE_PATH :: string where "ONTOLOGY_STATE_PATH = ''ontology/state.json''"

definition PIPELINE_STATE_PATH :: string where "PIPELINE_STATE_PATH = ''pipeline/state.json''"

definition TENANT_MARKER_VERSION :: nat where "TENANT_MARKER_VERSION = 1"

definition MAX_STATE_BYTES :: nat where "MAX_STATE_BYTES = 32 * 1024 * 1024"

lemma state_bytes_binary [code_unfold]: "n \<le> MAX_STATE_BYTES \<longleftrightarrow> int n \<le> 33554432"
  by (simp add: MAX_STATE_BYTES_def)

lemma usize_binary [code_unfold]: "(n :: nat) < 2 ^ 64 \<longleftrightarrow> int n < 18446744073709551616"
  by simp

definition TENANT_LOCK_STRIPES :: nat where "TENANT_LOCK_STRIPES = 64"

record tenant_marker =
  tm_version :: nat
  tm_tenant_id :: string
  tm_repository :: string

definition encode_tenant_marker :: "tenant_marker \<Rightarrow> json" where
  "encode_tenant_marker m = JObject
     [(''version'', JNumber (PosInt (tm_version m))),
      (''tenant_id'', JString (tm_tenant_id m)),
      (''repository'', JString (tm_repository m))]"

definition decode_u8 :: "json \<Rightarrow> nat result" where
  "decode_u8 v = (case v of JNumber (PosInt n) \<Rightarrow> if n < 256 then Inr n else Inl Deserialization | _ \<Rightarrow> Inl Deserialization)"

definition decode_tenant_marker :: "json \<Rightarrow> tenant_marker result" where
  "decode_tenant_marker v =
     and_then (struct_entries [''version'', ''tenant_id'', ''repository''] v) (\<lambda>e.
     and_then (required decode_u8 ''version'' e) (\<lambda>version.
     and_then (required decode_string ''tenant_id'' e) (\<lambda>tenant_id.
     and_then (required decode_string ''repository'' e) (\<lambda>repository.
     Inr \<lparr>tm_version = version, tm_tenant_id = tenant_id, tm_repository = repository\<rparr>))))"

text \<open>The two artifacts of a revision.\<close>

record pipeline_state =
  ps_pipelines :: "(string, pipeline_record) btree_map"
  ps_bindings :: "(string, ontology_binding_record) btree_map"

record ontology_state =
  os_ontologies :: "(string, ontology_record) btree_map"

definition encode_pipeline_state :: "pipeline_state \<Rightarrow> json" where
  "encode_pipeline_state st = JObject
     [(''pipelines'', encode_map encode_pipeline_record (ps_pipelines st)),
      (''bindings'', encode_map encode_ontology_binding_record (ps_bindings st))]"

definition decode_pipeline_state :: "json \<Rightarrow> pipeline_state result" where
  "decode_pipeline_state v =
     and_then (struct_entries [''pipelines'', ''bindings''] v) (\<lambda>e.
     and_then (defaulted [] (decode_map decode_pipeline_record) ''pipelines'' e) (\<lambda>pipelines.
     and_then (defaulted [] (decode_map decode_ontology_binding_record) ''bindings'' e) (\<lambda>bindings.
     Inr \<lparr>ps_pipelines = pipelines, ps_bindings = bindings\<rparr>)))"

definition encode_ontology_state :: "ontology_state \<Rightarrow> json" where
  "encode_ontology_state st = JObject [(''ontologies'', encode_map encode_ontology_record (os_ontologies st))]"

definition decode_ontology_state :: "json \<Rightarrow> ontology_state result" where
  "decode_ontology_state v =
     and_then (struct_entries [''ontologies''] v) (\<lambda>e.
     and_then (defaulted [] (decode_map decode_ontology_record) ''ontologies'' e) (\<lambda>ontologies.
     Inr \<lparr>os_ontologies = ontologies\<rparr>))"

text \<open>Replies of lakeFS: one field is read, the others are ignored.\<close>

definition reply_field :: "string \<Rightarrow> json \<Rightarrow> string result" where
  "reply_field name v =
     and_then (case v of JObject m \<Rightarrow> Inr (False, m) | _ \<Rightarrow> struct_entries [name] v) (required decode_string name)"

section \<open>The store's world\<close>

record 'w lake_world =
  lw_remote :: 'w
  lw_cache :: "(string, tenant_marker option) btree_map"

definition remote :: "('w, 'a) io \<Rightarrow> ('w lake_world, 'a) io" where
  "remote m s = (case m (lw_remote s) of (r, w) \<Rightarrow> (r, s\<lparr>lw_remote := w\<rparr>))"

definition cache_get :: "'w services \<Rightarrow> string \<Rightarrow> ('w lake_world, tenant_marker option option) io" where
  "cache_get sv tenant_id s =
     (Inr (if sv_cache_live sv (lw_remote s) tenant_id then bt_get (lw_cache s) tenant_id else None), s)"

definition cache_insert :: "string \<Rightarrow> tenant_marker option \<Rightarrow> ('w lake_world, unit) io" where
  "cache_insert tenant_id marker s = (Inr (), s\<lparr>lw_cache := bt_insert tenant_id marker (lw_cache s)\<rparr>)"

definition cache_invalidate :: "string \<Rightarrow> ('w lake_world, unit) io" where
  "cache_invalidate tenant_id s = (Inr (), s\<lparr>lw_cache := bt_remove tenant_id (lw_cache s)\<rparr>)"

section \<open>The S3 directory\<close>

definition directory_read :: "'w services \<Rightarrow> tenant_directory \<Rightarrow> string \<Rightarrow> ('w lake_world, string option) io" where
  "directory_read sv dir relative =
     io_then (lift_io (directory_key dir relative)) (\<lambda>key.
     io_then (remote (sv_s3_get sv (td_bucket dir) key)) (\<lambda>found.
     case found of
       None \<Rightarrow> lift_io (Inr None)
     | Some output \<Rightarrow>
         io_ensure (case so_content_length output of None \<Rightarrow> False | Some n \<Rightarrow> 0 \<le> n \<and> n \<le> 4096)
           ''S3 tenant marker exceeds safety limit'' (
         io_then (lift_io (so_body output)) (\<lambda>bytes.
         lift_io (Inr (Some bytes))))))"

definition directory_write :: "'w services \<Rightarrow> tenant_directory \<Rightarrow> string \<Rightarrow> string \<Rightarrow> ('w lake_world, unit) io" where
  "directory_write sv dir relative payload =
     io_then (lift_io (directory_key dir relative)) (\<lambda>key.
     remote (sv_s3_put sv (td_bucket dir) key payload))"

text \<open>The loop of \<open>purge_prefix\<close>, bounded by a number of rounds.\<close>

fun purge_loop :: "nat \<Rightarrow> 'w services \<Rightarrow> string \<Rightarrow> string \<Rightarrow> ('w lake_world, unit) io" where
  "purge_loop 0 sv bucket key_prefix = lift_io (bail ''purge rounds exhausted'')"
| "purge_loop (Suc rounds) sv bucket key_prefix =
     io_then (remote (sv_s3_list sv bucket key_prefix)) (\<lambda>contents.
     if contents = [] then lift_io (Inr ())
     else
       io_then (lift_io (try_map (option_context ''S3 returned an object without a key'') contents)) (\<lambda>objects.
       io_then (remote (sv_s3_delete sv bucket objects)) (\<lambda>errors.
       io_ensure (errors = []) ''S3 tenant object purge failed'' (
       purge_loop rounds sv bucket key_prefix))))"

definition purge_prefix :: "nat \<Rightarrow> 'w services \<Rightarrow> tenant_directory \<Rightarrow> string \<Rightarrow> ('w lake_world, unit) io" where
  "purge_prefix rounds sv dir relative_prefix =
     io_then (lift_io (directory_key dir relative_prefix)) (\<lambda>key_prefix.
     purge_loop rounds sv (td_bucket dir) key_prefix)"

section \<open>Tenant markers and locks\<close>

definition decode_marker :: "'w services \<Rightarrow> string \<Rightarrow> tenant_marker result" where
  "decode_marker sv payload =
     ensure (length payload \<le> 4096) ''tenant marker exceeds safety limit'' (
     and_then (sv_from_slice sv payload) decode_tenant_marker)"

definition validate_marker :: "'w services \<Rightarrow> lakefs_store \<Rightarrow> string \<Rightarrow> tenant_marker \<Rightarrow> unit result" where
  "validate_marker sv st tenant_id marker =
     and_then (if tm_version marker = TENANT_MARKER_VERSION \<and> tm_tenant_id marker = tenant_id
        then and_then (repository_for_tenant (sv_sha256_hex sv) st tenant_id) (\<lambda>repository.
          Inr (tm_repository marker = repository))
        else Inr False) (\<lambda>intact.
     ensure intact ''tenant marker integrity check failed'' (Inr ()))"

definition find_marker :: "'w services \<Rightarrow> lakefs_store \<Rightarrow> string \<Rightarrow> ('w lake_world, tenant_marker option) io" where
  "find_marker sv st tenant_id =
     io_ensure (valid_tenant tenant_id) ''invalid tenant ID'' (
     io_then (cache_get sv tenant_id) (\<lambda>cached.
     case cached of
       Some marker \<Rightarrow> lift_io (Inr marker)
     | None \<Rightarrow>
         io_then (lift_io (marker_key tenant_id)) (\<lambda>key.
         io_then (directory_read sv (ls_directory st) key) (\<lambda>found.
         case found of
           None \<Rightarrow> io_then (cache_insert tenant_id None) (\<lambda>_. lift_io (Inr None))
         | Some payload \<Rightarrow>
             io_then (lift_io (decode_marker sv payload)) (\<lambda>marker.
             io_then (lift_io (validate_marker sv st tenant_id marker)) (\<lambda>_.
             io_then (cache_insert tenant_id (Some marker)) (\<lambda>_.
             lift_io (Inr (Some marker)))))))))"

definition require_tenant :: "'w services \<Rightarrow> lakefs_store \<Rightarrow> string \<Rightarrow> ('w lake_world, tenant_marker) io" where
  "require_tenant sv st tenant_id =
     io_then (find_marker sv st tenant_id) (\<lambda>marker. lift_io (option_context ''tenant unavailable'' marker))"

definition lock_stripe :: "'w services \<Rightarrow> string \<Rightarrow> nat" where
  "lock_stripe sv tenant_id = unat (sv_hash_one sv tenant_id mod of_nat TENANT_LOCK_STRIPES)"

definition tenant_lock :: "'w services \<Rightarrow> string \<Rightarrow> ('w lake_world, unit) io" where
  "tenant_lock sv tenant_id =
     io_ensure (valid_tenant tenant_id) ''invalid tenant ID'' (
     lift_io (option_context ''tenant lock stripe unavailable''
       (if lock_stripe sv tenant_id < TENANT_LOCK_STRIPES then Some () else None)))"

section \<open>Repositories\<close>

definition send :: "'w services \<Rightarrow> lakefs_request \<Rightarrow> ('w lake_world, http_response) io" where
  "send sv request = remote (sv_send sv request)"

definition ensure_repository :: "'w services \<Rightarrow> lakefs_store \<Rightarrow> string \<Rightarrow> ('w lake_world, string) io" where
  "ensure_repository sv st tenant_id =
     io_then (lift_io (repository_for_tenant (sv_sha256_hex sv) st tenant_id)) (\<lambda>repository.
     io_then (send sv (GetBranch repository (lc_branch (ls_config st)))) (\<lambda>response.
     if is_success response then lift_io (Inr repository)
     else
       io_ensure (hr_status response = NOT_FOUND) ''lakeFS branch lookup failed'' (
       io_then (lift_io (namespace_for_tenant st tenant_id)) (\<lambda>namespace.
       io_then (send sv (CreateRepository repository namespace (lc_branch (ls_config st)) False)) (\<lambda>create.
       io_ensure (is_success create \<or> hr_status create = CONFLICT) ''lakeFS repository provisioning failed'' (
       lift_io (Inr repository)))))))"

definition delete_repository :: "'w services \<Rightarrow> string \<Rightarrow> ('w lake_world, unit) io" where
  "delete_repository sv repository =
     io_then (send sv (DeleteRepository repository)) (\<lambda>response.
     io_ensure (is_success response \<or> hr_status response = NOT_FOUND) ''lakeFS repository deletion failed'' (
     lift_io (Inr ())))"

definition reply :: "'w services \<Rightarrow> string \<Rightarrow> http_response \<Rightarrow> string result" where
  "reply sv name response =
     and_then (response_bytes response) (\<lambda>bytes. and_then (sv_from_slice sv bytes) (reply_field name))"

definition branch_head :: "'w services \<Rightarrow> lakefs_store \<Rightarrow> string \<Rightarrow> ('w lake_world, string) io" where
  "branch_head sv st repository =
     io_then (send sv (GetBranch repository (lc_branch (ls_config st)))) (\<lambda>response.
     io_ensure (is_success response) ''lakeFS branch lookup failed'' (
     io_then (lift_io (reply sv ''commit_id'' response)) (\<lambda>head.
     io_ensure (valid_revision head) ''lakeFS returned invalid branch head'' (
     lift_io (Inr head)))))"

section \<open>Artifacts\<close>

fun read_chunks :: "string \<Rightarrow> string result list \<Rightarrow> string result" where
  "read_chunks payload [] = Inr payload"
| "read_chunks payload (next_chunk # chunks) =
     and_then next_chunk (\<lambda>chunk.
     ensure (length payload + length chunk < 2 ^ 64) ''registry state size overflow'' (
     ensure (length payload + length chunk \<le> MAX_STATE_BYTES) ''registry state exceeds safety limit'' (
     read_chunks (payload @ chunk) chunks)))"

definition read_artifact ::
  "'w services \<Rightarrow> 'a \<Rightarrow> (json \<Rightarrow> 'a result) \<Rightarrow> string \<Rightarrow> string \<Rightarrow> string \<Rightarrow> ('w lake_world, 'a) io" where
  "read_artifact sv dflt decode repository reference path =
     io_then (send sv (GetObject repository reference path)) (\<lambda>response.
     if hr_status response = NOT_FOUND then lift_io (Inr dflt)
     else
       io_ensure (is_success response) ''lakeFS artifact read failed'' (
       io_then (lift_io (option_context ''lakeFS artifact response length is required'' (hr_content_length response)))
         (\<lambda>content_length.
       io_ensure (content_length \<le> MAX_STATE_BYTES) ''registry state exceeds safety limit'' (
       io_then (lift_io (read_chunks [] (hr_chunks response))) (\<lambda>payload.
       lift_io (and_then (sv_from_slice sv payload) decode))))))"

definition read_state :: "'w services \<Rightarrow> string \<Rightarrow> string \<Rightarrow> ('w lake_world, tenant_state) io" where
  "read_state sv repository reference =
     io_then (read_artifact sv \<lparr>ps_pipelines = [], ps_bindings = []\<rparr> decode_pipeline_state repository reference
       PIPELINE_STATE_PATH) (\<lambda>pipeline.
     io_then (read_artifact sv \<lparr>os_ontologies = []\<rparr> decode_ontology_state repository reference
       ONTOLOGY_STATE_PATH) (\<lambda>ontology.
     lift_io (Inr \<lparr>ts_pipelines = ps_pipelines pipeline, ts_ontologies = os_ontologies ontology,
       ts_bindings = ps_bindings pipeline\<rparr>)))"

definition stage_artifact ::
  "'w services \<Rightarrow> lakefs_store \<Rightarrow> string \<Rightarrow> string \<Rightarrow> json \<Rightarrow> ('w lake_world, unit) io" where
  "stage_artifact sv st repository path artifact =
     (let payload = sv_to_vec sv artifact in
      io_ensure (length payload \<le> MAX_STATE_BYTES) ''registry state exceeds safety limit'' (
      io_then (send sv (PutObject repository (lc_branch (ls_config st)) path payload)) (\<lambda>upload.
      io_ensure (is_success upload) ''lakeFS artifact staging failed'' (
      lift_io (Inr ())))))"

section \<open>The trait\<close>

definition lake_tenant_exists :: "'w services \<Rightarrow> lakefs_store \<Rightarrow> string \<Rightarrow> ('w lake_world, bool) io" where
  "lake_tenant_exists sv st tenant_id =
     io_ensure (valid_tenant tenant_id) ''invalid tenant ID'' (
     io_then (find_marker sv st tenant_id) (\<lambda>marker. lift_io (Inr (marker \<noteq> None))))"

definition lake_ensure_tenant :: "'w services \<Rightarrow> lakefs_store \<Rightarrow> string \<Rightarrow> ('w lake_world, tenant_snapshot) io" where
  "lake_ensure_tenant sv st tenant_id =
     io_ensure (valid_tenant tenant_id) ''invalid tenant ID'' (
     io_then (tenant_lock sv tenant_id) (\<lambda>_.
     io_then (find_marker sv st tenant_id) (\<lambda>found.
     case found of
       Some marker \<Rightarrow>
         io_then (branch_head sv st (tm_repository marker)) (\<lambda>revision_id.
         lift_io (Inr \<lparr>tn_revision_id = revision_id\<rparr>))
     | None \<Rightarrow>
         io_then (ensure_repository sv st tenant_id) (\<lambda>repository.
         io_then (branch_head sv st repository) (\<lambda>revision_id.
         let marker = \<lparr>tm_version = TENANT_MARKER_VERSION, tm_tenant_id = tenant_id, tm_repository = repository\<rparr> in
         io_then (lift_io (marker_key tenant_id)) (\<lambda>key.
         io_then (directory_write sv (ls_directory st) key (sv_to_vec sv (encode_tenant_marker marker))) (\<lambda>_.
         io_then (cache_insert tenant_id (Some marker)) (\<lambda>_.
         lift_io (Inr \<lparr>tn_revision_id = revision_id\<rparr>)))))))))"

definition lake_delete_tenant :: "nat \<Rightarrow> 'w services \<Rightarrow> lakefs_store \<Rightarrow> string \<Rightarrow> ('w lake_world, unit) io" where
  "lake_delete_tenant rounds sv st tenant_id =
     io_ensure (valid_tenant tenant_id) ''invalid tenant ID'' (
     io_then (tenant_lock sv tenant_id) (\<lambda>_.
     io_then (require_tenant sv st tenant_id) (\<lambda>marker.
     io_then (delete_repository sv (tm_repository marker)) (\<lambda>_.
     io_then (purge_prefix rounds sv (ls_directory st) (tenant_id @ ''/'')) (\<lambda>_.
     cache_invalidate tenant_id)))))"

definition lake_load ::
  "'w services \<Rightarrow> lakefs_store \<Rightarrow> string \<Rightarrow> string option \<Rightarrow> ('w lake_world, snapshot) io" where
  "lake_load sv st tenant_id revision_id =
     io_ensure (valid_tenant tenant_id) ''invalid tenant ID'' (
     io_ensure (case revision_id of None \<Rightarrow> True | Some value_id \<Rightarrow> valid_revision value_id) ''invalid revision ID'' (
     io_then (require_tenant sv st tenant_id) (\<lambda>marker.
     io_then (case revision_id of
         Some requested \<Rightarrow> lift_io (Inr requested)
       | None \<Rightarrow> branch_head sv st (tm_repository marker)) (\<lambda>revision.
     io_then (read_state sv (tm_repository marker) revision) (\<lambda>state.
     lift_io (Inr \<lparr>sn_revision_id = revision, sn_state = state\<rparr>))))))"

definition lake_commit ::
  "'w services \<Rightarrow> lakefs_store \<Rightarrow> string \<Rightarrow> string \<Rightarrow> tenant_state \<Rightarrow> string \<Rightarrow> string \<Rightarrow> ('w lake_world, string) io" where
  "lake_commit sv st tenant_id expected_revision_id state author message =
     io_ensure (valid_revision expected_revision_id) ''invalid expected revision ID'' (
     io_ensure (author \<noteq> [] \<and> length author \<le> 256) ''invalid author'' (
     io_ensure (message \<noteq> [] \<and> length message \<le> 4096) ''invalid message'' (
     io_then (tenant_lock sv tenant_id) (\<lambda>_.
     io_then (require_tenant sv st tenant_id) (\<lambda>marker.
     let repository = tm_repository marker in
     io_then (branch_head sv st repository) (\<lambda>head.
     io_ensure (head = expected_revision_id) ''registry revision changed'' (
     io_then (stage_artifact sv st repository PIPELINE_STATE_PATH (encode_pipeline_state
       \<lparr>ps_pipelines = ts_pipelines state, ps_bindings = ts_bindings state\<rparr>)) (\<lambda>_.
     io_then (stage_artifact sv st repository ONTOLOGY_STATE_PATH (encode_ontology_state
       \<lparr>os_ontologies = ts_ontologies state\<rparr>)) (\<lambda>_.
     io_then (send sv (CreateCommit repository (lc_branch (ls_config st)) message author repository)) (\<lambda>response.
     io_ensure (\<not> (hr_status response = PRECONDITION_FAILED \<or> hr_status response = CONFLICT))
       ''registry revision changed'' (
     io_ensure (is_success response) ''lakeFS commit failed'' (
     io_then (lift_io (reply sv ''id'' response)) (\<lambda>revision.
     io_ensure (valid_revision revision) ''lakeFS returned invalid commit ID'' (
     lift_io (Inr revision)))))))))))))))"

definition lakefs_platform :: "nat \<Rightarrow> 'w services \<Rightarrow> lakefs_store \<Rightarrow> 'w lake_world platform" where
  "lakefs_platform rounds sv st =
     \<lparr>rs_tenant_exists = lake_tenant_exists sv st, rs_ensure_tenant = lake_ensure_tenant sv st,
      rs_delete_tenant = lake_delete_tenant rounds sv st, rs_load = lake_load sv st, rs_commit = lake_commit sv st,
      pl_now = (\<lambda>s. sv_now sv (lw_remote s)), pl_to_vec = sv_to_vec sv, pl_sha256_hex = sv_sha256_hex sv\<rparr>"

end
