(* ===== verification/Lakefs_Service.thy ===== *)
theory Lakefs_Service
  imports Lakefs_Store Registry_Machine
begin

text \<open>
  What the lakeFS store relies on, as the locale \<open>lakefs_service\<close>:
  the documented behaviour of the lakeFS and S3 calls it makes, in terms of the repositories and objects that
  they hold (including answers that never arrive: a failed call may or may not have taken effect), a JSON
  printer that is injective and a reader that undoes it up to its recursion limit, and tenants whose repository
  names differ. References are resolved as full commit identifiers. Under these laws the store's reads change
  nothing that is committed, and return what was committed.
\<close>

section \<open>What lakeFS holds\<close>

record repository =
  rp_namespace :: string
  rp_head :: string
  rp_commits :: "string \<rightharpoonup> string \<times> (string \<rightharpoonup> string)"
  rp_staged :: "string \<rightharpoonup> string"

definition head_objects :: "repository \<Rightarrow> string \<rightharpoonup> string" where
  "head_objects rp = (case rp_commits rp (rp_head rp) of None \<Rightarrow> Map.empty | Some (_, objs) \<Rightarrow> objs)"

definition stage :: "string \<Rightarrow> string \<Rightarrow> repository \<Rightarrow> repository" where
  "stage path payload rp = rp\<lparr>rp_staged := (rp_staged rp)(path \<mapsto> payload)\<rparr>"

definition record_commit :: "string \<Rightarrow> repository \<Rightarrow> repository" where
  "record_commit c rp = rp\<lparr>rp_head := c, rp_staged := Map.empty,
     rp_commits := (rp_commits rp)(c \<mapsto> (rp_head rp, head_objects rp ++ rp_staged rp))\<rparr>"

text \<open>Whether an object of the bucket lies in a storage namespace.\<close>

definition under :: "string \<Rightarrow> string \<Rightarrow> string \<Rightarrow> bool" where
  "under namespace bucket key \<longleftrightarrow> starts_with namespace (''s3://'' @ bucket @ ''/'' @ key)"

fun json_depth :: "json \<Rightarrow> nat" where
  "json_depth (JArray xs) = Suc (Max (insert 0 (set (map json_depth xs))))"
| "json_depth (JObject m) = Suc (Max (insert 0 (set (map (\<lambda>(k, v). json_depth v) m))))"
| "json_depth v = 0"

definition PARSE_DEPTH :: nat where "PARSE_DEPTH = 128"

locale lakefs_service =
  fixes sv :: "'w services" and st :: lakefs_store and ok :: "'w \<Rightarrow> bool"
    and repositories :: "'w \<Rightarrow> string \<rightharpoonup> repository" and objects :: "'w \<Rightarrow> string \<rightharpoonup> string"
  assumes coherent: "coherent_store st"
    and distinct_names: "\<lbrakk>valid_tenant t; valid_tenant u;
      repository_for_tenant (sv_sha256_hex sv) st t = repository_for_tenant (sv_sha256_hex sv) st u\<rbrakk> \<Longrightarrow> t = u"
    and service_clock: "i64 (sv_now sv w)"
    and print_inject: "\<lbrakk>wf_json v; wf_json v'; sv_to_vec sv v = sv_to_vec sv v'\<rbrakk> \<Longrightarrow> v = v'"
    and parse_shallow: "\<lbrakk>wf_json v; json_depth v < PARSE_DEPTH\<rbrakk> \<Longrightarrow> sv_from_slice sv (sv_to_vec sv v) = Inr v"
    and parse_deep: "\<lbrakk>wf_json v; PARSE_DEPTH \<le> json_depth v\<rbrakk> \<Longrightarrow> isl (sv_from_slice sv (sv_to_vec sv v))"
    and get_branch: "\<lbrakk>ok w; sv_send sv (GetBranch r (lc_branch (ls_config st))) w = (res, w')\<rbrakk> \<Longrightarrow>
      ok w' \<and> repositories w' = repositories w \<and> objects w' = objects w \<and>
      (\<forall>response v. res = Inr response \<longrightarrow> is_success response \<longrightarrow> reply sv ''commit_id'' response = Inr v \<longrightarrow>
        (\<exists>rp. repositories w r = Some rp \<and> rp_head rp = v))"
    and create_repository: "\<lbrakk>ok w; sv_send sv (CreateRepository r ns (lc_branch (ls_config st)) False) w = (res, w')\<rbrakk> \<Longrightarrow>
      ok w' \<and> (repositories w' = repositories w \<or> repositories w r = None \<and>
        (\<exists>h. repositories w' = (repositories w)(r \<mapsto>
          \<lparr>rp_namespace = ns, rp_head = h, rp_commits = Map.empty, rp_staged = Map.empty\<rparr>)))"
    and delete_repository: "\<lbrakk>ok w; sv_send sv (DeleteRepository r) w = (res, w')\<rbrakk> \<Longrightarrow>
      ok w' \<and> objects w' = objects w \<and>
      (repositories w' = repositories w \<or> repositories w' = (repositories w)(r := None)) \<and>
      (\<forall>response. res = Inr response \<longrightarrow> is_success response \<or> hr_status response = NOT_FOUND \<longrightarrow>
        repositories w' r = None)"
    and get_object: "\<lbrakk>ok w; sv_send sv (GetObject r ref path) w = (res, w')\<rbrakk> \<Longrightarrow>
      ok w' \<and> repositories w' = repositories w \<and> objects w' = objects w \<and>
      (\<forall>response bytes. res = Inr response \<longrightarrow> is_success response \<longrightarrow> response_bytes response = Inr bytes \<longrightarrow>
        (\<exists>rp p objs. repositories w r = Some rp \<and> rp_commits rp ref = Some (p, objs) \<and> objs path = Some bytes)) \<and>
      (\<forall>response rp p objs. res = Inr response \<longrightarrow> hr_status response = NOT_FOUND \<longrightarrow>
        repositories w r = Some rp \<longrightarrow> rp_commits rp ref = Some (p, objs) \<longrightarrow> objs path = None)"
    and put_object: "\<lbrakk>ok w; sv_send sv (PutObject r (lc_branch (ls_config st)) path payload) w = (res, w')\<rbrakk> \<Longrightarrow>
      ok w' \<and> (repositories w' = repositories w \<and> (\<forall>response. res = Inr response \<longrightarrow> \<not> is_success response) \<or>
        (\<exists>rp. repositories w r = Some rp \<and> repositories w' = (repositories w)(r \<mapsto> stage path payload rp)))"
    and create_commit: "\<lbrakk>ok w; sv_send sv (CreateCommit r (lc_branch (ls_config st)) m a d) w = (res, w')\<rbrakk> \<Longrightarrow>
      ok w' \<and> (repositories w' = repositories w \<and> (\<forall>response. res = Inr response \<longrightarrow> \<not> is_success response) \<or>
        (\<exists>rp c. repositories w r = Some rp \<and> rp_commits rp c = None \<and> c \<noteq> rp_head rp \<and>
          repositories w' = (repositories w)(r \<mapsto> record_commit c rp) \<and>
          (\<forall>response v. res = Inr response \<longrightarrow> is_success response \<longrightarrow> reply sv ''id'' response = Inr v \<longrightarrow> v = c)))"
    and s3_get: "\<lbrakk>ok w; sv_s3_get sv (td_bucket (ls_directory st)) k w = (res1, w')\<rbrakk> \<Longrightarrow>
      ok w' \<and> repositories w' = repositories w \<and> objects w' = objects w"
    and s3_put: "\<lbrakk>ok w; sv_s3_put sv (td_bucket (ls_directory st)) k payload w = (res2, w');
        \<forall>r rp. repositories w r = Some rp \<longrightarrow> \<not> under (rp_namespace rp) (td_bucket (ls_directory st)) k\<rbrakk> \<Longrightarrow>
      ok w' \<and> repositories w' = repositories w"
    and s3_list: "\<lbrakk>ok w; sv_s3_list sv (td_bucket (ls_directory st)) pfx w = (res3, w')\<rbrakk> \<Longrightarrow>
      ok w' \<and> repositories w' = repositories w \<and> objects w' = objects w \<and>
      (\<forall>keys. res3 = Inr keys \<longrightarrow> None \<notin> set keys \<and>
        (\<forall>k. Some k \<in> set keys \<longrightarrow> starts_with pfx k \<and> objects w k \<noteq> None) \<and>
        (keys = [] \<longrightarrow> (\<forall>k. starts_with pfx k \<longrightarrow> objects w k = None)))"
    and s3_delete: "\<lbrakk>ok w; sv_s3_delete sv (td_bucket (ls_directory st)) keys w = (res4, w');
        \<forall>k \<in> set keys. \<forall>r rp. repositories w r = Some rp \<longrightarrow>
          \<not> under (rp_namespace rp) (td_bucket (ls_directory st)) k\<rbrakk> \<Longrightarrow>
      ok w' \<and> repositories w' = repositories w \<and>
      (\<exists>gone \<subseteq> set keys. objects w' = objects w |` (- gone) \<and> (res4 = Inr [] \<longrightarrow> gone = set keys))"
    and finite_objects: "ok w \<Longrightarrow> finite (dom (objects w))"

section \<open>Encoded artifacts\<close>

lemma wf_encode_map:
  assumes "btree m" "\<forall>x \<in> snd ` set m. wf_json (f x)"
  shows "wf_json (encode_map f m)"
  using assms btree_distinct [of m] by (auto simp: encode_map_def list_all_iff comp_def case_prod_beta)

lemma wf_encode_basic:
  "wf_json (encode_int n)" "(\<And>y. x = Some y \<Longrightarrow> wf_json (f y)) \<Longrightarrow> wf_json (encode_option f x)"
  by (auto simp: encode_int_def encode_option_def split: option.split)

lemma wf_encode_authoring:
  "wf_branch b \<Longrightarrow> wf_json (encode_branch b)" "wf_json (encode_merge_proposal p)"
  "wf_json (encode_content_review c)" "wf_json (encode_pipeline_release rl)"
  "wf_ontology_branch ob \<Longrightarrow> wf_json (encode_ontology_branch ob)"
  "wf_ontology_publication_record op \<Longrightarrow> wf_json (encode_ontology_publication_record op)"
  "wf_ontology_binding_record bd \<Longrightarrow> wf_json (encode_ontology_binding_record bd)"
  by (auto simp: encode_branch_def wf_branch_def encode_merge_proposal_def encode_content_review_def
      encode_pipeline_release_def encode_ontology_branch_def wf_ontology_branch_def
      encode_ontology_publication_record_def wf_ontology_publication_record_def
      encode_ontology_binding_record_def wf_ontology_binding_record_def wf_encode_basic list_all_iff split: option.split)

lemma wf_encode_authoring_states:
  "wf_authoring_state a \<Longrightarrow> wf_json (encode_authoring_state a)"
  "wf_ontology_authoring_state oa \<Longrightarrow> wf_json (encode_ontology_authoring_state oa)"
  by (auto simp: encode_authoring_state_def wf_authoring_state_def encode_ontology_authoring_state_def
      wf_ontology_authoring_state_def wf_map_def intro!: wf_encode_basic wf_encode_map wf_encode_authoring)

lemma wf_encode_records:
  "wf_pipeline_record r \<Longrightarrow> wf_json (encode_pipeline_record r)"
  "wf_ontology_record x \<Longrightarrow> wf_json (encode_ontology_record x)"
  by (auto simp: encode_pipeline_record_def wf_pipeline_record_def encode_ontology_record_def wf_ontology_record_def
      intro!: wf_encode_basic wf_encode_authoring wf_encode_authoring_states)

text \<open>The two artifacts of a tenant state, as documents and as bytes.\<close>

definition pipeline_part :: "tenant_state \<Rightarrow> pipeline_state" where
  "pipeline_part ts = \<lparr>ps_pipelines = ts_pipelines ts, ps_bindings = ts_bindings ts\<rparr>"

definition ontology_part :: "tenant_state \<Rightarrow> ontology_state" where
  "ontology_part ts = \<lparr>os_ontologies = ts_ontologies ts\<rparr>"

definition artifacts :: "'w services \<Rightarrow> tenant_state \<Rightarrow> string \<times> string" where
  "artifacts sv ts = (sv_to_vec sv (encode_pipeline_state (pipeline_part ts)),
     sv_to_vec sv (encode_ontology_state (ontology_part ts)))"

lemma wf_encode_parts:
  assumes "wf_tenant_state ts"
  shows "wf_json (encode_pipeline_state (pipeline_part ts))" "wf_json (encode_ontology_state (ontology_part ts))"
  using assms
  by (auto simp: encode_pipeline_state_def encode_ontology_state_def wf_tenant_state_def wf_map_def pipeline_part_def
      ontology_part_def intro!: wf_encode_map wf_encode_records wf_encode_authoring)

lemma decode_encode_parts:
  assumes "wf_tenant_state ts"
  shows "decode_pipeline_state (encode_pipeline_state (pipeline_part ts)) = Inr (pipeline_part ts)"
    "decode_ontology_state (encode_ontology_state (ontology_part ts)) = Inr (ontology_part ts)"
proof -
  have maps: "decode_map decode_pipeline_record (encode_map encode_pipeline_record (ts_pipelines ts)) = Inr (ts_pipelines ts)"
    "decode_map decode_ontology_record (encode_map encode_ontology_record (ts_ontologies ts)) = Inr (ts_ontologies ts)"
    "decode_map decode_ontology_binding_record (encode_map encode_ontology_binding_record (ts_bindings ts)) = Inr (ts_bindings ts)"
    using assms by (auto simp: wf_tenant_state_def wf_map_def codec_simps)
  show "decode_pipeline_state (encode_pipeline_state (pipeline_part ts)) = Inr (pipeline_part ts)"
    by (simp add: decode_pipeline_state_def encode_pipeline_state_def pipeline_part_def struct_simps maps)
  show "decode_ontology_state (encode_ontology_state (ontology_part ts)) = Inr (ontology_part ts)"
    by (simp add: decode_ontology_state_def encode_ontology_state_def ontology_part_def struct_simps maps)
qed

text \<open>The history that lakeFS holds, read back as tenant states.\<close>

definition stored_state :: "'w services \<Rightarrow> (string \<rightharpoonup> string) \<Rightarrow> tenant_state option" where
  "stored_state sv objs =
     (case (objs PIPELINE_STATE_PATH, objs ONTOLOGY_STATE_PATH) of
        (Some a, Some b) \<Rightarrow>
          if (a, b) \<in> artifacts sv ` Collect wf_tenant_state
          then Some (inv_into (Collect wf_tenant_state) (artifacts sv) (a, b)) else None
      | _ \<Rightarrow> None)"

definition repository_of :: "'w services \<Rightarrow> lakefs_store \<Rightarrow> string \<Rightarrow> string" where
  "repository_of sv st t = take 63 (lc_repository_prefix (ls_config st) @ ''-'' @ sv_sha256_hex sv t)"

definition lake_commits :: "'w services \<Rightarrow> lakefs_store \<Rightarrow> ('w \<Rightarrow> string \<rightharpoonup> repository) \<Rightarrow> 'w lake_world \<Rightarrow> commits" where
  "lake_commits sv st repositories s t r =
     (if valid_tenant t then
        Option.bind (repositories (lw_remote s) (repository_of sv st t)) (\<lambda>rp.
        Option.bind (rp_commits rp r) (\<lambda>(p, objs). map_option (Pair p) (stored_state sv objs)))
      else None)"

definition marker_for :: "'w services \<Rightarrow> lakefs_store \<Rightarrow> string \<Rightarrow> tenant_marker" where
  "marker_for sv st t = \<lparr>tm_version = TENANT_MARKER_VERSION, tm_tenant_id = t, tm_repository = repository_of sv st t\<rparr>"

definition readable :: "'w services \<Rightarrow> repository \<Rightarrow> bool" where
  "readable sv rp \<longleftrightarrow> (\<forall>c p objs. rp_commits rp c = Some (p, objs) \<longrightarrow>
     (\<exists>ts. wf_tenant_state ts \<and> objs PIPELINE_STATE_PATH = Some (fst (artifacts sv ts)) \<and>
        objs ONTOLOGY_STATE_PATH = Some (snd (artifacts sv ts))))"

definition lake_valid ::
  "'w services \<Rightarrow> lakefs_store \<Rightarrow> ('w \<Rightarrow> bool) \<Rightarrow> ('w \<Rightarrow> string \<rightharpoonup> repository) \<Rightarrow> 'w lake_world \<Rightarrow> bool" where
  "lake_valid sv st ok repositories s \<longleftrightarrow> ok (lw_remote s) \<and>
     (\<forall>t m. bt_get (lw_cache s) t = Some (Some m) \<longrightarrow> m = marker_for sv st t) \<and>
     (\<forall>r rp. repositories (lw_remote s) r = Some rp \<longrightarrow> readable sv rp \<and>
        (\<exists>t. valid_tenant t \<and> r = repository_of sv st t \<and>
           rp_namespace rp = lc_storage_namespace (ls_config st) @ t @ ''/_lakefs/''))"

lemma append_starts_with [simp]: "starts_with (p @ q) (p @ s) = starts_with q s"
  by (induction p) auto

lemma remote_run: "remote m s = (r, s') \<longleftrightarrow> (\<exists>w. m (lw_remote s) = (r, w) \<and> s' = s\<lparr>lw_remote := w\<rparr>)"
  by (auto simp: remote_def split: prod.splits)

section \<open>Reading\<close>

context lakefs_service
begin

abbreviation "lvalid \<equiv> lake_valid sv st ok repositories"

abbreviation "lcommits \<equiv> lake_commits sv st repositories"

abbreviation "calm \<equiv> (\<lambda>s s'. repositories (lw_remote s') = repositories (lw_remote s) \<and>
  objects (lw_remote s') = objects (lw_remote s))"

abbreviation "quiet \<equiv> (\<lambda>s s'. lcommits s' = lcommits s)"

lemma lcommits_same: "repositories (lw_remote s') = repositories (lw_remote s) \<Longrightarrow> lcommits s' = lcommits s"
  by (simp add: lake_commits_def fun_eq_iff)

lemma calm_quiet: "keeps V calm m \<Longrightarrow> keeps V quiet m"
  unfolding keeps_def lake_commits_def fun_eq_iff by fastforce

lemma calm_io:
  "keeps V calm (lift_io x)" "keeps V calm k \<Longrightarrow> keeps V calm (io_ensure c msg k)"
  "keeps V calm m \<Longrightarrow> (\<And>x. keeps V calm (f x)) \<Longrightarrow> keeps V calm (io_then m f)"
  by (rule keeps_lift keeps_ensure keeps_then; auto)+

lemma quiet_io:
  "keeps V quiet (lift_io x)" "keeps V quiet k \<Longrightarrow> keeps V quiet (io_ensure c msg k)"
  "keeps V quiet m \<Longrightarrow> (\<And>x. keeps V quiet (f x)) \<Longrightarrow> keeps V quiet (io_then m f)"
  by (rule keeps_lift keeps_ensure keeps_then; auto)+

lemma repository_for [simp]:
  "valid_tenant t \<Longrightarrow> repository_for_tenant (sv_sha256_hex sv) st t = Inr (repository_of sv st t)"
  by (simp add: repository_for_tenant_def repository_of_def)

lemma repository_of_inject:
  "valid_tenant t \<Longrightarrow> valid_tenant u \<Longrightarrow> repository_of sv st t = repository_of sv st u \<longleftrightarrow> t = u"
  using distinct_names [of t u] by auto

lemma artifacts_inject: "inj_on (artifacts sv) (Collect wf_tenant_state)"
proof (rule inj_onI)
  fix x y
  assume wf: "x \<in> Collect wf_tenant_state" "y \<in> Collect wf_tenant_state" and "artifacts sv x = artifacts sv y"
  then have "encode_pipeline_state (pipeline_part x) = encode_pipeline_state (pipeline_part y)"
    "encode_ontology_state (ontology_part x) = encode_ontology_state (ontology_part y)"
    using wf_encode_parts print_inject by (auto simp: artifacts_def)
  then have "pipeline_part x = pipeline_part y" "ontology_part x = ontology_part y"
    using decode_encode_parts wf by (metis Inr_inject mem_Collect_eq)+
  then show "x = y" by (simp add: pipeline_part_def ontology_part_def)
qed

lemma stored_state_artifacts:
  assumes "wf_tenant_state ts" "objs PIPELINE_STATE_PATH = Some (fst (artifacts sv ts))"
    and "objs ONTOLOGY_STATE_PATH = Some (snd (artifacts sv ts))"
  shows "stored_state sv objs = Some ts"
  using assms artifacts_inject by (simp add: stored_state_def)

lemma calm_remote:
  assumes "\<And>w res w'. ok w \<Longrightarrow> m w = (res, w') \<Longrightarrow> ok w' \<and> repositories w' = repositories w \<and> objects w' = objects w"
  shows "keeps lvalid calm (remote m)"
  using assms unfolding keeps_def remote_run lake_valid_def by fastforce

lemma calm_calls:
  "keeps lvalid calm (send sv (GetBranch r (lc_branch (ls_config st))))"
  "keeps lvalid calm (send sv (GetObject r ref path))"
  "keeps lvalid calm (remote (sv_s3_get sv (td_bucket (ls_directory st)) k))"
  "keeps lvalid calm (remote (sv_s3_list sv (td_bucket (ls_directory st)) k))"
  unfolding send_def by (rule calm_remote, use get_branch get_object s3_get s3_list in blast)+

lemma calm_cache:
  "keeps lvalid calm (cache_get sv t)" "keeps lvalid calm (cache_invalidate t)" "keeps lvalid calm (cache_insert t None)"
  "keeps lvalid calm (cache_insert t (Some (marker_for sv st t)))"
  by (auto simp: keeps_def cache_get_def cache_invalidate_def cache_insert_def lake_valid_def split: if_splits)

lemma validate_marker_Inr:
  "valid_tenant t \<Longrightarrow> validate_marker sv st t m = Inr () \<longleftrightarrow> m = marker_for sv st t"
  by (cases m) (auto simp: validate_marker_def marker_for_def ensure_Inr_iff)

lemma calm_directory_read: "keeps lvalid calm (directory_read sv (ls_directory st) key)"
  unfolding directory_read_def by (intro calm_io calm_calls) (auto intro!: calm_io split: option.split)

lemma calm_lift: "(\<And>x. r = Inr x \<Longrightarrow> keeps V calm (f x)) \<Longrightarrow> keeps V calm (io_then (lift_io r) f)"
  by (cases r) (simp_all add: calm_io)

lemma calm_find_marker: "keeps lvalid calm (find_marker sv st t)"
proof (cases "valid_tenant t")
  case True
  then show ?thesis unfolding find_marker_def
    by (auto intro!: calm_io(1,2) calm_lift calm_io(3) [OF calm_cache(1)] calm_io(3) [OF calm_directory_read]
        calm_io(3) [OF calm_cache(3)] calm_io(3) [OF calm_cache(4)] simp: validate_marker_Inr split: option.split)
qed (simp add: find_marker_def calm_io)

lemma find_marker_Inr:
  assumes "lvalid s" "find_marker sv st t s = (Inr (Some m), s')"
  shows "valid_tenant t \<and> m = marker_for sv st t"
proof -
  have "valid_tenant t" using assms(2) by (cases "valid_tenant t") (simp_all add: find_marker_def lift_io_def bail_def)
  moreover from assms this have "m = marker_for sv st t"
    by (fastforce simp: find_marker_def io_simps cache_get_def cache_insert_def lake_valid_def validate_marker_Inr
        split: option.splits if_splits)
  ultimately show ?thesis ..
qed

lemma calm_require_tenant: "keeps lvalid calm (require_tenant sv st t)"
  unfolding require_tenant_def by (intro calm_io calm_find_marker)

lemma require_tenant_Inr:
  assumes "lvalid s" "require_tenant sv st t s = (Inr m, s')"
  shows "valid_tenant t \<and> m = marker_for sv st t"
  using assms find_marker_Inr unfolding require_tenant_def by (auto simp: io_simps option_context_Inr_iff)

lemma calm_tenant_lock: "keeps lvalid calm (tenant_lock sv t)"
  unfolding tenant_lock_def by (intro calm_io)

lemma calm_branch_head: "keeps lvalid calm (branch_head sv st r)"
  unfolding branch_head_def by (intro calm_io calm_calls)

lemma branch_head_Inr:
  assumes "lvalid s" "branch_head sv st r s = (Inr h, s')"
  shows "\<exists>rp. repositories (lw_remote s) r = Some rp \<and> rp_head rp = h \<and> valid_revision h"
  using assms get_branch unfolding branch_head_def send_def lake_valid_def
  by (fastforce simp: io_simps remote_run)

lemma calm_read_state: "keeps lvalid calm (read_state sv r c)"
  unfolding read_state_def read_artifact_def by (auto intro!: calm_io calm_calls)

lemma calm_load: "keeps lvalid calm (lake_load sv st t pin)"
  unfolding lake_load_def
  by (intro calm_io calm_require_tenant calm_read_state) (auto intro!: calm_io calm_branch_head split: option.split)

lemma calm_exists: "keeps lvalid calm (lake_tenant_exists sv st t)"
  unfolding lake_tenant_exists_def by (intro calm_io calm_find_marker)

text \<open>What a read of a revision returns is the state committed there, or nothing.\<close>

lemma read_chunks_Inr:
  "read_chunks payload chunks = Inr x \<Longrightarrow> \<exists>bs. try_map (\<lambda>c. c) chunks = Inr bs \<and> x = payload @ concat bs"
proof (induction payload chunks rule: read_chunks.induct)
  case (2 payload c cs)
  then obtain chunk where c: "c = Inr chunk" "read_chunks (payload @ chunk) cs = Inr x"
    by (auto simp: and_then_Inr_iff ensure_Inr_iff)
  moreover have "length payload + length chunk < 2 ^ 64" "length payload + length chunk \<le> MAX_STATE_BYTES"
    using 2(2) c(1) by (auto simp: ensure_Inr_iff)
  ultimately obtain bs where "try_map (\<lambda>c. c) cs = Inr bs" "x = (payload @ chunk) @ concat bs" using 2(1) by blast
  with c(1) show ?case by (intro exI [of _ "chunk # bs"]) simp
qed simp

lemma read_artifact_Inr:
  assumes "lvalid s" "read_artifact sv d decode r c path s = (Inr x, s')"
  shows "(x = d \<and> (\<forall>rp p objs. repositories (lw_remote s) r = Some rp \<longrightarrow> rp_commits rp c = Some (p, objs) \<longrightarrow> objs path = None)) \<or>
    (\<exists>rp p objs bytes. repositories (lw_remote s) r = Some rp \<and> rp_commits rp c = Some (p, objs) \<and> objs path = Some bytes \<and>
      and_then (sv_from_slice sv bytes) decode = Inr x)"
proof -
  obtain response s1 where call: "send sv (GetObject r c path) s = (Inr response, s1)"
    and answer: "(if hr_status response = NOT_FOUND then lift_io (Inr d)
     else
       io_ensure (is_success response) ''lakeFS artifact read failed'' (
       io_then (lift_io (option_context ''lakeFS artifact response length is required'' (hr_content_length response)))
         (\<lambda>content_length.
       io_ensure (content_length \<le> MAX_STATE_BYTES) ''registry state exceeds safety limit'' (
       io_then (lift_io (read_chunks [] (hr_chunks response))) (\<lambda>payload.
       lift_io (and_then (sv_from_slice sv payload) decode)))))) s1 = (Inr x, s')"
    using assms(2) unfolding read_artifact_def io_then_Inr by blast
  from call obtain w where run: "sv_send sv (GetObject r c path) (lw_remote s) = (Inr response, w)"
    by (auto simp: send_def remote_run)
  from answer have rest: "hr_status response = NOT_FOUND \<and> x = d \<or>
      is_success response \<and> (\<exists>payload. read_chunks [] (hr_chunks response) = Inr payload \<and>
        and_then (sv_from_slice sv payload) decode = Inr x)"
    by (auto simp: io_ensure_Inr io_then_Inr lift_io_Inr split: if_splits)
  have ok: "ok (lw_remote s)" using assms(1) by (simp add: lake_valid_def)
  from rest show ?thesis
  proof (elim disjE conjE exE)
    assume "hr_status response = NOT_FOUND" "x = d"
    with get_object [OF ok run] show ?thesis by blast
  next
    fix payload
    assume "is_success response" "read_chunks [] (hr_chunks response) = Inr payload"
      and x: "and_then (sv_from_slice sv payload) decode = Inr x"
    moreover from this(2) have "response_bytes response = Inr payload"
      by (auto simp: response_bytes_def dest: read_chunks_Inr)
    ultimately show ?thesis using get_object [OF ok run] by blast
  qed
qed

lemma parse_encoded: "wf_json v \<Longrightarrow> sv_from_slice sv (sv_to_vec sv v) = Inr x \<Longrightarrow> x = v"
  using parse_shallow [of v] parse_deep [of v] by (cases "json_depth v < PARSE_DEPTH") auto

lemma read_state_Inr:
  assumes "lvalid s" "valid_tenant t" "read_state sv (repository_of sv st t) c s = (Inr ts, s')"
  shows "ts = state_at (lcommits s) t c \<and> wf_tenant_state ts"
proof -
  let ?r = "repository_of sv st t" and ?w = "lw_remote s"
  obtain pp oo s1 where pp: "read_artifact sv \<lparr>ps_pipelines = [], ps_bindings = []\<rparr> decode_pipeline_state ?r c PIPELINE_STATE_PATH s = (Inr pp, s1)"
    and oo: "read_artifact sv \<lparr>os_ontologies = []\<rparr> decode_ontology_state ?r c ONTOLOGY_STATE_PATH s1 = (Inr oo, s')"
    and ts: "ts = \<lparr>ts_pipelines = ps_pipelines pp, ts_ontologies = os_ontologies oo, ts_bindings = ps_bindings pp\<rparr>"
    using assms(3) unfolding read_state_def by (auto simp: io_simps)
  have "keeps lvalid calm (read_artifact sv \<lparr>ps_pipelines = [], ps_bindings = []\<rparr> decode_pipeline_state ?r c PIPELINE_STATE_PATH)"
    unfolding read_artifact_def by (auto intro!: calm_io calm_calls)
  from keepsD [OF this assms(1) pp] have s1: "lvalid s1" "repositories (lw_remote s1) = repositories ?w" by blast+
  note reads = read_artifact_Inr [OF assms(1) pp] read_artifact_Inr [OF s1(1) oo, unfolded s1(2)]
  show ?thesis
  proof (cases "Option.bind (repositories ?w ?r) (\<lambda>rp. rp_commits rp c)")
    case None
    then have "pp = \<lparr>ps_pipelines = [], ps_bindings = []\<rparr>" "oo = \<lparr>os_ontologies = []\<rparr>"
      using reads by (cases "repositories ?w ?r"; auto)+
    then have "ts = default_tenant_state" by (simp add: ts default_tenant_state_def)
    moreover have "lcommits s t c = None" using None by (auto simp: lake_commits_def bind_eq_None_conv)
    ultimately show ?thesis by (simp add: state_at_def default_tenant_state_def wf_tenant_state_def)
  next
    case (Some found)
    then obtain rp p objs where rp: "repositories ?w ?r = Some rp" "rp_commits rp c = Some (p, objs)"
      by (cases found) (auto simp: bind_eq_Some_conv)
    from assms(1) rp obtain ts0 where ts0: "wf_tenant_state ts0"
      "objs PIPELINE_STATE_PATH = Some (fst (artifacts sv ts0))" "objs ONTOLOGY_STATE_PATH = Some (snd (artifacts sv ts0))"
      unfolding lake_valid_def readable_def by blast
    have "and_then (sv_from_slice sv (fst (artifacts sv ts0))) decode_pipeline_state = Inr pp"
      "and_then (sv_from_slice sv (snd (artifacts sv ts0))) decode_ontology_state = Inr oo"
      using reads rp ts0 by auto
    then have "pp = pipeline_part ts0" "oo = ontology_part ts0"
      using parse_encoded wf_encode_parts [OF ts0(1)] decode_encode_parts [OF ts0(1)]
      by (fastforce simp: and_then_Inr_iff artifacts_def)+
    then have "ts = ts0" by (simp add: ts pipeline_part_def ontology_part_def)
    moreover have "lcommits s t c = Some (p, ts0)"
      using rp assms(2) stored_state_artifacts [OF ts0] by (simp add: lake_commits_def)
    ultimately show ?thesis using ts0(1) by (simp add: state_at_def)
  qed
qed

lemma lake_load_Inr:
  assumes "lvalid s" "lake_load sv st t pin s = (Inr sn, s')"
  shows "sn_state sn = state_at (lcommits s') t (sn_revision_id sn) \<and> wf_tenant_state (sn_state sn) \<and>
    (\<forall>x. pin = Some x \<longrightarrow> sn_revision_id sn = x)"
proof -
  obtain m s1 c s2 where m: "require_tenant sv st t s = (Inr m, s1)"
    and c: "(case pin of Some requested \<Rightarrow> lift_io (Inr requested) | None \<Rightarrow> branch_head sv st (tm_repository m)) s1 = (Inr c, s2)"
    and read: "read_state sv (tm_repository m) c s2 = (Inr (sn_state sn), s')" and sn: "sn_revision_id sn = c"
    using assms(2) unfolding lake_load_def by (auto simp: io_simps)
  note marker = require_tenant_Inr [OF assms(1) m]
  have s1: "lvalid s1" using keepsD [OF calm_require_tenant assms(1) m] by blast
  have "keeps lvalid calm (case pin of Some requested \<Rightarrow> lift_io (Inr requested) | None \<Rightarrow> branch_head sv st (tm_repository m))"
    by (auto intro: calm_io calm_branch_head split: option.split)
  from keepsD [OF this s1 c] have s2: "lvalid s2" by blast
  from read marker have "read_state sv (repository_of sv st t) c s2 = (Inr (sn_state sn), s')" by (simp add: marker_for_def)
  from read_state_Inr [OF s2 _ this] marker keepsD [OF calm_quiet [OF calm_read_state] s2 read] c sn show ?thesis
    by (auto simp: io_simps split: option.splits)
qed

end

end
