(* ===== verification/Lakefs_Contract.thy ===== *)
theory Lakefs_Contract
  imports Lakefs_Service
begin

text \<open>
  The lakeFS store keeps the storage contract \<open>quiet_store\<close> over any service that keeps the laws of
  \<open>lakefs_service\<close>: provisioning and failed calls change no commit, a commit adds one revision on the expected
  head, and erasing a tenant removes its repository, its objects and nothing else. It does not keep
  \<open>durable_store\<close>: a state nested deeper than the JSON reader allows is committed and can not be read again.
\<close>

section \<open>Provisioning\<close>

lemma all_keys: "try_map (option_context msg) contents = Inr keys \<Longrightarrow> contents = map Some keys"
  by (induction contents arbitrary: keys) (auto simp: and_then_Inr_iff option_context_Inr_iff)

context lakefs_service
begin

abbreviation "namespace_of \<equiv> (\<lambda>t. lc_storage_namespace (ls_config st) @ t @ ''/_lakefs/'')"

abbreviation "bucket \<equiv> td_bucket (ls_directory st)"

abbreviation "tenant_prefix \<equiv> (\<lambda>t. td_prefix (ls_directory st) @ t @ ''/'')"

text \<open>The marker lies in no repository, and what a tenant owns lies in no other tenant's repository.\<close>

lemma under_namespace:
  "under (namespace_of t') bucket (td_prefix (ls_directory st) @ k) \<longleftrightarrow> starts_with (t' @ ''/_lakefs/'') k"
  using coherent by (simp add: under_def coherent_store_def)

lemma marker_outside:
  assumes "valid_tenant t" "valid_tenant t'"
  shows "\<not> under (namespace_of t') bucket (td_prefix (ls_directory st) @ t @ ''/_registry/tenant.json'')"
proof
  assume "under (namespace_of t') bucket (td_prefix (ls_directory st) @ t @ ''/_registry/tenant.json'')"
  then obtain x where "t @ CHR ''/'' # ''_registry/tenant.json'' = t' @ CHR ''/'' # (''_lakefs/'' @ x)"
    unfolding under_namespace starts_with_iff by auto
  from no_slash_split [OF _ _ this] show False using assms tenant_no_slash by auto
qed

lemma others_outside:
  assumes "valid_tenant t" "valid_tenant t'" "starts_with (tenant_prefix t) k" "under (namespace_of t') bucket k"
  shows "t' = t"
proof -
  obtain y where k: "k = td_prefix (ls_directory st) @ t @ CHR ''/'' # y" using assms(3) by (auto simp: starts_with_iff)
  obtain x where "t @ CHR ''/'' # y = t' @ CHR ''/'' # (''_lakefs/'' @ x)"
    using assms(4) unfolding k under_namespace starts_with_iff by auto
  from no_slash_split [OF _ _ this] show ?thesis using assms(1,2) tenant_no_slash by auto
qed

lemma quiet_create:
  assumes "valid_tenant t"
  shows "keeps lvalid quiet (send sv (CreateRepository (repository_of sv st t) (namespace_of t) (lc_branch (ls_config st)) False))"
  unfolding keeps_def
proof (intro allI impI)
  fix s :: "'w lake_world" and res s'
  let ?r = "repository_of sv st t" and ?w = "lw_remote s"
  let ?fresh = "\<lambda>h. \<lparr>rp_namespace = namespace_of t, rp_head = h, rp_commits = Map.empty, rp_staged = Map.empty\<rparr>"
  assume valid: "lvalid s" and run: "send sv (CreateRepository ?r (namespace_of t) (lc_branch (ls_config st)) False) s = (res, s')"
  then obtain w where w: "sv_send sv (CreateRepository ?r (namespace_of t) (lc_branch (ls_config st)) False) ?w = (res, w)"
    "s' = s\<lparr>lw_remote := w\<rparr>" by (auto simp: send_def remote_run)
  have "ok ?w" using valid by (simp add: lake_valid_def)
  from create_repository [OF this w(1)] consider "ok w" "repositories w = repositories ?w"
    | h where "ok w" "repositories ?w ?r = None" "repositories w = (repositories ?w)(?r \<mapsto> ?fresh h)" by blast
  then show "lvalid s' \<and> lcommits s' = lcommits s"
  proof cases
    case 1
    then show ?thesis using valid by (simp add: w(2) lake_valid_def lake_commits_def fun_eq_iff)
  next
    case (2 h)
    have "lvalid s'" using valid assms 2 by (auto simp: w(2) lake_valid_def readable_def)
    moreover have "lcommits s' u c = lcommits s u c" for u c using 2 by (simp add: w(2) lake_commits_def)
    ultimately show ?thesis by (simp add: fun_eq_iff)
  qed
qed

lemma quiet_ensure_repository: "keeps lvalid quiet (ensure_repository sv st t)"
proof (cases "valid_tenant t")
  case True
  note create = quiet_create [OF True]
  have ns: "namespace_for_tenant st t = Inr (namespace_of t)" by (simp add: namespace_for_tenant_def True)
  show ?thesis unfolding ensure_repository_def repository_for [OF True] ns io_then_lift
    by (auto intro!: quiet_io(1,2) quiet_io(3) [OF create] quiet_io(3) [OF calm_quiet [OF calm_calls(1)]])
qed (simp add: ensure_repository_def repository_for_tenant_def lift_io_def bail_def keeps_def io_then_def)

lemma quiet_directory_write:
  assumes "valid_tenant t"
  shows "keeps lvalid quiet (directory_write sv (ls_directory st) (t @ ''/_registry/tenant.json'') payload)"
  unfolding keeps_def
proof (intro allI impI)
  fix s res s'
  assume valid: "lvalid s" and run: "directory_write sv (ls_directory st) (t @ ''/_registry/tenant.json'') payload s = (res, s')"
  let ?k = "td_prefix (ls_directory st) @ t @ ''/_registry/tenant.json''"
  show "lvalid s' \<and> lcommits s' = lcommits s"
  proof (cases "directory_key (ls_directory st) (t @ ''/_registry/tenant.json'')")
    case (Inl e)
    then show ?thesis using run valid by (simp add: directory_write_def lift_io_def)
  next
    case (Inr key)
    then have "key = ?k" by (simp add: directory_key_def ensure_Inr_iff)
    with run Inr obtain w where w: "sv_s3_put sv bucket ?k payload (lw_remote s) = (res, w)" "s' = s\<lparr>lw_remote := w\<rparr>"
      by (auto simp: directory_write_def remote_run)
    have "\<forall>r rp. repositories (lw_remote s) r = Some rp \<longrightarrow> \<not> under (rp_namespace rp) bucket ?k"
      using valid marker_outside [OF assms] unfolding lake_valid_def by metis
    moreover have "ok (lw_remote s)" using valid by (simp add: lake_valid_def)
    ultimately have "ok w \<and> repositories w = repositories (lw_remote s)" using s3_put w(1) by blast
    then show ?thesis using valid by (simp add: w(2) lake_valid_def lake_commits_def fun_eq_iff)
  qed
qed

lemma quiet_ensure_tenant: "keeps lvalid quiet (lake_ensure_tenant sv st t)"
proof (cases "valid_tenant t")
  case True
  have fresh: "keeps lvalid quiet (io_then (ensure_repository sv st t) (\<lambda>repository.
         io_then (branch_head sv st repository) (\<lambda>revision_id.
         let marker = \<lparr>tm_version = TENANT_MARKER_VERSION, tm_tenant_id = t, tm_repository = repository\<rparr> in
         io_then (lift_io (marker_key t)) (\<lambda>key.
         io_then (directory_write sv (ls_directory st) key (sv_to_vec sv (encode_tenant_marker marker))) (\<lambda>_.
         io_then (cache_insert t (Some marker)) (\<lambda>_.
         lift_io (Inr \<lparr>tn_revision_id = revision_id\<rparr>)))))))"
  proof (rule keeps_thenI [OF _ quiet_ensure_repository, where Q = "\<lambda>r. r = repository_of sv st t"])
    fix s r s1
    assume "ensure_repository sv st t s = (Inr r, s1)"
    then show "r = repository_of sv st t"
      by (auto simp: ensure_repository_def repository_for [OF True] io_simps split: if_splits)
  next
    fix r assume r: "r = repository_of sv st t"
    note insert = calm_cache(4) [of t, unfolded marker_for_def]
    show "keeps lvalid quiet (io_then (branch_head sv st r) (\<lambda>revision_id.
         let marker = \<lparr>tm_version = TENANT_MARKER_VERSION, tm_tenant_id = t, tm_repository = r\<rparr> in
         io_then (lift_io (marker_key t)) (\<lambda>key.
         io_then (directory_write sv (ls_directory st) key (sv_to_vec sv (encode_tenant_marker marker))) (\<lambda>_.
         io_then (cache_insert t (Some marker)) (\<lambda>_.
         lift_io (Inr \<lparr>tn_revision_id = revision_id\<rparr>))))))"
      unfolding r Let_def marker_key_def
      by (simp add: True, intro quiet_io calm_quiet [OF calm_branch_head] calm_quiet [OF insert])
        (use quiet_directory_write [OF True] in simp)
  qed auto
  show ?thesis unfolding lake_ensure_tenant_def
    by (auto intro!: quiet_io fresh calm_quiet [OF calm_tenant_lock] calm_quiet [OF calm_find_marker]
        calm_quiet [OF calm_branch_head] split: option.split)
qed (simp add: lake_ensure_tenant_def quiet_io)

end

section \<open>Erasure\<close>

context lakefs_service
begin

text \<open>A round of the purge: the listed objects go, and no repository of another tenant is touched.\<close>

lemma purge_delete:
  assumes "lvalid s" "valid_tenant t" "repositories (lw_remote s) (repository_of sv st t) = None"
    and "\<forall>k \<in> set keys. starts_with (tenant_prefix t) k" "sv_s3_delete sv bucket keys (lw_remote s) = (res, w)"
  shows "lvalid (s\<lparr>lw_remote := w\<rparr>) \<and> repositories w = repositories (lw_remote s) \<and>
    (\<exists>gone \<subseteq> set keys. objects w = objects (lw_remote s) |` (- gone) \<and> (res = Inr [] \<longrightarrow> gone = set keys))"
proof -
  have "\<not> under (rp_namespace rp) bucket k" if k: "k \<in> set keys" and rp: "repositories (lw_remote s) r = Some rp" for k r rp
  proof
    assume "under (rp_namespace rp) bucket k"
    moreover obtain t' where "valid_tenant t'" "r = repository_of sv st t'" "rp_namespace rp = namespace_of t'"
      using assms(1) rp unfolding lake_valid_def by blast
    ultimately show False using others_outside [OF assms(2)] assms(3,4) k rp by fastforce
  qed
  moreover have "ok (lw_remote s)" using assms(1) by (simp add: lake_valid_def)
  ultimately have "ok w \<and> repositories w = repositories (lw_remote s) \<and>
    (\<exists>gone \<subseteq> set keys. objects w = objects (lw_remote s) |` (- gone) \<and> (res = Inr [] \<longrightarrow> gone = set keys))"
    using s3_delete [OF _ assms(5)] by blast
  then show ?thesis using assms(1) by (simp add: lake_valid_def)
qed

lemma purge_loop_facts:
  assumes "purge_loop n sv bucket (tenant_prefix t) s = (res, s')" "lvalid s" "valid_tenant t"
    and "repositories (lw_remote s) (repository_of sv st t) = None"
  shows "lvalid s' \<and> repositories (lw_remote s') = repositories (lw_remote s) \<and> lw_cache s' = lw_cache s \<and>
    (\<forall>k. \<not> starts_with (tenant_prefix t) k \<longrightarrow> objects (lw_remote s') k = objects (lw_remote s) k) \<and>
    (res = Inr () \<longrightarrow> (\<forall>k. starts_with (tenant_prefix t) k \<longrightarrow> objects (lw_remote s') k = None))"
  using assms
proof (induction n arbitrary: s)
  case 0
  then show ?case by (auto simp: lift_io_def)
next
  case (Suc n)
  let ?w = "lw_remote s"
  obtain listing w where w: "sv_s3_list sv bucket (tenant_prefix t) ?w = (listing, w)" by fastforce
  have "ok ?w" using Suc.prems(2) by (simp add: lake_valid_def)
  note listed = s3_list [OF this w]
  let ?s1 = "s\<lparr>lw_remote := w\<rparr>"
  have s1: "lvalid ?s1" using Suc.prems(2) listed by (simp add: lake_valid_def)
  have list_run: "remote (sv_s3_list sv bucket (tenant_prefix t)) s = (listing, ?s1)" using w by (simp add: remote_run)
  show ?case
  proof (cases listing)
    case (Inl e)
    then show ?thesis using Suc.prems(1) list_run listed s1 by (auto simp: io_then_def)
  next
    case (Inr contents)
    note run = Suc.prems(1) [unfolded purge_loop.simps io_then_run(1) [of "remote (sv_s3_list sv bucket (tenant_prefix t))" s contents ?s1, OF list_run [unfolded Inr]]]
    show ?thesis
    proof (cases "contents = [] \<or> (\<exists>e. try_map (option_context ''S3 returned an object without a key'') contents = Inl e)")
      case True
      then have "s' = ?s1 \<and> (res = Inr () \<longrightarrow> contents = [])" using run by (cases "contents = []") (auto simp: lift_io_def)
      then show ?thesis using Inr listed s1 by auto
    next
      case False
      then obtain keys where keys: "contents \<noteq> []" "try_map (option_context ''S3 returned an object without a key'') contents = Inr keys"
        by (cases "try_map (option_context ''S3 returned an object without a key'') contents") auto
      have pfx: "\<forall>k \<in> set keys. starts_with (tenant_prefix t) k" using listed Inr all_keys [OF keys(2)] by auto
      obtain errors w2 where del: "sv_s3_delete sv bucket keys w = (errors, w2)" by fastforce
      from purge_delete [OF s1 Suc.prems(3) _ pfx] del Suc.prems(4) listed obtain gone where
        s2: "lvalid (s\<lparr>lw_remote := w2\<rparr>)" "repositories w2 = repositories ?w" "gone \<subseteq> set keys"
        "objects w2 = objects ?w |` (- gone)" by auto
      let ?s2 = "s\<lparr>lw_remote := w2\<rparr>"
      have del_run: "remote (sv_s3_delete sv bucket keys) ?s1 = (errors, ?s2)" using del by (simp add: remote_run)
      have elsewhere: "objects w2 k = objects ?w k" if "\<not> starts_with (tenant_prefix t) k" for k
        using that s2(3,4) pfx by (auto simp: restrict_map_def)
      consider (fail) "isl res" "s' = ?s2" | (next_round) "purge_loop n sv bucket (tenant_prefix t) ?s2 = (res, s')"
        using run keys del_run by (cases errors) (auto simp: io_then_def io_ensure_def bail_def lift_io_def split: if_splits)
      then show ?thesis
      proof cases
        case fail
        then show ?thesis using s2 elsewhere by auto
      next
        case next_round
        from Suc.IH [OF this s2(1) Suc.prems(3)] s2(2) Suc.prems(4) elsewhere show ?thesis by auto
      qed
    qed
  qed
qed

text \<open>Erasing a tenant, whatever it answers.\<close>

lemma delete_repository_step:
  assumes "Lakefs_Store.delete_repository sv r s = (res, s')" "lvalid s"
  shows "lvalid s'" "lw_cache s' = lw_cache s" "objects (lw_remote s') = objects (lw_remote s)"
    "repositories (lw_remote s') = repositories (lw_remote s) \<or>
     repositories (lw_remote s') = (repositories (lw_remote s))(r := None)"
    "res = Inr () \<Longrightarrow> repositories (lw_remote s') r = None"
proof -
  obtain answer w where w: "sv_send sv (DeleteRepository r) (lw_remote s) = (answer, w)" by fastforce
  have s': "s' = s\<lparr>lw_remote := w\<rparr>"
    and res: "res = Inr () \<Longrightarrow> \<exists>response. answer = Inr response \<and> (is_success response \<or> hr_status response = NOT_FOUND)"
    using assms(1) w
    by (cases answer, auto simp: delete_repository_def send_def remote_def io_then_def io_ensure_def lift_io_def split: if_splits)+
  have "ok (lw_remote s)" using assms(2) by (simp add: lake_valid_def)
  note law = delete_repository [OF this w]
  show "lvalid s'" using law assms(2) by (auto simp: s' lake_valid_def split: if_splits)
  show "lw_cache s' = lw_cache s" "objects (lw_remote s') = objects (lw_remote s)"
    "repositories (lw_remote s') = repositories (lw_remote s) \<or>
     repositories (lw_remote s') = (repositories (lw_remote s))(r := None)" using law by (simp_all add: s')
  show "res = Inr () \<Longrightarrow> repositories (lw_remote s') r = None" using law res by (auto simp: s')
qed

lemma lcommits_drop:
  assumes "valid_tenant t" "repositories (lw_remote s') = (repositories (lw_remote s))(repository_of sv st t := None)"
  shows "lcommits s' = (lcommits s)(t := Map.empty)"
  using assms repository_of_inject [of _ t] by (auto simp: lake_commits_def fun_eq_iff)

lemma lake_delete_facts:
  assumes "lake_delete_tenant n sv st t s = (res, s')" "lvalid s"
  shows "lvalid s' \<and> (lcommits s' = lcommits s \<or> lcommits s' = (lcommits s)(t := Map.empty))" (is ?keeps)
    and "res = Inr () \<Longrightarrow> repositories (lw_remote s') = (repositories (lw_remote s))(repository_of sv st t := None) \<and>
      (\<forall>k. objects (lw_remote s') k = (if starts_with (tenant_prefix t) k then None else objects (lw_remote s) k)) \<and>
      bt_get (lw_cache s') t = None" (is "_ \<Longrightarrow> ?gone")
proof -
  obtain early s1 where early: "io_then (tenant_lock sv t) (\<lambda>_. require_tenant sv st t) s = (early, s1)" by fastforce
  have "keeps lvalid calm (io_then (tenant_lock sv t) (\<lambda>_. require_tenant sv st t))"
    by (intro calm_io calm_tenant_lock calm_require_tenant)
  note s1 = keepsD [OF this assms(2) early]
  have "?keeps \<and> (res = Inr () \<longrightarrow> ?gone)"
  proof (cases "valid_tenant t \<and> (\<exists>m. early = Inr m)")
    case False
    then have "isl res \<and> lvalid s' \<and> calm s s'" using assms early s1
      by (cases early) (auto simp: lake_delete_tenant_def io_ensure_def io_then_def lift_io_def bail_def split: prod.splits sum.splits if_splits)
    then show ?thesis by (auto simp: lake_commits_def fun_eq_iff)
  next
    case True
    then obtain m where t: "valid_tenant t" and m: "early = Inr m" by blast
    from early m obtain s0 where lock: "tenant_lock sv t s = (Inr (), s0)" and marker: "require_tenant sv st t s0 = (Inr m, s1)"
      by (auto simp: io_simps)
    have "lvalid s0" using keepsD [OF calm_tenant_lock assms(2) lock] by blast
    from require_tenant_Inr [OF this marker] have repo: "tm_repository m = repository_of sv st t" by (simp add: marker_for_def)
    obtain deleted s2 where del: "Lakefs_Store.delete_repository sv (repository_of sv st t) s1 = (deleted, s2)" by fastforce
    note s2 = delete_repository_step [OF del conjunct1 [OF s1]]
    have drop2: "lcommits s2 = lcommits s1 \<or> lcommits s2 = (lcommits s1)(t := Map.empty)"
      using s2(4) lcommits_drop [OF t, of s2 s1] lcommits_same [of s2 s1] by blast
    have quiet1: "lcommits s1 = lcommits s" using s1 lcommits_same [of s1 s] by blast
    show ?thesis
    proof (cases deleted)
      case (Inl e)
      then have "isl res \<and> s' = s2" using assms(1) lock marker del repo t by (auto simp: lake_delete_tenant_def)
      then show ?thesis using s2(1) drop2 quiet1 by auto
    next
      case (Inr u)
      with s2(5) have gone: "repositories (lw_remote s2) (repository_of sv st t) = None" by simp
      obtain purged s3 where purge: "purge_prefix n sv (ls_directory st) (t @ ''/'') s2 = (purged, s3)" by fastforce
      have run: "res = purged \<and> (isl purged \<longrightarrow> s' = s3) \<and>
          (purged = Inr () \<longrightarrow> s' = s3\<lparr>lw_cache := bt_remove t (lw_cache s3)\<rparr>)"
        using assms(1) lock marker del repo t Inr purge
        by (cases purged) (auto simp: lake_delete_tenant_def cache_invalidate_def)
      have s3: "lvalid s3 \<and> repositories (lw_remote s3) = repositories (lw_remote s2) \<and> lw_cache s3 = lw_cache s2 \<and>
        (\<forall>k. \<not> starts_with (tenant_prefix t) k \<longrightarrow> objects (lw_remote s3) k = objects (lw_remote s2) k) \<and>
        (purged = Inr () \<longrightarrow> (\<forall>k. starts_with (tenant_prefix t) k \<longrightarrow> objects (lw_remote s3) k = None))"
      proof (cases "directory_key (ls_directory st) (t @ ''/'')")
        case (Inl e)
        then show ?thesis using purge s2(1) by (auto simp: purge_prefix_def lift_io_def)
      next
        case (Inr key)
        then have "key = tenant_prefix t" by (simp add: directory_key_def ensure_Inr_iff)
        then show ?thesis using purge Inr purge_loop_facts [OF _ s2(1) t gone] by (simp add: purge_prefix_def)
      qed
      have "lcommits s' = lcommits s2" using run s3 by (cases purged) (auto simp: lake_commits_def fun_eq_iff)
      moreover have "lvalid s'" using run s3 by (cases purged) (auto simp: lake_valid_def)
      moreover have "repositories (lw_remote s2) = (repositories (lw_remote s))(repository_of sv st t := None)"
        using s2(4) gone s1 by (auto simp: fun_eq_iff)
      ultimately show ?thesis using drop2 quiet1 run s3 s2(3) s1 by auto
    qed
  qed
  then show ?keeps "res = Inr () \<Longrightarrow> ?gone" by blast+
qed

end

section \<open>Committing\<close>

context lakefs_service
begin

text \<open>Staging changes no commit, and a staged path holds its payload.\<close>

lemma stage_step:
  assumes "stage_artifact sv st r path doc s = (res, s')" "lvalid s"
  shows "lvalid s' \<and> lw_cache s' = lw_cache s \<and>
    (repositories (lw_remote s') = repositories (lw_remote s) \<and> isl res \<or>
     (\<exists>rp. repositories (lw_remote s) r = Some rp \<and>
        repositories (lw_remote s') = (repositories (lw_remote s))(r \<mapsto> stage path (sv_to_vec sv doc) rp)))"
proof (cases "length (sv_to_vec sv doc) \<le> MAX_STATE_BYTES")
  case True
  let ?call = "PutObject r (lc_branch (ls_config st)) path (sv_to_vec sv doc)"
  obtain answer w where w: "sv_send sv ?call (lw_remote s) = (answer, w)" by fastforce
  have s': "s' = s\<lparr>lw_remote := w\<rparr>" and res: "\<not> isl res \<Longrightarrow> \<exists>response. answer = Inr response \<and> is_success response"
    using assms(1) w True
    by (cases answer, auto simp: stage_artifact_def send_def remote_def io_then_def io_ensure_def lift_io_def bail_def Let_def
        split: if_splits)+
  have "ok (lw_remote s)" using assms(2) by (simp add: lake_valid_def)
  from put_object [OF this w] show ?thesis
  proof (elim conjE disjE exE)
    assume "ok w" "repositories w = repositories (lw_remote s)" "\<forall>response. answer = Inr response \<longrightarrow> \<not> is_success response"
    then show ?thesis using res assms(2) by (auto simp: s' lake_valid_def)
  next
    fix rp
    assume "ok w" "repositories (lw_remote s) r = Some rp"
      "repositories w = (repositories (lw_remote s))(r \<mapsto> stage path (sv_to_vec sv doc) rp)"
    then show ?thesis using assms(2) by (auto simp: s' lake_valid_def stage_def readable_def)
  qed
qed (use assms in \<open>auto simp: stage_artifact_def lift_io_def bail_def Let_def\<close>)

lemma lcommits_stage:
  assumes "repositories (lw_remote s) r = Some rp" "repositories (lw_remote s') = (repositories (lw_remote s))(r \<mapsto> stage path x rp)"
  shows "lcommits s' = lcommits s"
  using assms by (auto simp: lake_commits_def stage_def fun_eq_iff)

lemma quiet_stage: "keeps lvalid quiet (stage_artifact sv st r path doc)"
  unfolding keeps_def
proof (intro allI impI)
  fix s :: "'w lake_world" and res s'
  assume "lvalid s" "stage_artifact sv st r path doc s = (res, s')"
  from stage_step [OF this(2,1)] show "lvalid s' \<and> lcommits s' = lcommits s"
    using lcommits_stage [of s r _ s'] lcommits_same [of s' s] by blast
qed

text \<open>The commit call, on a branch where both artifacts of a state are staged.\<close>

lemma commit_step:
  assumes "lvalid s" "valid_tenant t" "repositories (lw_remote s) (repository_of sv st t) = Some rp"
    and "wf_tenant_state ts" "rp_staged rp PIPELINE_STATE_PATH = Some (fst (artifacts sv ts))"
    and "rp_staged rp ONTOLOGY_STATE_PATH = Some (snd (artifacts sv ts))"
    and "send sv (CreateCommit (repository_of sv st t) (lc_branch (ls_config st)) msg author d) s = (res, s')"
  shows "lvalid s' \<and> (lcommits s' = lcommits s \<and> (\<forall>response. res = Inr response \<longrightarrow> \<not> is_success response) \<or>
    (\<exists>c. lcommits s t c = None \<and> lcommits s' = (lcommits s)(t := (lcommits s t)(c \<mapsto> (rp_head rp, ts))) \<and>
      (\<exists>rp'. repositories (lw_remote s') (repository_of sv st t) = Some rp' \<and> rp_head rp' = c) \<and>
      (\<forall>response v. res = Inr response \<longrightarrow> is_success response \<longrightarrow> reply sv ''id'' response = Inr v \<longrightarrow> v = c)))"
proof -
  let ?r = "repository_of sv st t"
  obtain w where w: "sv_send sv (CreateCommit ?r (lc_branch (ls_config st)) msg author d) (lw_remote s) = (res, w)"
    "s' = s\<lparr>lw_remote := w\<rparr>" using assms(7) by (auto simp: send_def remote_run)
  have "ok (lw_remote s)" using assms(1) by (simp add: lake_valid_def)
  from create_commit [OF this w(1)] assms(3) consider
      (same) "ok w" "repositories w = repositories (lw_remote s)" "\<forall>response. res = Inr response \<longrightarrow> \<not> is_success response"
    | (new) c where "ok w" "rp_commits rp c = None" "repositories w = (repositories (lw_remote s))(?r \<mapsto> record_commit c rp)"
      "\<forall>response v. res = Inr response \<longrightarrow> is_success response \<longrightarrow> reply sv ''id'' response = Inr v \<longrightarrow> v = c"
    by auto
  then show ?thesis
  proof cases
    case same
    then show ?thesis using assms(1) by (auto simp: w(2) lake_valid_def lake_commits_def fun_eq_iff)
  next
    case (new c)
    let ?objs = "head_objects rp ++ rp_staged rp"
    have objs: "?objs PIPELINE_STATE_PATH = Some (fst (artifacts sv ts))" "?objs ONTOLOGY_STATE_PATH = Some (snd (artifacts sv ts))"
      using assms(5,6) by (simp_all add: map_add_Some_iff)
    have "readable sv (record_commit c rp)"
      using assms(1,3,4) objs unfolding lake_valid_def readable_def record_commit_def by auto
    then have "lvalid s'" using assms(1,3) new by (auto simp: w(2) lake_valid_def record_commit_def)
    moreover have "lcommits s t c = None" using new(2) assms(2,3) by (simp add: lake_commits_def)
    moreover have "lcommits s' u x = ((lcommits s)(t := (lcommits s t)(c \<mapsto> (rp_head rp, ts)))) u x" for u x
      using assms(2,3) new(3) stored_state_artifacts [of ts ?objs, OF assms(4) objs] repository_of_inject [of u t]
      by (auto simp: w(2) lake_commits_def record_commit_def)
    ultimately show ?thesis using new(3,4) by (auto simp: w(2) fun_eq_iff record_commit_def)
  qed
qed

end

definition lake_outcome ::
  "'w services \<Rightarrow> lakefs_store \<Rightarrow> ('w \<Rightarrow> bool) \<Rightarrow> ('w \<Rightarrow> string \<rightharpoonup> repository) \<Rightarrow> 'w lake_world \<Rightarrow> string \<Rightarrow> string \<Rightarrow>
    tenant_state \<Rightarrow> string result \<Rightarrow> 'w lake_world \<Rightarrow> bool" where
  "lake_outcome sv st ok repositories s t e ts res s' \<longleftrightarrow> lake_valid sv st ok repositories s' \<and>
     (let before = lake_commits sv st repositories s; now = lake_commits sv st repositories s' in
      now = before \<and> isl res \<or>
      (\<exists>c. before t c = None \<and> now = before(t := (before t)(c \<mapsto> (e, ts))) \<and>
        (\<exists>rp. repositories (lw_remote s') (repository_of sv st t) = Some rp \<and> rp_head rp = c) \<and>
        (\<forall>x. res = Inr x \<longrightarrow> x = c)))"

text \<open>Every way in which a computation ends.\<close>

definition ends :: "('a result \<Rightarrow> 's \<Rightarrow> bool) \<Rightarrow> ('s, 'a) io \<Rightarrow> 's \<Rightarrow> bool" where
  "ends P m s \<longleftrightarrow> (\<forall>res s'. m s = (res, s') \<longrightarrow> P res s')"

lemma ends_then:
  "(\<And>e s1. m s = (Inl e, s1) \<Longrightarrow> P (Inl e) s1) \<Longrightarrow> (\<And>x s1. m s = (Inr x, s1) \<Longrightarrow> ends P (f x) s1) \<Longrightarrow>
    ends P (io_then m f) s"
  by (auto simp: ends_def io_then_def split: prod.splits sum.splits)

lemma ends_ensure: "(\<not> c \<Longrightarrow> P (bail msg) s) \<Longrightarrow> (c \<Longrightarrow> ends P k s) \<Longrightarrow> ends P (io_ensure c msg k) s"
  by (simp add: ends_def io_ensure_def)

lemma ends_lift: "P r s \<Longrightarrow> ends P (lift_io r) s"
  by (simp add: ends_def lift_io_def)

context lakefs_service
begin

text \<open>A commit, whatever it answers: nothing, or one revision on the head that was expected.\<close>

abbreviation "outcome \<equiv> lake_outcome sv st ok repositories"

lemma outcome_fail:
  assumes "lvalid u \<and> lcommits u = lcommits s"
  shows "outcome s t e ts (Inl x) u" "outcome s t e ts (bail y) u"
  using assms by (simp_all add: lake_outcome_def bail_def)

lemma outcome_then:
  assumes "lvalid u \<and> lcommits u = lcommits s" "keeps lvalid quiet m"
    and "\<And>x u'. m u = (Inr x, u') \<Longrightarrow> lvalid u' \<and> lcommits u' = lcommits s \<Longrightarrow> ends (outcome s t e ts) (f x) u'"
  shows "ends (outcome s t e ts) (io_then m f) u"
proof (rule ends_then)
  fix x u' assume "m u = (Inl x, u')"
  from keepsD [OF assms(2) conjunct1 [OF assms(1)] this] assms(1) show "outcome s t e ts (Inl x) u'" by (simp add: outcome_fail)
next
  fix x u' assume "m u = (Inr x, u')"
  from keepsD [OF assms(2) conjunct1 [OF assms(1)] this] assms(1) show "ends (outcome s t e ts) (f x) u'"
    by (intro assms(3) [OF \<open>m u = (Inr x, u')\<close>]) simp
qed

lemma outcome_post:
  assumes "lvalid s5 \<and> lcommits s5 = lcommits s" "wf_tenant_state ts" "require_tenant sv st t s1 = (Inr m, s2)"
    and "branch_head sv st (tm_repository m) s2 = (Inr h, s3)" "h = e"
    and "stage_artifact sv st (tm_repository m) PIPELINE_STATE_PATH (encode_pipeline_state
       \<lparr>ps_pipelines = ts_pipelines ts, ps_bindings = ts_bindings ts\<rparr>) s3 = (Inr u1, s4)"
    and "stage_artifact sv st (tm_repository m) ONTOLOGY_STATE_PATH (encode_ontology_state
       \<lparr>os_ontologies = ts_ontologies ts\<rparr>) s4 = (Inr u2, s5)"
    and valid: "lvalid s1" "lvalid s2" "lvalid s3" "lvalid s4"
  shows "ends (outcome s t e ts)
    (io_then (send sv (CreateCommit (tm_repository m) (lc_branch (ls_config st)) msg author (tm_repository m))) (\<lambda>response.
      io_ensure (\<not> (hr_status response = PRECONDITION_FAILED \<or> hr_status response = CONFLICT)) ''registry revision changed'' (
      io_ensure (is_success response) ''lakeFS commit failed'' (
      io_then (lift_io (reply sv ''id'' response)) (\<lambda>revision.
      io_ensure (valid_revision revision) ''lakeFS returned invalid commit ID'' (
      lift_io (Inr revision))))))) s5"
proof -
  let ?r = "repository_of sv st t"
  from require_tenant_Inr [OF valid(1) assms(3)] have t: "valid_tenant t" and m: "tm_repository m = ?r"
    by (simp_all add: marker_for_def)
  obtain rp where rp: "repositories (lw_remote s3) ?r = Some rp" "rp_head rp = e"
    using branch_head_Inr [OF valid(2) assms(4)] keepsD [OF calm_branch_head valid(2) assms(4)] assms(5) by (auto simp: m)
  have paths: "PIPELINE_STATE_PATH \<noteq> ONTOLOGY_STATE_PATH" by (simp add: PIPELINE_STATE_PATH_def ONTOLOGY_STATE_PATH_def)
  have "repositories (lw_remote s5) ?r = Some (stage ONTOLOGY_STATE_PATH (snd (artifacts sv ts))
      (stage PIPELINE_STATE_PATH (fst (artifacts sv ts)) rp))"
    using stage_step [OF assms(6) valid(3)] stage_step [OF assms(7) valid(4)] rp(1)
    by (auto simp: m artifacts_def pipeline_part_def ontology_part_def)
  then obtain rp5 where rp5: "repositories (lw_remote s5) ?r = Some rp5" "rp_head rp5 = e"
    "rp_staged rp5 PIPELINE_STATE_PATH = Some (fst (artifacts sv ts))" "rp_staged rp5 ONTOLOGY_STATE_PATH = Some (snd (artifacts sv ts))"
    using rp(2) paths by (simp add: stage_def)
  note call = commit_step [OF conjunct1 [OF assms(1)] t rp5(1) assms(2) rp5(3,4), unfolded rp5(2)]
  show ?thesis unfolding m
  proof (rule ends_then)
    fix err s6
    assume "send sv (CreateCommit ?r (lc_branch (ls_config st)) msg author ?r) s5 = (Inl err, s6)"
    from call [OF this] assms(1) show "outcome s t e ts (Inl err) s6" by (auto simp: lake_outcome_def)
  next
    fix response s6
    assume "send sv (CreateCommit ?r (lc_branch (ls_config st)) msg author ?r) s5 = (Inr response, s6)"
    note facts = call [OF this, unfolded conjunct2 [OF assms(1)]]
    have always: "outcome s t e ts (Inl x) s6" for x using facts by (auto simp: lake_outcome_def)
    have good: "outcome s t e ts (Inr v) s6" if "is_success response" "reply sv ''id'' response = Inr v" for v
      using facts that by (auto simp: lake_outcome_def)
    show "ends (outcome s t e ts)
      (io_ensure (\<not> (hr_status response = PRECONDITION_FAILED \<or> hr_status response = CONFLICT)) ''registry revision changed'' (
      io_ensure (is_success response) ''lakeFS commit failed'' (
      io_then (lift_io (reply sv ''id'' response)) (\<lambda>revision.
      io_ensure (valid_revision revision) ''lakeFS returned invalid commit ID'' (
      lift_io (Inr revision)))))) s6"
      using always good
      by (cases "reply sv ''id'' response") (auto intro!: ends_ensure ends_lift simp: bail_def)
  qed
qed

lemma lake_commit_outcome:
  assumes "lvalid s" "wf_tenant_state ts"
  shows "ends (outcome s t e ts) (lake_commit sv st t e ts author msg) s"
  unfolding lake_commit_def Let_def
  by (intro ends_ensure outcome_fail(2) outcome_then [OF _ calm_quiet [OF calm_tenant_lock]]
      outcome_then [OF _ calm_quiet [OF calm_require_tenant]] outcome_then [OF _ calm_quiet [OF calm_branch_head]]
      outcome_then [OF _ quiet_stage])
    (assumption | rule conjI [OF assms(1) refl] | (rule outcome_post; (assumption | rule assms(2) | erule conjunct1)))+

end

section \<open>The contract holds\<close>

lemma lakefs_platform_sel [simp]:
  "rs_tenant_exists (lakefs_platform n sv st) = lake_tenant_exists sv st"
  "rs_ensure_tenant (lakefs_platform n sv st) = lake_ensure_tenant sv st"
  "rs_delete_tenant (lakefs_platform n sv st) = lake_delete_tenant n sv st"
  "rs_load (lakefs_platform n sv st) = lake_load sv st"
  "rs_commit (lakefs_platform n sv st) = lake_commit sv st"
  "pl_now (lakefs_platform n sv st) s = sv_now sv (lw_remote s)"
  "pl_to_vec (lakefs_platform n sv st) = sv_to_vec sv"
  "pl_sha256_hex (lakefs_platform n sv st) = sv_sha256_hex sv"
  by (simp_all add: lakefs_platform_def)

context lakefs_service
begin

lemma quiet_extends: "keeps lvalid quiet m \<Longrightarrow> keeps lvalid (extends lcommits) m"
  by (fastforce simp: keeps_def extends_def)

lemma lake_commit_result:
  assumes "lvalid s" "wf_tenant_state ts" "lake_commit sv st t e ts author msg s = (res, s')"
  shows "outcome s t e ts res s'"
  using lake_commit_outcome [OF assms(1,2)] assms(3) unfolding ends_def by blast

end

sublocale lakefs_service \<subseteq> lake: quiet_store "lakefs_platform n sv st" "lake_valid sv st ok repositories"
  "lake_commits sv st repositories" for n
proof (unfold_locales, goal_cases)
  case (1 t)
  show ?case using quiet_extends [OF calm_quiet [OF calm_exists]] by simp
next
  case (2 t)
  show ?case using quiet_extends [OF quiet_ensure_tenant] by simp
next
  case (3 t pin)
  show ?case using quiet_extends [OF calm_quiet [OF calm_load]] by simp
next
  case (4 ts t e a m)
  show ?case unfolding keeps_def using lake_commit_result [OF _ 4]
    by (fastforce simp: lake_outcome_def extends_def map_le_def Let_def)
next
  case (5 s t pin sn s')
  then show ?case using lake_load_Inr [of s t pin sn s'] by auto
next
  case (6 s ts t e a m r s')
  then show ?case using lake_commit_result [of s ts t e a m "Inr r" s'] by (auto simp: lake_outcome_def Let_def)
next
  case (7 s)
  show ?case by (simp add: service_clock)
next
  case (8 s t res s')
  then show ?case using keepsD [OF calm_quiet [OF calm_exists]] by (metis lakefs_platform_sel(1))
next
  case (9 s t res s')
  then show ?case using keepsD [OF quiet_ensure_tenant] by (metis lakefs_platform_sel(2))
next
  case (10 s t pin res s')
  then show ?case using keepsD [OF calm_quiet [OF calm_load]] by (metis lakefs_platform_sel(4))
next
  case (11 s ts t e a m res s')
  then show ?case using lake_commit_result [of s ts t e a m res s'] by (auto simp: lake_outcome_def Let_def)
next
  case (12 s t res s')
  then show ?case using lake_delete_facts(1) by (metis lakefs_platform_sel(3))
qed

section \<open>What the store adds to the contract\<close>

context lakefs_service
begin

text \<open>Enough rounds of the purge are all the same: each one removes an object that it has listed.\<close>

lemma purge_rounds:
  assumes "lvalid s" "valid_tenant t" "repositories (lw_remote s) (repository_of sv st t) = None"
    and "card {k. starts_with (tenant_prefix t) k \<and> objects (lw_remote s) k \<noteq> None} < n" "n \<le> m"
  shows "purge_loop n sv bucket (tenant_prefix t) s = purge_loop m sv bucket (tenant_prefix t) s"
  using assms
proof (induction n arbitrary: m s)
  case (Suc n)
  let ?left = "\<lambda>w. {k. starts_with (tenant_prefix t) k \<and> objects w k \<noteq> None}"
  obtain m' where m: "m = Suc m'" "n \<le> m'" using Suc.prems(5) by (cases m) auto
  obtain listing w where w: "sv_s3_list sv bucket (tenant_prefix t) (lw_remote s) = (listing, w)" by fastforce
  have ok: "ok (lw_remote s)" using Suc.prems(1) by (simp add: lake_valid_def)
  note listed = s3_list [OF ok w]
  let ?s1 = "s\<lparr>lw_remote := w\<rparr>"
  have s1: "lvalid ?s1" using Suc.prems(1) listed by (simp add: lake_valid_def)
  have later: "purge_loop n sv bucket (tenant_prefix t) (s\<lparr>lw_remote := w2\<rparr>) =
      purge_loop m' sv bucket (tenant_prefix t) (s\<lparr>lw_remote := w2\<rparr>)"
    if keys: "listing = Inr (map Some keys)" "keys \<noteq> []" and del: "sv_s3_delete sv bucket keys w = (Inr [], w2)" for keys w2
  proof -
    have pfx: "\<forall>k \<in> set keys. starts_with (tenant_prefix t) k \<and> objects (lw_remote s) k \<noteq> None" using listed keys by auto
    from purge_delete [OF s1 Suc.prems(2), of keys "Inr []" w2] pfx del Suc.prems(3) listed have
      s2: "lvalid (s\<lparr>lw_remote := w2\<rparr>)" "repositories w2 = repositories (lw_remote s)"
        "objects w2 = objects (lw_remote s) |` (- set keys)" by auto
    have "finite (?left (lw_remote s))" by (rule finite_subset [OF _ finite_objects [OF ok]]) auto
    moreover have "hd keys \<in> ?left (lw_remote s)" "hd keys \<notin> ?left w2" "?left w2 \<subseteq> ?left (lw_remote s)"
      using pfx keys(2) s2(3) by (auto simp: restrict_map_def split: if_splits)
    ultimately have "card (?left w2) < card (?left (lw_remote s))" by (intro psubset_card_mono psubsetI) blast+
    then show ?thesis using s2(1,2) Suc.prems(2,3,4) m(2) by (intro Suc.IH) auto
  qed
  have step: "io_then (remote (sv_s3_delete sv bucket keys)) (\<lambda>errors.
      io_ensure (errors = []) ''S3 tenant object purge failed'' (purge_loop n sv bucket (tenant_prefix t))) ?s1 =
    io_then (remote (sv_s3_delete sv bucket keys)) (\<lambda>errors.
      io_ensure (errors = []) ''S3 tenant object purge failed'' (purge_loop m' sv bucket (tenant_prefix t))) ?s1"
    if "listing = Inr (map Some keys)" "keys \<noteq> []" for keys
    using later [OF that] by (auto simp: io_then_def io_ensure_def remote_def split: prod.split sum.split)
  show ?case
  proof (cases listing)
    case (Inr contents)
    have "purge_loop (Suc n) sv bucket (tenant_prefix t) s = purge_loop (Suc m') sv bucket (tenant_prefix t) s"
    proof (cases "contents = [] \<or> (\<exists>x. try_map (option_context ''S3 returned an object without a key'') contents = Inl x)")
      case True
      then show ?thesis using w Inr by (auto simp: io_then_def remote_def lift_io_def)
    next
      case False
      then obtain keys where "try_map (option_context ''S3 returned an object without a key'') contents = Inr keys"
        by (cases "try_map (option_context ''S3 returned an object without a key'') contents") auto
      with all_keys [OF this] step [of keys] False w Inr show ?thesis
        by (simp add: io_then_def [of "remote (sv_s3_list sv bucket (tenant_prefix t))"] remote_def [of "sv_s3_list sv bucket (tenant_prefix t)"])
    qed
    then show ?thesis by (simp add: m(1))
  qed (use w in \<open>simp add: m(1) io_then_def remote_def\<close>)
qed simp

text \<open>A state nested deeper than the reader allows is committed, and can then no longer be read.\<close>

lemma deep_unreadable:
  assumes "lvalid u" "valid_tenant t" "lcommits u t c = Some (p, ts)" "wf_tenant_state ts"
    and "PARSE_DEPTH \<le> json_depth (encode_pipeline_state (pipeline_part ts))"
  shows "isl (fst (read_state sv (repository_of sv st t) c u))"
proof (rule ccontr)
  assume "\<not> isl (fst (read_state sv (repository_of sv st t) c u))"
  then obtain x u' where read: "read_state sv (repository_of sv st t) c u = (Inr x, u')"
    by (rule succeeds)
  from assms(2,3) obtain rp objs where rp: "repositories (lw_remote u) (repository_of sv st t) = Some rp"
    "rp_commits rp c = Some (p, objs)" "stored_state sv objs = Some ts"
    by (auto simp: lake_commits_def bind_eq_Some_conv)
  from assms(1) rp obtain ts0 where ts0: "wf_tenant_state ts0" "objs PIPELINE_STATE_PATH = Some (fst (artifacts sv ts0))"
    "objs ONTOLOGY_STATE_PATH = Some (snd (artifacts sv ts0))"
    unfolding lake_valid_def readable_def by blast
  have "ts0 = ts" using stored_state_artifacts [OF ts0] rp(3) by simp
  moreover obtain pp s1 where "read_artifact sv \<lparr>ps_pipelines = [], ps_bindings = []\<rparr> decode_pipeline_state
      (repository_of sv st t) c PIPELINE_STATE_PATH u = (Inr pp, s1)"
    using read unfolding read_state_def by (auto simp: io_simps)
  ultimately have "and_then (sv_from_slice sv (fst (artifacts sv ts))) decode_pipeline_state = Inr pp"
    using read_artifact_Inr [OF assms(1)] rp ts0 by fastforce
  then show False using parse_deep [OF wf_encode_parts(1) [OF assms(4)] assms(5)] by (auto simp: artifacts_def and_then_Inr_iff)
qed

lemma deep_commit_locks_out:
  assumes "lvalid s" "wf_tenant_state ts" "lake_commit sv st t e ts author msg s = (Inr c, s')"
    and "PARSE_DEPTH \<le> json_depth (encode_pipeline_state (pipeline_part ts))"
  shows "isl (fst (lake_load sv st t None s'))"
proof (rule ccontr)
  note out = lake_commit_result [OF assms(1-3), unfolded lake_outcome_def Let_def]
  assume "\<not> isl (fst (lake_load sv st t None s'))"
  then obtain sn u where "lake_load sv st t None s' = (Inr sn, u)"
    by (rule succeeds)
  then obtain m s1 h s2 where m: "require_tenant sv st t s' = (Inr m, s1)"
    and h: "branch_head sv st (tm_repository m) s1 = (Inr h, s2)"
    and read: "read_state sv (tm_repository m) h s2 = (Inr (sn_state sn), u)"
    unfolding lake_load_def by (auto simp: io_simps)
  have s': "lvalid s'" using out by blast
  note marker = require_tenant_Inr [OF s' m]
  note s1 = keepsD [OF calm_require_tenant s' m]
  note s2 = keepsD [OF calm_branch_head conjunct1 [OF s1] h]
  have "h = c" using branch_head_Inr [OF conjunct1 [OF s1] h] out marker s1 by (auto simp: marker_for_def)
  moreover have "lcommits s2 = lcommits s'" using s1 s2 lcommits_same by metis
  then have "lcommits s2 t c = Some (e, ts)" using out by auto
  ultimately show False
    using deep_unreadable [OF conjunct1 [OF s2] _ _ assms(2,4)] read marker by (fastforce simp: marker_for_def)
qed

lemma contract: "quiet_store (lakefs_platform n sv st) lvalid lcommits"
  by (rule lake.quiet_store_axioms)

end

lemma json_depth_field: "(k, v) \<in> set m \<Longrightarrow> json_depth v < json_depth (JObject m)"
proof -
  assume "(k, v) \<in> set m"
  then have "json_depth v \<in> insert 0 (set (map (\<lambda>(k, v). json_depth v) m))" by force
  then have "json_depth v \<le> Max (insert 0 (set (map (\<lambda>(k, v). json_depth v) m)))" by (intro Max_ge) auto
  then show ?thesis by simp
qed

lemma stored_pipeline_depth:
  "json_depth (pipe_definition r) + 3 \<le> json_depth (encode_pipeline_state (pipeline_part (with_pipeline x r ts)))"
proof -
  let ?m = "ps_pipelines (pipeline_part (with_pipeline x r ts))"
  have "(''definition'', pipe_definition r) \<in> set [(''authoring'', encode_authoring_state (pipe_authoring r)),
      (''previous_revision_id'', encode_option JString (pipe_previous_revision_id r)),
      (''pipeline_id'', JString (pipe_pipeline_id r)), (''name'', JString (pipe_name r)), (''owner_id'', JString (pipe_owner_id r)),
      (''published_revision_id'', encode_option JString (pipe_published_revision_id r)), (''definition'', pipe_definition r),
      (''author_id'', JString (pipe_author_id r)), (''message'', JString (pipe_message r)),
      (''created_at_ms'', encode_int (pipe_created_at_ms r)), (''updated_at_ms'', encode_int (pipe_updated_at_ms r)),
      (''deleted_at_ms'', encode_option encode_int (pipe_deleted_at_ms r))]" by simp
  then have "json_depth (pipe_definition r) < json_depth (encode_pipeline_record r)"
    unfolding encode_pipeline_record_def by (rule json_depth_field)
  moreover have "bt_get ?m x = Some r" by (simp add: pipeline_part_def with_pipeline_def)
  then have "(x, encode_pipeline_record r) \<in> set (map (\<lambda>(k, y). (k, encode_pipeline_record y)) ?m)"
    by (force simp: bt_get_def dest: map_of_SomeD)
  then have "json_depth (encode_pipeline_record r) < json_depth (encode_map encode_pipeline_record ?m)"
    unfolding encode_map_def by (rule json_depth_field)
  moreover have "json_depth (encode_map encode_pipeline_record ?m) < json_depth (encode_pipeline_state (pipeline_part (with_pipeline x r ts)))"
    unfolding encode_pipeline_state_def by (rule json_depth_field [of "''pipelines''"]) simp
  ultimately show ?thesis by linarith
qed

context lakefs_service
begin

lemma deep_pipeline_locks_out:
  assumes "lvalid s" "wf_json (pi_definition input)" "put_pipeline (lakefs_platform n sv st) input s = (Inr view, s')"
    and "PARSE_DEPTH \<le> json_depth (pi_definition input) + 3"
  shows "isl (fst (lake_load sv st (pi_tenant_id input) None s'))"
proof (rule lake.put_pipeline_Inr [OF assms(3,1,2)])
  fix sn :: snapshot and s2
  let ?ts = "with_pipeline (pi_pipeline_id input) (pv_record view) (sn_state sn)"
  assume "rs_commit (lakefs_platform n sv st) (pi_tenant_id input) (sn_revision_id sn) ?ts (pi_author input) (pi_message input) s2 =
      (Inr (pv_head_revision_id view), s')"
    and wf: "wf_tenant_state ?ts" and def: "pipe_definition (pv_record view) = pi_definition input" and s2: "lvalid s2"
  then have "lake_commit sv st (pi_tenant_id input) (sn_revision_id sn) ?ts (pi_author input) (pi_message input) s2 =
      (Inr (pv_head_revision_id view), s')" by simp
  then show ?thesis
  proof (rule deep_commit_locks_out [OF s2 wf])
    show "PARSE_DEPTH \<le> json_depth (encode_pipeline_state (pipeline_part ?ts))"
      using stored_pipeline_depth [of "pv_record view" "pi_pipeline_id input" "sn_state sn"] assms(4) unfolding def by linarith
  qed
qed

end

end
