(* ===== verification/Reference_Codec.thy ===== *)
theory Reference_Codec
  imports Lakefs_Contract Memory_Store
begin

text \<open>
  A concrete instance of the libraries that the lakeFS store takes as parameters: a JSON codec in a
  length-prefixed notation whose reader stops at the recursion limit, and a tenant digest without
  collisions. They stand in for serde\_json and SHA-256 where the store's laws are shown to be satisfiable.
\<close>

section \<open>Printing\<close>

definition print_nat :: "nat \<Rightarrow> string" where
  "print_nat n = show_nat n @ '';''"

definition print_int :: "int \<Rightarrow> string" where
  "print_int i = (if i < 0 then ''-'' else ''+'') @ print_nat (nat \<bar>i\<bar>)"

definition print_string :: "string \<Rightarrow> string" where
  "print_string s = print_nat (length s) @ s"

fun print_number :: "number \<Rightarrow> string" where
  "print_number (PosInt n) = ''p'' @ print_nat n"
| "print_number (NegInt i) = ''m'' @ print_int i"
| "print_number (Float q) = ''r'' @ print_int (fst (quotient_of q)) @ print_int (snd (quotient_of q))"

fun print_json :: "json \<Rightarrow> string" where
  "print_json JNull = ''n''"
| "print_json (JBool b) = (if b then ''t'' else ''f'')"
| "print_json (JNumber x) = print_number x"
| "print_json (JString s) = ''s'' @ print_string s"
| "print_json (JArray xs) = ''a'' @ print_nat (length xs) @ concat (map print_json xs)"
| "print_json (JObject m) = ''o'' @ print_nat (length m) @ concat (map (\<lambda>(k, v). print_string k @ print_json v) m)"

section \<open>Reading\<close>

fun read_digits :: "nat \<Rightarrow> string \<Rightarrow> (nat \<times> string) option" where
  "read_digits n [] = None"
| "read_digits n (c # s) = (if c = CHR '';'' then Some (n, s) else read_digits (10 * n + digit c) s)"

fun read_int :: "string \<Rightarrow> (int \<times> string) option" where
  "read_int [] = None"
| "read_int (c # s) = map_option (\<lambda>(n, r). (if c = CHR ''-'' then - int n else int n, r)) (read_digits 0 s)"

definition read_string :: "string \<Rightarrow> (string \<times> string) option" where
  "read_string s = map_option (\<lambda>(n, r). (take n r, drop n r)) (read_digits 0 s)"

fun read_many :: "(string \<Rightarrow> ('a \<times> string) option) \<Rightarrow> nat \<Rightarrow> string \<Rightarrow> ('a list \<times> string) option" where
  "read_many f 0 s = Some ([], s)"
| "read_many f (Suc n) s =
     Option.bind (f s) (\<lambda>(x, r). map_option (\<lambda>(xs, r'). (x # xs, r')) (read_many f n r))"

text \<open>The first argument bounds the nesting.\<close>

primrec read_json :: "nat \<Rightarrow> string \<Rightarrow> (json \<times> string) option" where
  "read_json 0 = (\<lambda>s. None)"
| "read_json (Suc d) = (\<lambda>s. case s of
       [] \<Rightarrow> None
     | c # s \<Rightarrow>
         if c = CHR ''n'' then Some (JNull, s)
         else if c = CHR ''t'' then Some (JBool True, s)
         else if c = CHR ''f'' then Some (JBool False, s)
         else if c = CHR ''p'' then map_option (\<lambda>(n, r). (JNumber (PosInt n), r)) (read_digits 0 s)
         else if c = CHR ''m'' then map_option (\<lambda>(i, r). (JNumber (NegInt i), r)) (read_int s)
         else if c = CHR ''r'' then Option.bind (read_int s) (\<lambda>(a, r).
           map_option (\<lambda>(b, r'). (JNumber (Float (Fract a b)), r')) (read_int r))
         else if c = CHR ''s'' then map_option (\<lambda>(x, r). (JString x, r)) (read_string s)
         else if d = 0 then None
         else if c = CHR ''a'' then Option.bind (read_digits 0 s) (\<lambda>(n, r).
           map_option (\<lambda>(xs, r'). (JArray xs, r')) (read_many (read_json d) n r))
         else if c = CHR ''o'' then Option.bind (read_digits 0 s) (\<lambda>(n, r).
           map_option (\<lambda>(m, r'). (JObject m, r')) (read_many (\<lambda>s. Option.bind (read_string s) (\<lambda>(k, r).
             map_option (\<lambda>(v, r'). ((k, v), r')) (read_json d r))) n r))
         else None)"

definition reference_from_slice :: "string \<Rightarrow> json result" where
  "reference_from_slice s =
     (case read_json PARSE_DEPTH s of Some (v, []) \<Rightarrow> Inr v | _ \<Rightarrow> Inl Deserialization)"

section \<open>Reading undoes printing, up to the depth\<close>

lemma show_nat_digits: "c \<in> set (show_nat n) \<Longrightarrow> c \<noteq> CHR '';''"
proof (induction n rule: show_nat.induct)
  case (1 n)
  have "char_of (48 + k) \<noteq> CHR '';''" if "k < 10" for k :: nat
  proof
    assume "char_of (48 + k) = CHR '';''"
    then have "digit CHR '';'' = k" using digit_char_of [OF that] by simp
    then show False using that by (simp add: digit_def)
  qed
  then have "char_of (48 + n mod 10) \<noteq> CHR '';''" "n < 10 \<Longrightarrow> char_of (48 + n) \<noteq> CHR '';''" by simp_all
  with 1 show ?case by (cases "n < 10") (auto simp: show_nat.simps [of n])
qed

lemma read_print_nat [simp]: "read_digits 0 (print_nat n @ s) = Some (n, s)"
proof -
  have "read_digits k (ds @ CHR '';'' # s) = Some (fold (\<lambda>c n. 10 * n + digit c) ds k, s)" if "CHR '';'' \<notin> set ds" for k ds
    using that by (induction ds arbitrary: k) auto
  from this [of "show_nat n" 0] show ?thesis
    using parse_show [of n] show_nat_digits [of _ n] by (auto simp: print_nat_def parse_nat_def)
qed

lemma read_print_basic [simp]:
  "read_int (print_int i @ s) = Some (i, s)" "read_string (print_string x @ s) = Some (x, s)"
  by (auto simp: print_int_def read_string_def print_string_def)

lemma read_many_print:
  assumes "\<And>x r. x \<in> set xs \<Longrightarrow> f (p x @ r) = Some (x, r)"
  shows "read_many f (length xs) (concat (map p xs) @ r) = Some (xs, r)"
  using assms by (induction xs) auto

lemma json_depth_simps:
  "json_depth (JArray xs) < Suc d \<longleftrightarrow> (\<forall>x \<in> set xs. json_depth x < d) \<and> 0 < d"
  "json_depth (JObject m) < Suc d \<longleftrightarrow> (\<forall>x \<in> set m. json_depth (snd x) < d) \<and> 0 < d"
  by (auto simp: case_prod_beta)

lemma quotient_Fract: "Fract (fst (quotient_of q)) (snd (quotient_of q)) = q"
  using quotient_of_div [of q] by (cases "quotient_of q") (simp add: Fract_of_int_quotient)

lemma read_print_json: "json_depth v < d \<Longrightarrow> read_json d (print_json v @ r) = Some (v, r)"
proof (induction v arbitrary: d r)
  case (JNumber x)
  then show ?case by (cases d; cases x) (simp_all add: quotient_Fract)
next
  case (JArray xs)
  then obtain d' where d: "d = Suc d'" "\<forall>x \<in> set xs. json_depth x < d'" "0 < d'"
    by (cases d) (auto simp: json_depth_simps simp del: json_depth.simps)
  with JArray.IH have "read_many (read_json d') (length xs) (concat (map print_json xs) @ r) = Some (xs, r)"
    by (intro read_many_print) simp
  then show ?case using d(3) by (simp add: d(1))
next
  case (JObject m)
  then obtain d' where d: "d = Suc d'" "\<forall>x \<in> set m. json_depth (snd x) < d'" "0 < d'"
    by (cases d) (auto simp: json_depth_simps simp del: json_depth.simps)
  have "read_many (\<lambda>s. Option.bind (read_string s) (\<lambda>(k, r). map_option (\<lambda>(v, r'). ((k, v), r')) (read_json d' r)))
      (length m) (concat (map (\<lambda>(k, v). print_string k @ print_json v) m) @ r) = Some (m, r)"
    using JObject.IH d(2) by (intro read_many_print) fastforce
  then show ?case using d(3) by (simp add: d(1))
qed (case_tac d; simp)+

lemma read_many_stops:
  assumes "x \<in> set xs" "\<And>r. f (p x @ r) = None" "\<And>y r. y \<in> set xs \<Longrightarrow> f (p y @ r) = Some (y, r) \<or> f (p y @ r) = None"
  shows "read_many f (length xs) (concat (map p xs) @ r) = None"
  using assms
proof (induction xs)
  case (Cons y ys)
  from Cons.prems(3) [OF list.set_intros(1), of "concat (map p ys) @ r"] show ?case
  proof
    assume y: "f (p y @ concat (map p ys) @ r) = Some (y, concat (map p ys) @ r)"
    then have "x \<in> set ys" using Cons.prems(1,2) by auto
    with Cons.IH [OF this Cons.prems(2)] Cons.prems(3) y show ?thesis by simp
  next
    assume "f (p y @ concat (map p ys) @ r) = None"
    then show ?thesis unfolding list.size append_assoc list.map concat.simps add_0_right add_Suc_right read_many.simps by simp
  qed
qed simp

lemma read_print_deep: "d \<le> json_depth v \<Longrightarrow> read_json d (print_json v @ r) = None"
proof (induction d arbitrary: v r)
  case (Suc d)
  have total: "read_json d (print_json y @ r) = Some (y, r) \<or> read_json d (print_json y @ r) = None" for y r
    using read_print_json [of y d r] Suc.IH [of y r] by (cases "json_depth y < d") auto
  show ?case
  proof (cases v)
    case (JArray xs)
    then have "\<not> json_depth (JArray xs) < Suc d" using Suc.prems by (simp only: not_less)
    then consider "d = 0" | x where "x \<in> set xs" "d \<le> json_depth x" unfolding json_depth_simps(1) by (auto simp: not_less)
    then show ?thesis
    proof cases
      case (2 x)
      then have "read_many (read_json d) (length xs) (concat (map print_json xs) @ r) = None"
        using Suc.IH total by (intro read_many_stops) auto
      then show ?thesis by (simp add: JArray)
    qed (simp add: JArray)
  next
    case (JObject m)
    let ?p = "\<lambda>(k, v). print_string k @ print_json v"
    let ?f = "\<lambda>s. Option.bind (read_string s) (\<lambda>(k, r). map_option (\<lambda>(v, r'). ((k, v), r')) (read_json d r))"
    have "\<not> json_depth (JObject m) < Suc d" using Suc.prems JObject by (simp only: not_less)
    then consider "d = 0" | x where "x \<in> set m" "d \<le> json_depth (snd x)" unfolding json_depth_simps(2) by (auto simp: not_less)
    then show ?thesis
    proof cases
      case (2 x)
      have "?f (?p y @ r) = Some (y, r) \<or> ?f (?p y @ r) = None" for y r
        using total [of "snd y" r] by (cases y) auto
      moreover have "?f (?p x @ r) = None" for r using 2(2) Suc.IH [of "snd x" r] by (cases x) simp
      ultimately have "read_many ?f (length m) (concat (map ?p m) @ r) = None" using 2(1) by (intro read_many_stops) auto
      then show ?thesis by (simp add: JObject)
    qed (simp add: JObject)
  qed (use Suc.prems in auto)
qed simp

lemma print_json_inject:
  assumes "print_json v = print_json v'"
  shows "v = v'"
proof -
  let ?d = "Suc (json_depth v + json_depth v')"
  have "json_depth v < ?d" "json_depth v' < ?d" by linarith+
  note this [THEN read_print_json, of "[]"]
  then have "Some (v, []) = Some (v', [] :: string)" using assms by metis
  then show ?thesis by simp
qed

lemma reference_from_slice:
  "json_depth v < PARSE_DEPTH \<Longrightarrow> reference_from_slice (print_json v) = Inr v"
  "PARSE_DEPTH \<le> json_depth v \<Longrightarrow> isl (reference_from_slice (print_json v))"
  using read_print_json [of v PARSE_DEPTH "[]"] read_print_deep [of PARSE_DEPTH v "[]"]
  by (auto simp: reference_from_slice_def)

section \<open>A digest without collisions\<close>

text \<open>A short identifier is its own digest; a longer one is read as a number to the base 128 and written as 59 bytes.\<close>

definition tenant_number :: "string \<Rightarrow> nat" where
  "tenant_number s = fold (\<lambda>c n. 128 * n + of_char c) s 0"

fun write_bytes :: "nat \<Rightarrow> nat \<Rightarrow> string" where
  "write_bytes 0 n = []"
| "write_bytes (Suc k) n = char_of (n mod 256) # write_bytes k (n div 256)"

definition reference_digest :: "string \<Rightarrow> string" where
  "reference_digest s = (if length s \<le> 58 then s else write_bytes 59 (tenant_number s))"

lemma write_bytes_length [simp]: "length (write_bytes k n) = k"
  by (induction k arbitrary: n) auto

lemma reference_digest_length: "length (reference_digest s) \<le> 59 \<and> (length (reference_digest s) \<le> 58 \<longleftrightarrow> length s \<le> 58)"
  by (simp add: reference_digest_def)

lemma name_byte_code:
  assumes "is_name_byte c"
  shows "0 < (of_char c :: nat)" "(of_char c :: nat) < 128"
proof -
  have between: "48 \<le> (of_char c :: nat) \<and> (of_char c :: nat) \<le> 122" if "CHR ''0'' \<le> c" "c \<le> CHR ''z''"
    using that by (simp add: less_eq_char_def)
  have "c = CHR ''-'' \<or> CHR ''0'' \<le> c \<and> c \<le> CHR ''z''"
  proof -
    have "CHR ''0'' \<le> CHR ''a''" "CHR ''0'' \<le> CHR ''A''" "CHR ''9'' \<le> CHR ''z''" "CHR ''Z'' \<le> CHR ''z''"
      "CHR ''0'' \<le> CHR ''_''" "CHR ''_'' \<le> CHR ''z''" by code_simp+
    then show ?thesis using assms order_trans
      unfolding is_name_byte_def is_ascii_alphanumeric_def is_ascii_digit_def is_ascii_lowercase_def is_ascii_uppercase_def
      by blast
  qed
  then show "0 < (of_char c :: nat)" "(of_char c :: nat) < 128" using between by auto
qed

lemma tenant_number_snoc: "tenant_number (s @ [c]) = 128 * tenant_number s + of_char c"
  by (simp add: tenant_number_def)

lemma tenant_number_inject:
  assumes "list_all is_name_byte s" "list_all is_name_byte u" "tenant_number s = tenant_number u"
  shows "s = u"
  using assms
proof (induction s arbitrary: u rule: rev_induct)
  case Nil
  show ?case
  proof (cases u rule: rev_cases)
    case (snoc v d)
    then show ?thesis using Nil name_byte_code(1) [of d] by (simp add: tenant_number_snoc tenant_number_def [of "[]"])
  qed simp
next
  case (snoc c s)
  note c = name_byte_code [of c]
  show ?case
  proof (cases u rule: rev_cases)
    case Nil
    then show ?thesis using snoc.prems c by (auto simp: tenant_number_snoc tenant_number_def [of "[]"])
  next
    case (snoc v d)
    note d = name_byte_code [of d]
    have eq: "128 * tenant_number s + of_char c = 128 * tenant_number v + (of_char d :: nat)"
      using snoc.prems(3) snoc by (simp add: tenant_number_snoc)
    have "(of_char c :: nat) < 128" "(of_char d :: nat) < 128" using c d snoc snoc.prems by auto
    with eq have "tenant_number s = tenant_number v" by linarith
    moreover from this eq have "(of_char c :: nat) = of_char d" by simp
    ultimately have "tenant_number s = tenant_number v" "c = d" by simp_all
    then show ?thesis using snoc.IH [of v] snoc.prems(1,2) snoc by simp
  qed
qed

lemma write_bytes_inject: "m < 256 ^ k \<Longrightarrow> n < 256 ^ k \<Longrightarrow> write_bytes k m = write_bytes k n \<Longrightarrow> m = n"
proof (induction k arbitrary: m n)
  case (Suc k)
  from Suc.prems(3) have "(char_of (m mod 256) :: char) = char_of (n mod 256)" "write_bytes k (m div 256) = write_bytes k (n div 256)"
    by simp_all
  then have "of_char (char_of (m mod 256) :: char) = (of_char (char_of (n mod 256) :: char) :: nat)" by simp
  then have "m mod 256 = n mod 256" by (simp add: of_char_of)
  moreover have "m div 256 = n div 256"
    using \<open>write_bytes k (m div 256) = write_bytes k (n div 256)\<close> Suc.IH [of "m div 256" "n div 256"] Suc.prems(1,2)
    by (simp add: less_mult_imp_div_less mult.commute)
  ultimately have "m mod 256 = n mod 256" "m div 256 = n div 256" by blast+
  then show ?case by (metis div_mult_mod_eq)
qed simp

lemma tenant_number_bound: "list_all is_name_byte s \<Longrightarrow> tenant_number s < 128 ^ length s"
proof (induction s rule: rev_induct)
  case (snoc c s)
  then have "tenant_number s < 128 ^ length s" "(of_char c :: nat) < 128" using name_byte_code by auto
  then show ?case by (simp add: tenant_number_snoc)
qed (simp add: tenant_number_def)

lemma reference_digest_inject:
  assumes "valid_tenant t" "valid_tenant u" "reference_digest t = reference_digest u"
  shows "t = u"
proof -
  have "tenant_number x < 256 ^ 59" if "valid_tenant x" for x
  proof -
    have "tenant_number x < 128 ^ length x" "length x \<le> 64" using that tenant_number_bound by (auto simp: valid_tenant_def)
    then have "tenant_number x < 128 ^ 64" by (meson less_le_trans one_le_numeral power_increasing)
    also have "(128 :: nat) ^ 64 < 256 ^ 59" by simp
    finally show ?thesis .
  qed
  moreover have "length t \<le> 58 \<longleftrightarrow> length u \<le> 58" using assms(3) reference_digest_length by metis
  ultimately show ?thesis
    using assms write_bytes_inject [of "tenant_number t" 59 "tenant_number u"] tenant_number_inject [of t u]
    by (simp add: reference_digest_def valid_tenant_def split: if_splits)
qed

end
