(* ===== verification/Lakefs_Reference.thy ===== *)
theory Lakefs_Reference
  imports Reference_Codec Scenario
begin

text \<open>
  An executable lakeFS and S3 for the laws of \<open>lakefs_service\<close>: repositories with a branch, staged objects
  and numbered commits, and a bucket of objects. The interpretation shows that the laws can hold, and the
  store of \<open>Lakefs_Store\<close> can be run against it.
\<close>

section \<open>Definitions\<close>

record reference_world =
  rw_repositories :: "(string, repository) btree_map"
  rw_objects :: "(string, string) btree_map"
  rw_next :: nat

definition http_reply :: "nat \<Rightarrow> string \<Rightarrow> http_response" where
  "http_reply status body = \<lparr>hr_status = status, hr_content_length = Some (length body), hr_chunks = [Inr body]\<rparr>"

definition with_repository :: "string \<Rightarrow> repository \<Rightarrow> reference_world \<Rightarrow> reference_world" where
  "with_repository r rp w = w\<lparr>rw_repositories := bt_insert r rp (rw_repositories w)\<rparr>"

fun reference_send :: "lakefs_request \<Rightarrow> (reference_world, http_response) io" where
  "reference_send (GetBranch r b) w =
     (case bt_get (rw_repositories w) r of
        None \<Rightarrow> (Inr (http_reply 404 []), w)
      | Some rp \<Rightarrow> (Inr (http_reply 200 (print_json
          (JObject [(''id'', JString b), (''commit_id'', JString (rp_head rp))]))), w))"
| "reference_send (CreateRepository r ns b sample) w =
     (case bt_get (rw_repositories w) r of
        Some _ \<Rightarrow> (Inr (http_reply 409 []), w)
      | None \<Rightarrow> (Inr (http_reply 201 []), with_repository r
          \<lparr>rp_namespace = ns, rp_head = format20 (rw_next w), rp_commits = Map.empty, rp_staged = Map.empty\<rparr>
          (w\<lparr>rw_next := Suc (rw_next w)\<rparr>)))"
| "reference_send (DeleteRepository r) w =
     (if bt_contains (rw_repositories w) r
      then (Inr (http_reply 204 []), w\<lparr>rw_repositories := bt_remove r (rw_repositories w)\<rparr>)
      else (Inr (http_reply 404 []), w))"
| "reference_send (GetObject r c path) w =
     (case Option.bind (bt_get (rw_repositories w) r) (\<lambda>rp. Option.bind (rp_commits rp c) (\<lambda>(p, objs). objs path)) of
        None \<Rightarrow> (Inr (http_reply 404 []), w)
      | Some body \<Rightarrow> (Inr (http_reply 200 body), w))"
| "reference_send (PutObject r b path payload) w =
     (case bt_get (rw_repositories w) r of
        None \<Rightarrow> (Inr (http_reply 404 []), w)
      | Some rp \<Rightarrow> (Inr (http_reply 201 []), with_repository r (stage path payload rp) w))"
| "reference_send (CreateCommit r b message author digest) w =
     (case bt_get (rw_repositories w) r of
        None \<Rightarrow> (Inr (http_reply 404 []), w)
      | Some rp \<Rightarrow>
          let c = format20 (rw_next w) in
          (Inr (http_reply 201 (print_json (JObject [(''id'', JString c)]))),
           with_repository r (record_commit c rp) (w\<lparr>rw_next := Suc (rw_next w)\<rparr>)))"

definition reference_services :: "reference_world services" where
  "reference_services =
     \<lparr>sv_send = reference_send,
      sv_s3_get = (\<lambda>bucket key w. (Inr (map_option (\<lambda>body.
        \<lparr>so_content_length = Some (int (length body)), so_body = Inr body\<rparr>) (bt_get (rw_objects w) key)), w)),
      sv_s3_put = (\<lambda>bucket key payload w. (Inr (), w\<lparr>rw_objects := bt_insert key payload (rw_objects w)\<rparr>)),
      sv_s3_list = (\<lambda>bucket pfx w.
        (Inr (map Some (take 1000 (filter (starts_with pfx) (bt_keys (rw_objects w))))), w)),
      sv_s3_delete = (\<lambda>bucket keys w. (Inr [], w\<lparr>rw_objects := fold bt_remove keys (rw_objects w)\<rparr>)),
      sv_cache_live = (\<lambda>w t. True), sv_hash_one = (\<lambda>t. 0), sv_from_slice = reference_from_slice,
      sv_to_vec = print_json, sv_sha256_hex = reference_digest, sv_now = (\<lambda>w. 0)\<rparr>"

definition reference_config :: lakefs_config where
  "reference_config = \<lparr>lc_endpoint = ''http://lakefs:8000'', lc_access_key = ''registry'', lc_secret_key = ''secret'',
     lc_repository_prefix = ''reg'', lc_storage_namespace = ''s3://lake/'', lc_branch = ''main''\<rparr>"

definition reference_s3 :: s3_config where
  "reference_s3 = \<lparr>sc_endpoint = ''http://minio:9000'', sc_region = ''us-east-1'', sc_access_key = ''minio'',
     sc_secret_key = ''secret''\<rparr>"

definition reference_store :: lakefs_store where
  "reference_store = \<lparr>ls_config = reference_config, ls_directory = \<lparr>td_bucket = ''lake'', td_prefix = []\<rparr>\<rparr>"

definition repositories_of :: "reference_world \<Rightarrow> string \<rightharpoonup> repository" where
  "repositories_of w = bt_get (rw_repositories w)"

definition numbered_ids :: "nat \<Rightarrow> repository \<Rightarrow> bool" where
  "numbered_ids n rp \<longleftrightarrow> (\<forall>c. c = rp_head rp \<or> rp_commits rp c \<noteq> None \<longrightarrow> (\<exists>k < n. c = format20 k))"

definition reference_ok :: "reference_world \<Rightarrow> bool" where
  "reference_ok w \<longleftrightarrow> (\<forall>r rp. repositories_of w r = Some rp \<longrightarrow> numbered_ids (rw_next w) rp)"

definition objects_of :: "reference_world \<Rightarrow> string \<rightharpoonup> string" where
  "objects_of w = bt_get (rw_objects w)"

definition empty_lake :: "reference_world lake_world" where
  "empty_lake = \<lparr>lw_remote = \<lparr>rw_repositories = [], rw_objects = [], rw_next = 1\<rparr>, lw_cache = []\<rparr>"

section \<open>The laws hold\<close>

lemma services_sel [simp]:
  "sv_send reference_services = reference_send" "sv_from_slice reference_services = reference_from_slice"
  "sv_to_vec reference_services = print_json" "sv_sha256_hex reference_services = reference_digest"
  "sv_s3_get reference_services b k w = (Inr (map_option (\<lambda>body.
    \<lparr>so_content_length = Some (int (length body)), so_body = Inr body\<rparr>) (bt_get (rw_objects w) k)), w)"
  "sv_s3_put reference_services b k x w = (Inr (), w\<lparr>rw_objects := bt_insert k x (rw_objects w)\<rparr>)"
  "sv_s3_list reference_services b k w = (Inr (map Some (take 1000 (filter (starts_with k) (bt_keys (rw_objects w))))), w)"
  "sv_s3_delete reference_services b ks w = (Inr [], w\<lparr>rw_objects := fold bt_remove ks (rw_objects w)\<rparr>)"
  "sv_now reference_services w = 0"
  by (simp_all add: reference_services_def)

lemma http_reply_sel [simp]:
  "hr_status (http_reply n body) = n" "response_bytes (http_reply n body) = Inr body"
  "is_success (http_reply n body) \<longleftrightarrow> 200 \<le> n \<and> n < 300"
  by (simp_all add: http_reply_def response_bytes_def is_success_def)

lemma reply_commit_id [simp]:
  "reply reference_services ''commit_id'' (http_reply n (print_json (JObject [(''id'', JString b), (''commit_id'', JString h)]))) = Inr h"
  "reply reference_services ''id'' (http_reply n (print_json (JObject [(''id'', JString h)]))) = Inr h"
proof -
  have "json_depth (JObject [(''id'', JString b), (''commit_id'', JString h)]) < PARSE_DEPTH"
    "json_depth (JObject [(''id'', JString h)]) < PARSE_DEPTH" by (simp_all add: PARSE_DEPTH_def)
  note this [THEN reference_from_slice(1)]
  then show "reply reference_services ''commit_id'' (http_reply n (print_json (JObject [(''id'', JString b), (''commit_id'', JString h)]))) = Inr h"
    "reply reference_services ''id'' (http_reply n (print_json (JObject [(''id'', JString h)]))) = Inr h"
    by (simp_all add: reply_def reply_field_def required_def decode_string_def del: print_json.simps)
qed

lemma with_repository_sel [simp]:
  "repositories_of (with_repository r rp w) = (repositories_of w)(r \<mapsto> rp)"
  "objects_of (with_repository r rp w) = objects_of w" "rw_next (with_repository r rp w) = rw_next w"
  "repositories_of (w\<lparr>rw_next := n\<rparr>) = repositories_of w" "objects_of (w\<lparr>rw_next := n\<rparr>) = objects_of w"
  by (auto simp: with_repository_def repositories_of_def objects_of_def)

lemma numbered_ids_mono: "numbered_ids m rp \<Longrightarrow> m \<le> n \<Longrightarrow> numbered_ids n rp"
  unfolding numbered_ids_def by (metis (no_types, lifting) less_le_trans)

lemma numbered_ids_fresh: "numbered_ids n rp \<Longrightarrow> rp_commits rp (format20 n) = None \<and> format20 n \<noteq> rp_head rp"
  unfolding numbered_ids_def by (metis format20_inject less_irrefl)

lemma numbered_ids_commit: "numbered_ids n rp \<Longrightarrow> numbered_ids (Suc n) (record_commit (format20 n) rp)"
  using numbered_ids_mono [of n rp "Suc n"] by (auto simp: numbered_ids_def record_commit_def)

lemma reference_okI:
  "reference_ok w \<Longrightarrow> rw_next w \<le> n \<Longrightarrow> numbered_ids n rp \<Longrightarrow> reference_ok (with_repository r rp (w\<lparr>rw_next := n\<rparr>))"
  unfolding reference_ok_def by (auto intro: numbered_ids_mono split: if_splits)

lemma reference_okI':
  "reference_ok w \<Longrightarrow> numbered_ids (rw_next w) rp \<Longrightarrow> reference_ok (with_repository r rp w)"
  unfolding reference_ok_def by (auto split: if_splits)

lemma fold_remove: "bt_get (fold bt_remove ks m) = bt_get m |` (- set ks)"
  by (induction ks arbitrary: m) (auto simp: restrict_map_def fun_eq_iff)

lemma reference_names:
  assumes "valid_tenant t" "valid_tenant u"
    "repository_for_tenant reference_digest reference_store t = repository_for_tenant reference_digest reference_store u"
  shows "t = u"
proof -
  have "repository_for_tenant reference_digest reference_store x = Inr (''reg-'' @ reference_digest x)" if "valid_tenant x" for x
    using that reference_digest_length [of x]
    by (simp add: repository_for_tenant_def reference_store_def reference_config_def)
  then show ?thesis using assms reference_digest_inject by auto
qed

lemma reference_new_store: "new_store (\<lambda>s. Inr \<lparr>u_scheme = ''http'', u_host_str = Some s, u_username = [], u_password = None,
    u_path = ''/'', u_query = None, u_fragment = None\<rparr>) reference_config reference_s3 = Inr reference_store"
  by code_simp

lemma reference_calls:
  "reference_ok w \<Longrightarrow> reference_send (CreateRepository r ns b False) w = (res, w') \<Longrightarrow>
    reference_ok w' \<and> (repositories_of w' = repositories_of w \<or> repositories_of w r = None \<and>
      (\<exists>h. repositories_of w' = (repositories_of w)(r \<mapsto>
        \<lparr>rp_namespace = ns, rp_head = h, rp_commits = Map.empty, rp_staged = Map.empty\<rparr>)))"
  "reference_ok w \<Longrightarrow> reference_send (PutObject r b path payload) w = (res, w') \<Longrightarrow>
    reference_ok w' \<and> (repositories_of w' = repositories_of w \<and> (\<forall>response. res = Inr response \<longrightarrow> \<not> is_success response) \<or>
      (\<exists>rp. repositories_of w r = Some rp \<and> repositories_of w' = (repositories_of w)(r \<mapsto> stage path payload rp)))"
  "reference_ok w \<Longrightarrow> reference_send (CreateCommit r b m a d) w = (res, w') \<Longrightarrow>
    reference_ok w' \<and> (repositories_of w' = repositories_of w \<and> (\<forall>response. res = Inr response \<longrightarrow> \<not> is_success response) \<or>
      (\<exists>rp c. repositories_of w r = Some rp \<and> rp_commits rp c = None \<and> c \<noteq> rp_head rp \<and>
        repositories_of w' = (repositories_of w)(r \<mapsto> record_commit c rp) \<and>
        (\<forall>response v. res = Inr response \<longrightarrow> is_success response \<longrightarrow> reply reference_services ''id'' response = Inr v \<longrightarrow> v = c)))"
proof -
  let ?fresh = "\<lparr>rp_namespace = ns, rp_head = format20 (rw_next w), rp_commits = Map.empty, rp_staged = Map.empty\<rparr>"
  assume ok: "reference_ok w"
  show "reference_ok w' \<and> (repositories_of w' = repositories_of w \<or> repositories_of w r = None \<and>
      (\<exists>h. repositories_of w' = (repositories_of w)(r \<mapsto>
        \<lparr>rp_namespace = ns, rp_head = h, rp_commits = Map.empty, rp_staged = Map.empty\<rparr>)))"
    if run: "reference_send (CreateRepository r ns b False) w = (res, w')"
  proof (cases "repositories_of w r")
    case None
    have "numbered_ids (Suc (rw_next w)) ?fresh" by (auto simp: numbered_ids_def)
    with reference_okI [OF ok, of "Suc (rw_next w)" ?fresh r] run None show ?thesis
      by (auto simp: repositories_of_def [of w])
  qed (use run ok in \<open>simp add: repositories_of_def [of w]\<close>)
  show "reference_ok w' \<and> (repositories_of w' = repositories_of w \<and> (\<forall>response. res = Inr response \<longrightarrow> \<not> is_success response) \<or>
      (\<exists>rp. repositories_of w r = Some rp \<and> repositories_of w' = (repositories_of w)(r \<mapsto> stage path payload rp)))"
    if run: "reference_send (PutObject r b path payload) w = (res, w')"
  proof (cases "repositories_of w r")
    case (Some rp)
    then have "numbered_ids (rw_next w) (stage path payload rp)"
      using ok by (auto simp: reference_ok_def numbered_ids_def stage_def)
    with reference_okI' [OF ok] run Some show ?thesis by (auto simp: repositories_of_def [of w])
  qed (use run ok in \<open>auto simp: repositories_of_def [of w]\<close>)
  show "reference_ok w' \<and> (repositories_of w' = repositories_of w \<and> (\<forall>response. res = Inr response \<longrightarrow> \<not> is_success response) \<or>
      (\<exists>rp c. repositories_of w r = Some rp \<and> rp_commits rp c = None \<and> c \<noteq> rp_head rp \<and>
        repositories_of w' = (repositories_of w)(r \<mapsto> record_commit c rp) \<and>
        (\<forall>response v. res = Inr response \<longrightarrow> is_success response \<longrightarrow> reply reference_services ''id'' response = Inr v \<longrightarrow> v = c)))"
    if run: "reference_send (CreateCommit r b m a d) w = (res, w')"
  proof (cases "repositories_of w r")
    case (Some rp)
    then have rp: "numbered_ids (rw_next w) rp" using ok by (simp add: reference_ok_def)
    let ?c = "format20 (rw_next w)"
    have "w' = with_repository r (record_commit ?c rp) (w\<lparr>rw_next := Suc (rw_next w)\<rparr>)"
      "res = Inr (http_reply 201 (print_json (JObject [(''id'', JString ?c)])))"
      using run Some by (simp_all add: repositories_of_def [of w] Let_def)
    with reference_okI [OF ok, of "Suc (rw_next w)" "record_commit ?c rp" r] numbered_ids_commit [OF rp] numbered_ids_fresh [OF rp] Some
    show ?thesis by (auto simp del: print_json.simps)
  qed (use run ok in \<open>auto simp: repositories_of_def [of w]\<close>)
qed

interpretation reference: lakefs_service reference_services reference_store reference_ok repositories_of objects_of
proof (unfold_locales, goal_cases)
  case 1
  show ?case by code_simp
next
  case (2 t u)
  then show ?case using reference_names by simp
next
  case (3 w)
  show ?case by (simp add: i64_def I64_MAX_def)
next
  case (4 v v')
  then show ?case using print_json_inject by simp
next
  case (5 v)
  then show ?case using reference_from_slice by simp
next
  case (6 v)
  then show ?case using reference_from_slice by simp
next
  case (7 w r res w')
  show ?case
  proof (cases "repositories_of w r")
    case (Some rp)
    with 7 show ?thesis by (auto simp: repositories_of_def simp del: print_json.simps)
  qed (use 7 in \<open>auto simp: repositories_of_def [of w]\<close>)
next
  case (8 w r ns res w')
  then show ?case using reference_calls(1) by simp
next
  case (9 w r res w')
  then show ?case
    by (auto simp: repositories_of_def reference_ok_def objects_of_def bt_contains_get NOT_FOUND_def fun_eq_iff split: if_splits)
next
  case (10 w r ref path res w')
  then show ?case
    by (auto simp: repositories_of_def NOT_FOUND_def bind_eq_Some_conv split: option.splits)
next
  case (11 w r path payload res w')
  then show ?case using reference_calls(2) by simp
next
  case (12 w r m a d res w')
  then show ?case using reference_calls(3) by simp
next
  case (13 w k res w')
  then show ?case by simp
next
  case (14 w k payload res w')
  then show ?case by (auto simp: reference_ok_def repositories_of_def)
next
  case (15 w pfx res w')
  have listed: "k \<in> set (bt_keys (rw_objects w)) \<longleftrightarrow> objects_of w k \<noteq> None" for k
    by (simp add: objects_of_def bt_get_def bt_keys_def map_of_eq_None_iff)
  define keys where "keys = take 1000 (filter (starts_with pfx) (bt_keys (rw_objects w)))"
  have run: "res = Inr (map Some keys)" "w' = w" using 15(2) by (auto simp: keys_def)
  have present: "starts_with pfx k \<and> objects_of w k \<noteq> None" if "k \<in> set keys" for k
    using in_set_takeD [OF that [unfolded keys_def]] listed by simp
  have absent: "objects_of w k = None" if "keys = []" "starts_with pfx k" for k
    using that listed [of k] by (auto simp: keys_def filter_empty_conv)
  show ?case unfolding run
  proof (intro conjI allI impI)
    fix found
    assume found: "Inr (map Some keys) = (Inr found :: string option list result)"
    then show "None \<notin> set found" by auto
    show "starts_with pfx k" "objects_of w k \<noteq> None" if "Some k \<in> set found" for k
      using found that present [of k] by auto
    show "objects_of w k = None" if "found = []" "starts_with pfx k" for k using found that absent [of k] by auto
  qed (rule 15(1) refl)+
next
  case (16 w keys res w')
  then show ?case by (auto simp: reference_ok_def repositories_of_def objects_of_def fold_remove intro!: exI [of _ "set keys"])
next
  case (17 w)
  show ?case by (simp add: objects_of_def bt_get_def [abs_def] finite_dom_map_of)
qed

section \<open>A run\<close>

definition lake_platform :: "reference_world lake_world platform" where
  "lake_platform = lakefs_platform 10 reference_services reference_store"

lemma lake_valid_empty: "lake_valid reference_services reference_store reference_ok repositories_of empty_lake"
  by (simp add: lake_valid_def empty_lake_def reference_ok_def repositories_of_def)

text \<open>A definition that nests arrays below an unknown key.\<close>

fun nested :: "nat \<Rightarrow> json" where
  "nested 0 = JNull"
| "nested (Suc n) = JArray [nested n]"

definition deep_input :: put_pipeline_input where
  "deep_input = pipeline_input\<lparr>pi_definition := JObject [(''name'', JString ''Mail''), (''sources'', JArray [source_document]),
     (''pipeline'', JArray [step_document ''classify'' ''small'']), (''notes'', nested 125)]\<rparr>"

text \<open>The world after one tenant was provisioned.\<close>

definition provisioned_lake :: "reference_world lake_world" where
  "provisioned_lake = snd (lake_ensure_tenant reference_services reference_store ''acme'' empty_lake)"

lemma provisioned_lake_valid: "lake_valid reference_services reference_store reference_ok repositories_of provisioned_lake"
proof -
  obtain res s where "lake_ensure_tenant reference_services reference_store ''acme'' empty_lake = (res, s)" by fastforce
  with keepsD [OF reference.quiet_ensure_tenant lake_valid_empty this] show ?thesis by (simp add: provisioned_lake_def)
qed

end
