(* ===== verification/Plugin_Ontology.thy ===== *)
theory Plugin_Ontology
  imports Ontology_Slice Fixtures "HOL-Library.Multiset"
begin

text \<open>
  Tenant-local overlays over plugin ontology packages (\<open>platform/registry/src/plugin_ontology.rs\<close>). A package is a
  list of modules of resources; \<open>materialize\<close> stamps every resource with its module, points the mapping slots
  that the tenant chose at types of the tenant's own ontology, adds the closure of those types and validates
  the result. The JSON printer is a parameter (only the size of the package is measured with it).
\<close>

section \<open>Definitions\<close>

definition plugin_resource_id :: "json \<Rightarrow> string result" where
  "plugin_resource_id resource = option_context ''resource ID missing'' (get_str resource ''resource_id'')"

text \<open>\<open>get_mut\<close> on a field of an object, with the change made to it.\<close>

definition set_field :: "string \<Rightarrow> json \<Rightarrow> json \<Rightarrow> json" where
  "set_field k x v = (case v of JObject m \<Rightarrow> JObject (json_insert k x m) | _ \<Rightarrow> v)"

definition stamp_resource :: "json \<Rightarrow> string \<Rightarrow> json \<Rightarrow> (string \<times> json) result" where
  "stamp_resource mdoc module_id item =
     and_then (plugin_resource_id item) (\<lambda>rid.
     and_then (option_context ''resource attributes missing'' (get_object item ''attributes'')) (\<lambda>attributes.
     let attributes = json_insert ''plugin_module'' (JString module_id) attributes in
     and_then (option_context ''module version missing'' (json_get mdoc ''version'')) (\<lambda>version.
     let attributes = json_insert ''plugin_module_version'' version attributes in
     Inr (rid, set_field ''attributes'' (JObject attributes) item))))"

definition add_resource ::
  "string \<Rightarrow> (string, json) btree_map \<Rightarrow> string \<times> json \<Rightarrow> (string, json) btree_map result" where
  "add_resource msg resources entry =
     (case entry of (rid, resource) \<Rightarrow> ensure (\<not> bt_contains resources rid) msg (Inr (bt_insert rid resource resources)))"

definition add_module :: "(string, json) btree_map \<Rightarrow> json \<Rightarrow> (string, json) btree_map result" where
  "add_module resources mdoc =
     and_then (option_context ''module identity missing'' (get_str mdoc ''id'')) (\<lambda>module_id.
     and_then (option_context ''ontology resources missing'' (get_array mdoc ''resources'')) (\<lambda>items.
     try_fold (\<lambda>resources item. and_then (stamp_resource mdoc module_id item)
       (add_resource ''duplicate plugin resource'' resources)) resources items))"

definition package_resources :: "json \<Rightarrow> (string, json) btree_map result" where
  "package_resources package =
     and_then (option_context ''ontology modules missing'' (get_array package ''ontologies'')) (\<lambda>modules.
     ensure (modules \<noteq> [] \<and> length modules \<le> 32) ''invalid ontology modules'' (
     try_fold add_module [] modules))"

definition target_resources ::
  "json option \<Rightarrow> (string, string) btree_map \<Rightarrow> (string, json) btree_map result" where
  "target_resources target mappings =
     (if mappings = [] then Inr []
      else
        and_then (option_context ''mapped target ontology missing'' target) (\<lambda>target.
        and_then (slice_ontology target (bt_values mappings) [] True) (\<lambda>slice.
        and_then (option_context ''target resources missing'' (get_array slice ''resources'')) (\<lambda>items.
        and_then (try_map (\<lambda>item. and_then (plugin_resource_id item) (\<lambda>rid. Inr (rid, item))) items) (\<lambda>entries.
        Inr (bt_collect entries))))))"

definition rebind_participant :: "json \<Rightarrow> string \<Rightarrow> json \<Rightarrow> json result" where
  "rebind_participant resource destination selected =
     ensure (Option.bind (get_path [''attributes'', ''mapping_slot''] resource) as_bool = Some True)
       ''resource is not a mapping slot'' (
     ensure (get_str resource ''kind'' = Some ''link_type'') ''only participant relationships can be rebound'' (
     ensure (get_str selected ''kind'' = Some ''object_type'') ''participant target must be an object type'' (
     and_then (option_context ''link target missing'' (pointer_str resource [''attributes'', ''target_type''])) (\<lambda>old.
     and_then (option_context ''link target missing'' (json_get resource ''attributes'')) (\<lambda>attributes.
     let resource = set_field ''attributes'' (set_field ''target_type'' (JString destination) attributes) resource in
     and_then (option_context ''link references missing'' (get_array resource ''references'')) (\<lambda>references.
     Inr (set_field ''references'' (JArray (map (\<lambda>reference.
       if as_str reference = Some old then JString destination else reference) references)) resource)))))))"

definition rebind_slot ::
  "(string, json) btree_map \<Rightarrow> (string, json) btree_map \<Rightarrow> string \<times> string \<Rightarrow> (string, json) btree_map result" where
  "rebind_slot external resources mapping =
     (case mapping of (slot, destination) \<Rightarrow>
        and_then (option_context ''unknown plugin mapping slot'' (bt_get resources slot)) (\<lambda>resource.
        and_then (option_context ''target resource unavailable'' (bt_get external destination)) (\<lambda>selected.
        and_then (rebind_participant resource destination selected) (\<lambda>resource.
        Inr (bt_insert slot resource resources)))))"

text \<open>\<open>json!\<close> writes an absent field as \<open>null\<close>.\<close>

definition or_null :: "json option \<Rightarrow> json" where
  "or_null v = (case v of None \<Rightarrow> JNull | Some x \<Rightarrow> x)"

definition overlay_document :: "json \<Rightarrow> (string, string) btree_map \<Rightarrow> (string, json) btree_map \<Rightarrow> json" where
  "overlay_document package mappings resources = JObject
     [(''version'', or_null (json_get package ''version'')),
      (''resources'', JArray (bt_values resources)),
      (''plugin_origin'', JObject
        [(''package_id'', or_null (json_get package ''id'')),
         (''plugin_id'', or_null (json_get package ''plugin_id'')),
         (''plugin_version'', or_null (json_get package ''plugin_version'')),
         (''package_version'', or_null (json_get package ''version''))]),
      (''participant_mappings'', JObject (map (\<lambda>(slot, destination). (slot, JString destination)) mappings))]"

definition materialize ::
  "(json \<Rightarrow> string) \<Rightarrow> json \<Rightarrow> json option \<Rightarrow> (string, string) btree_map \<Rightarrow> json result" where
  "materialize to_vec package target mappings =
     ensure (length (to_vec package) \<le> 512 * 1024) ''plugin ontology package exceeds limit'' (
     ensure (length mappings \<le> 128) ''too many ontology mappings'' (
     and_then (package_resources package) (\<lambda>resources.
     and_then (validate_ontology (JObject [(''version'', or_null (json_get package ''version'')),
       (''resources'', JArray (bt_values resources))])) (\<lambda>_.
     and_then (target_resources target mappings) (\<lambda>external.
     and_then (try_fold (rebind_slot external) resources mappings) (\<lambda>resources.
     and_then (try_fold (add_resource ''target conflicts with plugin resource'') resources external) (\<lambda>resources.
     ensure (length resources \<le> 1024) ''ontology overlay exceeds resource limit'' (
     let overlay = overlay_document package mappings resources in
     and_then (validate_ontology overlay) (\<lambda>_.
     Inr overlay)))))))))"

section \<open>Collecting resources\<close>

text \<open>A loop that adds entries succeeds exactly when no key comes twice, and then leaves all of them.\<close>

lemma add_resources_Inr:
  "try_fold (add_resource msg) resources entries = Inr out \<longleftrightarrow>
    distinct (map fst entries) \<and> set (map fst entries) \<inter> set (bt_keys resources) = {} \<and>
    out = fold (\<lambda>(k, v). bt_insert k v) entries resources"
proof (induction entries arbitrary: resources)
  case (Cons e entries)
  obtain k v where e: "e = (k, v)" by (cases e)
  have "set (bt_keys (bt_insert k v resources)) = insert k (set (bt_keys resources))" by (simp add: bt_keys_def)
  then show ?case using Cons by (auto simp: e add_resource_def and_then_Inr_iff ensure_Inr_iff bt_contains_iff)
qed auto

definition module_entries :: "json \<Rightarrow> (string \<times> json) list result" where
  "module_entries mdoc =
     and_then (option_context ''module identity missing'' (get_str mdoc ''id'')) (\<lambda>module_id.
     and_then (option_context ''ontology resources missing'' (get_array mdoc ''resources'')) (\<lambda>items.
     try_map (stamp_resource mdoc module_id) items))"

lemma try_fold_then:
  "try_fold (\<lambda>s x. and_then (f x) (g s)) s xs = Inr out \<longleftrightarrow> (\<exists>ys. try_map f xs = Inr ys \<and> try_fold g s ys = Inr out)"
  by (induction xs arbitrary: s) (auto simp: and_then_Inr_iff)

lemma add_module_Inr:
  "add_module resources mdoc = Inr out \<longleftrightarrow>
    (\<exists>entries. module_entries mdoc = Inr entries \<and> try_fold (add_resource ''duplicate plugin resource'') resources entries = Inr out)"
  unfolding add_module_def module_entries_def
  by (auto simp: and_then_Inr_iff option_context_Inr_iff try_fold_then)

lemma add_modules_Inr:
  "try_fold add_module resources modules = Inr out \<longleftrightarrow>
    (\<exists>entries. try_map module_entries modules = Inr entries \<and>
      try_fold (add_resource ''duplicate plugin resource'') resources (concat entries) = Inr out)"
proof (induction modules arbitrary: resources)
  case (Cons mdoc modules)
  have append: "try_fold f s (xs @ ys) = and_then (try_fold f s xs) (\<lambda>u. try_fold f u ys)" for f s and xs ys :: "(string \<times> json) list"
    by (induction xs arbitrary: s) (auto simp: and_then_def split: sum.splits)
  show ?case by (auto simp: and_then_Inr_iff add_module_Inr Cons append)
qed simp

lemma package_resources_Inr:
  "package_resources package = Inr resources \<longleftrightarrow>
    (\<exists>modules entries. get_array package ''ontologies'' = Some modules \<and> modules \<noteq> [] \<and> length modules \<le> 32 \<and>
      try_map module_entries modules = Inr entries \<and> distinct (map fst (concat entries)) \<and> resources = bt_collect (concat entries))"
  unfolding package_resources_def bt_collect_def
  by (auto simp: and_then_Inr_iff option_context_Inr_iff ensure_Inr_iff add_modules_Inr add_resources_Inr bt_keys_def)

section \<open>The order of modules and resources does not matter\<close>

definition same_module :: "json \<Rightarrow> json \<Rightarrow> bool" where
  "same_module a b \<longleftrightarrow> get_str a ''id'' = get_str b ''id'' \<and> json_get a ''version'' = json_get b ''version'' \<and>
     rel_option (\<lambda>xs ys. mset xs = mset ys) (get_array a ''resources'') (get_array b ''resources'')"

definition same_modules :: "json \<Rightarrow> json \<Rightarrow> bool" where
  "same_modules p q \<longleftrightarrow> rel_option (\<lambda>ms ns. \<exists>ns'. mset ns' = mset ns \<and> list_all2 same_module ms ns')
     (get_array p ''ontologies'') (get_array q ''ontologies'')"

lemma try_map_reorder:
  assumes "try_map f xs = Inr es" "mset xs' = mset xs"
  obtains es' where "try_map f xs' = Inr es'" "mset es' = mset es"
  using assms list_all2_reorder_left_invariance [of "\<lambda>x y. f x = Inr y" xs es xs'] unfolding try_map_Inr_iff by blast

lemma same_module_entries:
  assumes "same_module a b" "module_entries a = Inr es"
  obtains es' where "module_entries b = Inr es'" "mset es' = mset es"
proof -
  obtain mid items where a: "get_str a ''id'' = Some mid" "get_array a ''resources'' = Some items"
    "try_map (stamp_resource a mid) items = Inr es"
    using assms(2) by (auto simp: module_entries_def and_then_Inr_iff option_context_Inr_iff)
  obtain items' where b: "get_array b ''resources'' = Some items'" "mset items' = mset items"
    using assms(1) a(2) by (auto simp: same_module_def option_rel_Some1)
  have version: "json_get b ''version'' = json_get a ''version''" using assms(1) by (simp add: same_module_def)
  have "stamp_resource b = stamp_resource a" unfolding fun_eq_iff stamp_resource_def version by simp
  with try_map_reorder [OF a(3) b(2)] obtain es' where "try_map (stamp_resource b mid) items' = Inr es'" "mset es' = mset es" by metis
  moreover have "get_str b ''id'' = Some mid" using assms(1) a(1) by (simp add: same_module_def)
  ultimately show thesis using that [of es'] b(1) by (simp add: module_entries_def)
qed

lemma same_modules_entries:
  "list_all2 same_module ms ns \<Longrightarrow> try_map module_entries ms = Inr es \<Longrightarrow>
    \<exists>es'. try_map module_entries ns = Inr es' \<and> mset (concat es') = mset (concat es)"
proof (induction arbitrary: es rule: list_all2_induct)
  case (Cons a ms b ns)
  then obtain e es1 where e: "module_entries a = Inr e" "try_map module_entries ms = Inr es1" "es = e # es1"
    by (auto simp: and_then_Inr_iff)
  obtain e' where "module_entries b = Inr e'" "mset e' = mset e" using same_module_entries [OF Cons(1) e(1)] by blast
  with Cons(3) [OF e(2)] e(3) show ?case by auto
qed auto

lemma mset_concat_reorder: "mset xs = mset ys \<Longrightarrow> mset (concat xs) = mset (concat ys)"
proof -
  have "mset (concat zs) = \<Sum>\<^sub># (image_mset mset (mset zs))" for zs :: "'a list list" by (induction zs) auto
  then show "mset xs = mset ys \<Longrightarrow> mset (concat xs) = mset (concat ys)" by metis
qed

lemma bt_collect_reorder:
  assumes "mset es = mset es'" "distinct (map fst es)"
  shows "bt_collect es = bt_collect es'"
proof (rule btree_eqI)
  have "distinct (map fst es')" using assms by (metis mset_eq_imp_distinct_iff mset_map)
  moreover have "set es = set es'" using assms(1) by (rule mset_eq_setD)
  ultimately have "map_of es = map_of es'" using assms(2) by (simp add: map_of_inject_set)
  then show "map_of (bt_collect es) = map_of (bt_collect es')"
    using bt_get_collect_distinct assms(2) \<open>distinct (map fst es')\<close> by (metis bt_get_def ext)
qed auto

text \<open>
  C33. The order in which a plugin package lists its modules, and a module its resources, does not matter: a package with the
  same modules in another order gives the same resources, with the same provenance.
\<close>

theorem package_order_irrelevant:
  assumes "package_resources p = Inr resources" "same_modules p q"
  shows "package_resources q = Inr resources"
proof -
  from assms(1) obtain ms es where p: "get_array p ''ontologies'' = Some ms" "ms \<noteq> []" "length ms \<le> 32"
    "try_map module_entries ms = Inr es" "distinct (map fst (concat es))" "resources = bt_collect (concat es)"
    unfolding package_resources_Inr by blast
  from assms(2) p(1) obtain ns ns' where q: "get_array q ''ontologies'' = Some ns" "mset ns' = mset ns" "list_all2 same_module ms ns'"
    by (auto simp: same_modules_def option_rel_Some1)
  obtain es1 where es1: "try_map module_entries ns' = Inr es1" "mset (concat es1) = mset (concat es)"
    using same_modules_entries [OF q(3) p(4)] by blast
  obtain es2 where es2: "try_map module_entries ns = Inr es2" "mset es2 = mset es1"
    using try_map_reorder [OF es1(1) q(2) [symmetric]] .
  have entries: "mset (concat es2) = mset (concat es)" using mset_concat_reorder [OF es2(2)] es1(2) by simp
  have "length ns = length ms" using q(2,3) by (metis list_all2_lengthD size_mset)
  moreover have "distinct (map fst (concat es2))" using entries p(5) by (metis mset_eq_imp_distinct_iff mset_map)
  moreover have "resources = bt_collect (concat es2)" using bt_collect_reorder [OF entries [symmetric] p(5)] p(6) by simp
  ultimately show ?thesis unfolding package_resources_Inr using q(1) es2(1) p(2,3) by (metis length_0_conv)
qed

definition example_package :: json where
  "example_package = JObject [(''id'', JString ''mail''), (''version'', JString ''v1''), (''ontologies'', JArray
     [JObject [(''id'', JString ''messages''), (''version'', JString ''1''), (''resources'', JArray
        [type_document ''message'' ''Message'',
         JObject [(''resource_id'', JString ''to''), (''kind'', JString ''link_type''), (''display_name'', JString ''To''),
           (''references'', JArray [JString ''message'', JString ''person'']),
           (''attributes'', JObject [(''source_type'', JString ''message''), (''target_type'', JString ''person''),
              (''mapping_slot'', JBool True)])]])],
      JObject [(''id'', JString ''people''), (''version'', JString ''2''), (''resources'', JArray
        [type_document ''person'' ''Person''])]])]"

definition reordered_package :: json where
  "reordered_package = (case example_package of
     JObject m \<Rightarrow> JObject (map (\<lambda>(k, v). (k, case v of JArray xs \<Rightarrow> JArray (List.rev xs) | _ \<Rightarrow> v)) m) | v \<Rightarrow> v)"

theorem package_order_irrelevant_witness:
  "\<exists>resources. package_resources example_package = Inr resources \<and> package_resources reordered_package = Inr resources \<and>
     bt_keys resources = [''message'', ''person'', ''to'']"
proof -
  have keys: "(case package_resources example_package of Inr r \<Rightarrow> bt_keys r = [''message'', ''person'', ''to''] | Inl _ \<Rightarrow> False)"
    by code_simp
  then obtain r where r: "package_resources example_package = Inr r" "bt_keys r = [''message'', ''person'', ''to'']"
    by (cases "package_resources example_package") auto
  obtain a b where ab: "get_array example_package ''ontologies'' = Some [a, b]" "get_array reordered_package ''ontologies'' = Some [b, a]"
    by (simp add: example_package_def reordered_package_def get_array_def json_get_def as_array_def)
  have "same_module x x" for x by (auto simp: same_module_def intro: option.rel_refl)
  then have "same_modules example_package reordered_package"
    unfolding same_modules_def ab option.rel_inject by (intro exI [of _ "[a, b]"]) (simp add: add_mset_commute)
  from package_order_irrelevant [OF r(1) this] r show ?thesis by blast
qed

section \<open>What an overlay consists of\<close>

definition overlays ::
  "(string, json) btree_map \<Rightarrow> (string, json) btree_map \<Rightarrow> (string, string) btree_map \<Rightarrow> (string, json) btree_map \<Rightarrow> bool" where
  "overlays own external mappings out \<longleftrightarrow> btree out \<and>
     (\<forall>x. case (bt_get external x, bt_get mappings x) of
        (Some r, _) \<Rightarrow> bt_get out x = Some r \<and> bt_get own x = None
      | (None, None) \<Rightarrow> bt_get out x = bt_get own x
      | (None, Some d) \<Rightarrow> \<exists>r selected r'. bt_get own x = Some r \<and> bt_get external d = Some selected \<and>
          rebind_participant r d selected = Inr r' \<and> bt_get out x = Some r')"

lemma rebind_slots_Inr:
  assumes "try_fold (rebind_slot external) own mappings = Inr out" "distinct (map fst mappings)" "btree own"
  shows "btree out \<and> (\<forall>x. case map_of mappings x of
      None \<Rightarrow> bt_get out x = bt_get own x
    | Some d \<Rightarrow> \<exists>r selected r'. bt_get own x = Some r \<and> bt_get external d = Some selected \<and>
        rebind_participant r d selected = Inr r' \<and> bt_get out x = Some r')"
  using assms
proof (induction mappings arbitrary: own)
  case (Cons e mappings)
  obtain slot d where e: "e = (slot, d)" by (cases e)
  from Cons.prems(1) obtain own' where own': "rebind_slot external own (slot, d) = Inr own'"
    "try_fold (rebind_slot external) own' mappings = Inr out" by (auto simp: e and_then_Inr_iff)
  from own'(1) obtain r selected r' where "bt_get own slot = Some r" "bt_get external d = Some selected"
    "rebind_participant r d selected = Inr r'" "own' = bt_insert slot r' own"
    unfolding rebind_slot_def by (auto simp: and_then_Inr_iff option_context_Inr_iff)
  with own'(2) have step: "bt_get own slot = Some r" "bt_get external d = Some selected"
    "rebind_participant r d selected = Inr r'" "try_fold (rebind_slot external) (bt_insert slot r' own) mappings = Inr out" by simp_all
  have fresh: "map_of mappings slot = None" using Cons.prems(2) by (simp add: e map_of_eq_None_iff)
  have "distinct (map fst mappings)" "btree (bt_insert slot r' own)" using Cons.prems(2,3) by (simp_all add: e btree_insert)
  note ih = Cons.IH [OF step(4) this]
  show ?case
  proof (intro conjI allI)
    show "btree out" using ih by simp
    fix x
    show "case map_of (e # mappings) x of None \<Rightarrow> bt_get out x = bt_get own x
      | Some d \<Rightarrow> \<exists>r selected r'. bt_get own x = Some r \<and> bt_get external d = Some selected \<and>
          rebind_participant r d selected = Inr r' \<and> bt_get out x = Some r'"
      using conjunct2 [OF ih, rule_format, of x] step fresh
      by (cases "x = slot"; cases "map_of mappings x") (simp_all add: e)
  qed
qed (auto simp: btree_def)

lemma materialize_Inr:
  assumes "materialize to_vec package target mappings = Inr overlay" "btree mappings"
  obtains own external out where "package_resources package = Inr own" "target_resources target mappings = Inr external"
    "overlays own external mappings out" "length out \<le> 1024" "overlay = overlay_document package mappings out"
    "validate_ontology overlay = Inr ()"
proof -
  from assms(1) obtain own external bound out where own: "package_resources package = Inr own"
    and external: "target_resources target mappings = Inr external"
    and bound: "try_fold (rebind_slot external) own mappings = Inr bound"
    and out: "try_fold (add_resource ''target conflicts with plugin resource'') bound external = Inr out" "length out \<le> 1024"
    and overlay: "validate_ontology (overlay_document package mappings out) = Inr ()" "overlay = overlay_document package mappings out"
    unfolding materialize_def Let_def by (auto simp: and_then_Inr_iff ensure_Inr_iff)
  have btree: "btree own" "btree external"
    using own external by (auto simp: package_resources_Inr target_resources_def and_then_Inr_iff split: if_splits)
  note b = rebind_slots_Inr [OF bound btree_distinct [OF assms(2)] btree(1)]
  have added: "set (map fst external) \<inter> set (bt_keys bound) = {}" "out = fold (\<lambda>(k, v). bt_insert k v) external bound"
    using out(1) unfolding add_resources_Inr by auto
  have get: "bt_get out x = (case bt_get external x of None \<Rightarrow> bt_get bound x | Some r \<Rightarrow> Some r)" for x
  proof -
    have "bt_get (fold (\<lambda>(k, v). bt_insert k v) es m) x = (case map_of (List.rev es) x of None \<Rightarrow> bt_get m x | Some r \<Rightarrow> Some r)" for es m
      by (induction es arbitrary: m) (auto simp: map_add_def split: option.split)
    from this [of external bound] show ?thesis
      using map_of_rev_distinct [OF btree_distinct [OF btree(2)]] by (simp add: added(2) bt_get_def [of external])
  qed
  have disjoint: "bt_get bound x = None" if "bt_get external x = Some r" for x r
  proof -
    have "x \<in> set (map fst external)" using that by (auto simp: bt_get_def dest!: map_of_SomeD intro: rev_image_eqI)
    with added(1) have "x \<notin> set (map fst bound)" unfolding bt_keys_def by blast
    then show ?thesis by (simp add: bt_get_def map_of_eq_None_iff)
  qed
  have "overlays own external mappings out" unfolding overlays_def
  proof (intro conjI allI)
    show "btree out" unfolding added(2) using b by (intro btree_fold_insert) simp
    fix x
    show "case (bt_get external x, bt_get mappings x) of
        (Some r, _) \<Rightarrow> bt_get out x = Some r \<and> bt_get own x = None
      | (None, None) \<Rightarrow> bt_get out x = bt_get own x
      | (None, Some d) \<Rightarrow> \<exists>r selected r'. bt_get own x = Some r \<and> bt_get external d = Some selected \<and>
          rebind_participant r d selected = Inr r' \<and> bt_get out x = Some r'"
      using conjunct2 [OF b, rule_format, of x] get [of x] disjoint [of x] by (auto simp: bt_get_def [of mappings] split: option.splits)
  qed
  with that own external out(2) overlay show thesis by blast
qed

text \<open>
  What the tenant's ontology contributes: nothing without mappings, otherwise the unchanged documents of exactly those
  resources that the chosen types depend on, directly or through others.
\<close>

definition imports_closure :: "json option \<Rightarrow> (string, string) btree_map \<Rightarrow> (string, json) btree_map \<Rightarrow> bool" where
  "imports_closure target mappings external \<longleftrightarrow>
     (if mappings = [] then external = []
      else \<exists>doc vs rs. target = Some doc \<and> get_array doc ''resources'' = Some vs \<and> parse_resources doc = Inr rs \<and>
        set (bt_keys external) = r_id ` set (slice_of rs (bt_values mappings) [] True) \<and> set (bt_values external) \<subseteq> set vs)"

lemma try_map_resource_ids:
  assumes "list_all2 parsed_as vs rs"
  shows "try_map (\<lambda>item. and_then (plugin_resource_id item) (\<lambda>rid. Inr (rid, item))) vs = Inr (zip (map r_id rs) vs)"
  using assms by (induction rule: list_all2_induct) (simp_all add: plugin_resource_id_def parsed_as_fields(1))

lemma target_resources_closure:
  assumes "target_resources target mappings = Inr external"
  shows "imports_closure target mappings external"
proof (cases "mappings = []")
  case False
  let ?ids = "bt_values mappings"
  from assms False obtain doc slice items where doc: "target = Some doc" "slice_ontology doc ?ids [] True = Inr slice"
    "get_array slice ''resources'' = Some items" and entries:
    "and_then (try_map (\<lambda>item. and_then (plugin_resource_id item) (\<lambda>rid. Inr (rid, item))) items) (\<lambda>es. Inr (bt_collect es)) = Inr external"
    unfolding target_resources_def by (auto simp: and_then_Inr_iff option_context_Inr_iff)
  then obtain rs where rs: "parse_resources doc = Inr rs"
    by (auto simp: slice_ontology_def and_then_Inr_iff validate_ontology_Inr_iff)
  then obtain vs sel where vs: "get_array doc ''resources'' = Some vs" "list_all2 parsed_as vs rs" "distinct (map r_id rs)"
    "selection vs ?ids [] True = Inr sel" and items: "items = filter (\<lambda>r.
      case get_str r ''resource_id'' of None \<Rightarrow> False | Some rid \<Rightarrow> rid \<in> set sel) vs"
    using doc(2,3) unfolding slice_ontology_Inr [OF rs] by (auto simp: parse_resources_iff get_eq_Some json_get_def)
  let ?S = "slice_of rs ?ids [] True"
  have S: "list_all2 parsed_as items ?S" unfolding items slice_of_def selection_set [OF vs(2-4), symmetric]
    by (rule list_all2_filter [OF vs(2)]) (simp add: parsed_as_fields(1))
  then have len: "length ?S = length items" by (simp add: list_all2_lengthD)
  have external: "external = bt_collect (zip (map r_id ?S) items)" using entries by (simp add: try_map_resource_ids [OF S])
  moreover have "distinct (map fst (zip (map r_id ?S) items))"
    using vs(3) len by (simp add: slice_of_def distinct_map_filter)
  ultimately have get: "map_of external = map_of (zip (map r_id ?S) items)" by (metis bt_get_collect_distinct bt_get_def ext)
  have keys: "set (bt_keys external) = r_id ` set ?S"
  proof -
    have "set (map fst external) = set (map fst (zip (map r_id ?S) items))"
      using arg_cong [OF get, of dom] by (simp add: dom_map_of_conv_image_fst)
    then show ?thesis using len by (simp add: bt_keys_def map_fst_zip)
  qed
  have "btree external" by (simp add: external btree_collect)
  then have "set (bt_values external) \<subseteq> ran (map_of external)"
    by (auto simp: bt_values_def ran_distinct [OF btree_distinct])
  also have "\<dots> \<subseteq> set items" unfolding get by (auto simp: ran_def dest: map_of_SomeD set_zip_rightD)
  also have "\<dots> \<subseteq> set vs" by (auto simp: items)
  finally show ?thesis unfolding imports_closure_def using False doc(1) vs(1) rs keys by auto
qed (use assms in \<open>simp add: imports_closure_def target_resources_def\<close>)

text \<open>
  C32. A plugin overlay is a valid ontology of at most 1024 resources: those of the package, in which exactly the mapped
  slots are rebound, and the closure of the chosen types in the tenant's own ontology, unchanged and disjoint from the package.
\<close>

theorem materialize_overlay:
  assumes "materialize to_vec package target mappings = Inr overlay" "btree mappings"
  shows "\<exists>own external out. package_resources package = Inr own \<and> imports_closure target mappings external \<and>
    overlays own external mappings out \<and> length out \<le> 1024 \<and> overlay = overlay_document package mappings out \<and>
    validate_ontology overlay = Inr ()"
  using materialize_Inr [OF assms] target_resources_closure by (metis (no_types, lifting))

theorem materialize_overlay_witness:
  "\<exists>overlay out. materialize (\<lambda>_. []) example_package (Some base_ontology) [(''to'', ''t'')] = Inr overlay \<and>
     overlay = overlay_document example_package [(''to'', ''t'')] out \<and> validate_ontology overlay = Inr ()"
proof -
  have "case materialize (\<lambda>_. []) example_package (Some base_ontology) [(''to'', ''t'')] of Inr _ \<Rightarrow> True | Inl _ \<Rightarrow> False"
    by code_simp
  then obtain overlay where m: "materialize (\<lambda>_. []) example_package (Some base_ontology) [(''to'', ''t'')] = Inr overlay"
    by (cases "materialize (\<lambda>_. []) example_package (Some base_ontology) [(''to'', ''t'')]") auto
  have "btree [(''to'', ''t'')]" by (simp add: btree_def)
  from materialize_overlay [OF m this] m show ?thesis by blast
qed

end
