(* ===== verification/Document_Queue.thy ===== *)
theory Document_Queue
  imports Effects Bytes "HOL-Library.Product_Lexorder"
begin

text \<open>
  The compilation queue (\<open>services/document-compiler/src/adapters/queue.rs\<close>, \<open>domain.rs\<close>, \<open>migrations/001_queue.sql\<close>): one table of jobs in an SQL
  database. A database is its rows, the rows to go back to while a transaction is open, and an oracle that says
  which calls fail: the statements of this theory hold whatever calls fail. Rows are listed in the order in which the
  database scans them. Leases (\<open>Uuid::new_v4\<close>) are parameters of the calls.
\<close>

section \<open>Definitions\<close>

record new_job =
  nj_id :: string
  nj_tenant :: string
  nj_actor :: string
  nj_generation :: string
  nj_fingerprint :: string
  nj_capability :: string
  nj_template_id :: string
  nj_template_version :: string

record job =
  job_id :: string
  job_tenant :: string
  job_actor :: string
  job_generation :: string
  job_fingerprint :: string
  job_capability :: string
  job_template_id :: string
  job_template_version :: string
  job_status :: string
  job_failure :: string
  job_lease :: string
  job_lease_until :: int
  job_attempts :: int
  job_created_at :: int

record database =
  db_rows :: "job list"
  db_saved :: "job list option"
  db_calls :: nat
  db_fails :: "nat \<Rightarrow> bool"

text \<open>
  Statements. A call that fails changes nothing. \<open>BEGIN\<close> inside a transaction is an error; outside one, every
  statement is its own transaction.
\<close>

definition db_call :: "(job list \<Rightarrow> 'a \<times> job list) \<Rightarrow> (database, 'a) io" where
  "db_call f d =
     (let d' = d\<lparr>db_calls := Suc (db_calls d)\<rparr> in
      if db_fails d (db_calls d) then (bail ''database error'', d')
      else case f (db_rows d) of (x, rows) \<Rightarrow> (Inr x, d'\<lparr>db_rows := rows\<rparr>))"

definition db_control :: "(database \<Rightarrow> database option) \<Rightarrow> (database, unit) io" where
  "db_control f d =
     (let d' = d\<lparr>db_calls := Suc (db_calls d)\<rparr> in
      if db_fails d (db_calls d) then (bail ''database error'', d')
      else case f d' of None \<Rightarrow> (bail ''database error'', d') | Some d'' \<Rightarrow> (Inr (), d''))"

definition begin_immediate :: "database \<Rightarrow> database option" where
  "begin_immediate d = (if db_saved d = None then Some (d\<lparr>db_saved := Some (db_rows d)\<rparr>) else None)"

definition commit_transaction :: "database \<Rightarrow> database option" where
  "commit_transaction d = (if db_saved d = None then None else Some (d\<lparr>db_saved := None\<rparr>))"

definition rollback_transaction :: "database \<Rightarrow> database option" where
  "rollback_transaction d =
     (case db_saved d of None \<Rightarrow> None | Some rows \<Rightarrow> Some (d\<lparr>db_rows := rows, db_saved := None\<rparr>))"

definition sql_select :: "(job \<Rightarrow> bool) \<Rightarrow> (database, job list) io" where
  "sql_select P = db_call (\<lambda>rows. (filter P rows, rows))"

definition sql_update :: "(job \<Rightarrow> bool) \<Rightarrow> (job \<Rightarrow> job) \<Rightarrow> (database, nat) io" where
  "sql_update P f = db_call (\<lambda>rows. (length (filter P rows), map (\<lambda>r. if P r then f r else r) rows))"

definition sql_delete :: "(job \<Rightarrow> bool) \<Rightarrow> (database, nat) io" where
  "sql_delete P = db_call (\<lambda>rows. (length (filter P rows), filter (\<lambda>r. \<not> P r) rows))"

definition sql_insert :: "job \<Rightarrow> (database, unit) io" where
  "sql_insert r = db_call (\<lambda>rows. ((), rows @ [r]))"

text \<open>\<open>transaction\<close>: a failure of the operation or of the commit is followed by a rollback, whose own failure is only logged.\<close>

definition transaction :: "(database, 'a) io \<Rightarrow> (database, 'a) io" where
  "transaction operation d =
     (case db_control begin_immediate d of
        (Inl e, d) \<Rightarrow> (Inl e, d)
      | (Inr _, d) \<Rightarrow>
          (case operation d of
             (Inr x, d) \<Rightarrow>
               (case db_control commit_transaction d of
                  (Inr _, d) \<Rightarrow> (Inr x, d)
                | (Inl e, d) \<Rightarrow> (Inl e, snd (db_control rollback_transaction d)))
           | (Inl e, d) \<Rightarrow> (Inl e, snd (db_control rollback_transaction d))))"

definition TERMINAL :: "string list" where
  "TERMINAL = [''completed'', ''failed'', ''cancelled'']"

definition ACTIVE :: "string list" where
  "ACTIVE = [''queued'', ''running'']"

definition RETENTION :: int where "RETENTION = 7 * 24 * 60 * 60 * 1000"

definition i64_saturating :: "int \<Rightarrow> int" where
  "i64_saturating n = max (- (2 ^ 63)) (min n (2 ^ 63 - 1))"

definition i64_wrap :: "int \<Rightarrow> int" where
  "i64_wrap n = (n + 2 ^ 63) mod 2 ^ 64 - 2 ^ 63"

definition queue_expired :: "int \<Rightarrow> (database, job list) io" where
  "queue_expired now_ms =
     io_then (sql_select (\<lambda>r. job_status r \<in> set TERMINAL \<and> job_created_at r \<le> i64_saturating (now_ms - RETENTION))) (\<lambda>rows.
     lift_io (Inr (take 32 rows)))"

definition queue_forget :: "job \<Rightarrow> (database, unit) io" where
  "queue_forget job =
     io_then (sql_delete (\<lambda>r. job_id r = job_id job \<and> job_tenant r = job_tenant job \<and> job_lease r = job_lease job \<and>
       job_status r \<in> set TERMINAL)) (\<lambda>_.
     lift_io (Inr ()))"

definition first_row :: "job list \<Rightarrow> job option" where
  "first_row rows = (case rows of [] \<Rightarrow> None | r # _ \<Rightarrow> Some r)"

definition require_row :: "job option \<Rightarrow> job result" where
  "require_row r = option_context ''Record not found'' r"

definition queued_row :: "new_job \<Rightarrow> int \<Rightarrow> job" where
  "queued_row item now_ms =
     \<lparr>job_id = nj_id item, job_tenant = nj_tenant item, job_actor = nj_actor item, job_generation = nj_generation item,
      job_fingerprint = nj_fingerprint item, job_capability = nj_capability item, job_template_id = nj_template_id item,
      job_template_version = nj_template_version item, job_status = ''queued'', job_failure = [], job_lease = [],
      job_lease_until = 0, job_attempts = 0, job_created_at = now_ms\<rparr>"

definition queue_enqueue :: "new_job \<Rightarrow> int \<Rightarrow> (database, job) io" where
  "queue_enqueue item now_ms = transaction (
     io_then (sql_select (\<lambda>r. job_id r = nj_id item)) (\<lambda>rows.
     case first_row rows of
       Some existing \<Rightarrow>
         io_ensure (job_tenant existing = nj_tenant item \<and> job_actor existing = nj_actor item \<and>
             job_generation existing = nj_generation item \<and> job_fingerprint existing = nj_fingerprint item)
           ''Idempotency conflict'' (lift_io (Inr existing))
     | None \<Rightarrow>
         io_then (sql_select (\<lambda>r. job_status r \<in> set ACTIVE)) (\<lambda>active.
         io_then (sql_select (\<lambda>r. job_tenant r = nj_tenant item \<and> job_status r \<in> set ACTIVE)) (\<lambda>tenant_active.
         io_ensure (length active < 256 \<and> length tenant_active < 32) ''Compilation queue is full'' (
         io_then (sql_insert (queued_row item now_ms)) (\<lambda>_.
         io_then (sql_select (\<lambda>r. job_id r = nj_id item)) (\<lambda>rows.
         lift_io (require_row (first_row rows)))))))))"

definition queue_get :: "string \<Rightarrow> string \<Rightarrow> (database, job) io" where
  "queue_get tenant x =
     io_then (sql_select (\<lambda>r. job_id r = x \<and> job_tenant r = tenant)) (\<lambda>rows. lift_io (require_row (first_row rows)))"

definition eligible :: "int \<Rightarrow> job \<Rightarrow> bool" where
  "eligible now_ms r \<longleftrightarrow> job_status r = ''queued'' \<or> job_status r = ''running'' \<and> job_lease_until r < now_ms"

definition queue_claim :: "string \<Rightarrow> int \<Rightarrow> (database, job option) io" where
  "queue_claim lease now_ms = transaction (
     io_then (sql_select (eligible now_ms)) (\<lambda>rows.
     case first_row (sort_key (\<lambda>r. (job_created_at r, job_id r)) rows) of
       None \<Rightarrow> lift_io (Inr None)
     | Some candidate \<Rightarrow>
         if job_attempts candidate \<ge> 3 then
           io_then (sql_update (\<lambda>r. job_id r = job_id candidate \<and> job_lease r = job_lease candidate)
             (\<lambda>r. r\<lparr>job_status := ''failed'', job_failure := ''retry_limit''\<rparr>)) (\<lambda>_.
           lift_io (Inr None))
         else
           io_then (sql_update (\<lambda>r. job_id r = job_id candidate \<and> job_lease r = job_lease candidate \<and> job_status r = job_status candidate)
             (\<lambda>r. r\<lparr>job_status := ''running'', job_lease := lease, job_lease_until := i64_wrap (now_ms + 90000),
                job_attempts := job_attempts candidate + 1\<rparr>)) (\<lambda>changed.
           if changed = 0 then lift_io (Inr None)
           else
             io_then (sql_select (\<lambda>r. job_id r = job_id candidate)) (\<lambda>rows.
             io_then (lift_io (require_row (first_row rows))) (\<lambda>r.
             lift_io (Inr (Some r)))))))"

definition finish_with :: "job \<Rightarrow> string \<Rightarrow> string \<Rightarrow> (database, bool) io" where
  "finish_with job status failure =
     io_ensure (status = ''completed'' \<or> status = ''failed'') ''Invalid terminal state'' (
     io_then (sql_update (\<lambda>r. job_id r = job_id job \<and> job_tenant r = job_tenant job \<and> job_lease r = job_lease job \<and>
         job_status r = ''running'') (\<lambda>r. r\<lparr>job_status := status, job_failure := failure\<rparr>)) (\<lambda>changed.
     lift_io (Inr (changed = 1))))"

definition queue_finish :: "job \<Rightarrow> bool \<Rightarrow> (database, bool) io" where
  "queue_finish job succeeded =
     finish_with job (if succeeded then ''completed'' else ''failed'') (if succeeded then [] else ''compilation_failed'')"

definition queue_cancel :: "string \<Rightarrow> string \<Rightarrow> (database, job) io" where
  "queue_cancel tenant x =
     io_then (sql_update (\<lambda>r. job_id r = x \<and> job_tenant r = tenant \<and> job_status r \<in> set ACTIVE)
       (\<lambda>r. r\<lparr>job_status := ''cancelled''\<rparr>)) (\<lambda>_.
     queue_get tenant x)"

section \<open>Requests\<close>

datatype queue_request =
    Enqueue new_job int
  | Claim string int
  | Finish job bool
  | Cancel string string
  | Get string string
  | Expired int
  | Forget job

section \<open>What a call writes\<close>

text \<open>Every operation makes at most one write; these are the writes, with the conditions under which they are made.\<close>

inductive writes :: "queue_request \<Rightarrow> job list \<Rightarrow> job list \<Rightarrow> bool" where
  enqueue: "nj_id item \<notin> job_id ` set rows \<Longrightarrow> length (filter (\<lambda>r. job_status r \<in> set ACTIVE) rows) < 256 \<Longrightarrow>
    length (filter (\<lambda>r. job_tenant r = nj_tenant item \<and> job_status r \<in> set ACTIVE) rows) < 32 \<Longrightarrow>
    writes (Enqueue item now_ms) rows (rows @ [queued_row item now_ms])"
| exhaust: "c \<in> set rows \<Longrightarrow> eligible now_ms c \<Longrightarrow> 3 \<le> job_attempts c \<Longrightarrow>
    writes (Claim lease now_ms) rows (map (\<lambda>r. if job_id r = job_id c \<and> job_lease r = job_lease c
      then r\<lparr>job_status := ''failed'', job_failure := ''retry_limit''\<rparr> else r) rows)"
| start: "c \<in> set rows \<Longrightarrow> eligible now_ms c \<Longrightarrow> job_attempts c < 3 \<Longrightarrow>
    writes (Claim lease now_ms) rows (map (\<lambda>r. if job_id r = job_id c \<and> job_lease r = job_lease c \<and> job_status r = job_status c
      then r\<lparr>job_status := ''running'', job_lease := lease, job_lease_until := i64_wrap (now_ms + 90000),
        job_attempts := job_attempts c + 1\<rparr> else r) rows)"
| finish: "status = (if ok then ''completed'' else ''failed'') \<Longrightarrow> failure = (if ok then [] else ''compilation_failed'') \<Longrightarrow>
    writes (Finish j ok) rows (map (\<lambda>r. if job_id r = job_id j \<and> job_tenant r = job_tenant j \<and> job_lease r = job_lease j \<and> job_status r = ''running''
      then r\<lparr>job_status := status, job_failure := failure\<rparr> else r) rows)"
| cancel: "writes (Cancel tenant x) rows (map (\<lambda>r. if job_id r = x \<and> job_tenant r = tenant \<and> job_status r \<in> set ACTIVE
    then r\<lparr>job_status := ''cancelled''\<rparr> else r) rows)"
| forget: "writes (Forget j) rows (filter (\<lambda>r. \<not> (job_id r = job_id j \<and> job_tenant r = job_tenant j \<and> job_lease r = job_lease j \<and>
    job_status r \<in> set TERMINAL)) rows)"

definition writes_once :: "queue_request \<Rightarrow> (database, 'a) io \<Rightarrow> bool" where
  "writes_once q m \<longleftrightarrow> (\<forall>d res d'. m d = (res, d') \<longrightarrow> db_saved d' = db_saved d \<and>
     (db_rows d' = db_rows d \<or> writes q (db_rows d) (db_rows d')))"

lemmas sql_defs = sql_select_def sql_update_def sql_delete_def sql_insert_def db_call_def Let_def bail_def

lemma transaction_writes:
  assumes "writes_once q m" "transaction m d = (res, d')"
  shows "db_rows d' = db_rows d \<or> writes q (db_rows d) (db_rows d')"
proof -
  obtain r0 d0 where d0: "db_control begin_immediate d = (r0, d0)" by fastforce
  show ?thesis
  proof (cases r0)
    case (Inl e)
    with d0 assms(2) show ?thesis
      by (auto simp: transaction_def db_control_def begin_immediate_def Let_def bail_def split: if_splits)
  next
    case (Inr u)
    then have begun: "db_rows d0 = db_rows d" "db_saved d0 = Some (db_rows d)"
      using d0 by (auto simp: db_control_def begin_immediate_def Let_def bail_def split: if_splits)
    obtain r1 d1 where d1: "m d0 = (r1, d1)" by fastforce
    then have m: "db_saved d1 = Some (db_rows d)" "db_rows d1 = db_rows d \<or> writes q (db_rows d) (db_rows d1)"
      using assms(1) begun unfolding writes_once_def by metis+
    have rolled: "db_rows (snd (db_control rollback_transaction d2)) \<in> {db_rows d, db_rows d1}"
      if "db_saved d2 = Some (db_rows d)" "db_rows d2 = db_rows d1" for d2
      using that by (auto simp: db_control_def rollback_transaction_def Let_def)
    show ?thesis
    proof (cases r1)
      case (Inl e)
      with assms(2) d0 Inr d1 rolled [of d1] m show ?thesis by (auto simp: transaction_def)
    next
      case (Inr x)
      obtain r2 d2 where d2: "db_control commit_transaction d1 = (r2, d2)" by fastforce
      then have "db_rows d2 = db_rows d1" "isl r2 \<longrightarrow> db_saved d2 = Some (db_rows d)"
        using m(1) by (auto simp: db_control_def commit_transaction_def Let_def bail_def split: if_splits)
      with assms(2) d0 \<open>r0 = Inr u\<close> d1 Inr d2 rolled [of d2] m show ?thesis by (cases r2) (auto simp: transaction_def)
    qed
  qed
qed

lemma sql_select_run: "sql_select P d = (res, d') \<Longrightarrow> db_rows d' = db_rows d \<and> db_saved d' = db_saved d \<and>
    (\<forall>xs. res = Inr xs \<longrightarrow> xs = filter P (db_rows d))"
  by (auto simp: sql_defs split: if_splits)

lemma sql_update_run: "sql_update P f d = (res, d') \<Longrightarrow> db_saved d' = db_saved d \<and>
    db_rows d' \<in> {db_rows d, map (\<lambda>r. if P r then f r else r) (db_rows d)}"
  by (auto simp: sql_defs split: if_splits)

lemma sql_insert_run: "sql_insert r d = (res, d') \<Longrightarrow> db_saved d' = db_saved d \<and> db_rows d' \<in> {db_rows d, db_rows d @ [r]}"
  by (auto simp: sql_defs split: if_splits)

lemma sql_delete_run: "sql_delete P d = (res, d') \<Longrightarrow> db_saved d' = db_saved d \<and>
    db_rows d' \<in> {db_rows d, filter (\<lambda>r. \<not> P r) (db_rows d)}"
  by (auto simp: sql_defs split: if_splits)

definition writes_from :: "queue_request \<Rightarrow> job list \<Rightarrow> (database, 'a) io \<Rightarrow> bool" where
  "writes_from q rows m \<longleftrightarrow> (\<forall>d res d'. db_rows d = rows \<longrightarrow> m d = (res, d') \<longrightarrow> db_saved d' = db_saved d \<and>
     (db_rows d' = rows \<or> writes q rows (db_rows d')))"

definition quiet :: "(database, 'a) io \<Rightarrow> bool" where
  "quiet m \<longleftrightarrow> (\<forall>d res d'. m d = (res, d') \<longrightarrow> db_saved d' = db_saved d \<and> db_rows d' = db_rows d)"

named_theorems write_rules

lemma quietD: "quiet m \<Longrightarrow> m d = (res, d') \<Longrightarrow> db_saved d' = db_saved d \<and> db_rows d' = db_rows d"
  by (auto simp: quiet_def)

lemma quiet_basic [write_rules]: "quiet (lift_io r)" "quiet (sql_select P)"
  by (auto simp: quiet_def lift_io_def dest: sql_select_run)

lemma quiet_then [write_rules]: "quiet m \<Longrightarrow> (\<And>x. quiet (f x)) \<Longrightarrow> quiet (io_then m f)"
  unfolding quiet_def io_then_def by (auto split: prod.splits sum.splits)

lemma quiet_if [write_rules]: "quiet a \<Longrightarrow> quiet b \<Longrightarrow> quiet (if c then a else b)"
  by simp

lemma writes_from_lift [write_rules]: "writes_from q rows (lift_io r)"
  by (simp add: writes_from_def lift_io_def)

lemma writes_from_select [write_rules]:
  assumes "writes_from q rows (f (filter P rows))"
  shows "writes_from q rows (io_then (sql_select P) f)"
  unfolding writes_from_def
proof (intro allI impI)
  fix d res d'
  assume d: "db_rows d = rows" "io_then (sql_select P) f d = (res, d')"
  obtain r d1 where r: "sql_select P d = (r, d1)" by fastforce
  note sel = sql_select_run [OF r]
  show "db_saved d' = db_saved d \<and> (db_rows d' = rows \<or> writes q rows (db_rows d'))"
  proof (cases r)
    case (Inr xs)
    with sel d have "xs = filter P rows" "f xs d1 = (res, d')" "db_rows d1 = rows" using r by auto
    with assms sel show ?thesis unfolding writes_from_def by metis
  qed (use r d sel in auto)
qed

lemma writes_from_ensure [write_rules]: "(c \<Longrightarrow> writes_from q rows k) \<Longrightarrow> writes_from q rows (io_ensure c msg k)"
  by (cases c) (simp_all add: writes_from_lift)

lemma writes_from_write:
  assumes "\<And>d res d'. m d = (res, d') \<Longrightarrow> db_saved d' = db_saved d \<and> db_rows d' \<in> {db_rows d, w (db_rows d)}"
    and "writes q rows (w rows)" "\<And>x. quiet (f x)"
  shows "writes_from q rows (io_then m f)"
  unfolding writes_from_def
proof (intro allI impI)
  fix d res d'
  assume d: "db_rows d = rows" "io_then m f d = (res, d')"
  obtain r d1 where r: "m d = (r, d1)" by fastforce
  note step = assms(1) [OF r]
  show "db_saved d' = db_saved d \<and> (db_rows d' = rows \<or> writes q rows (db_rows d'))"
  proof (cases r)
    case (Inr x)
    then have "f x d1 = (res, d')" using d r by simp
    with quietD [OF assms(3) this] step assms(2) d(1) show ?thesis by auto
  qed (use r d step assms(2) in auto)
qed

lemma writes_from_update [write_rules]:
  "writes q rows (map (\<lambda>r. if P r then g r else r) rows) \<Longrightarrow> (\<And>n. quiet (f n)) \<Longrightarrow> writes_from q rows (io_then (sql_update P g) f)"
  using sql_update_run [of P g] by (rule writes_from_write)

lemma writes_from_insert [write_rules]:
  "writes q rows (rows @ [r]) \<Longrightarrow> (\<And>u. quiet (f u)) \<Longrightarrow> writes_from q rows (io_then (sql_insert r) f)"
  using sql_insert_run [of r] by (rule writes_from_write)

lemma writes_from_delete [write_rules]:
  "writes q rows (filter (\<lambda>r. \<not> P r) rows) \<Longrightarrow> (\<And>n. quiet (f n)) \<Longrightarrow> writes_from q rows (io_then (sql_delete P) f)"
  using sql_delete_run [of P] by (rule writes_from_write)

lemma writes_onceI: "(\<And>rows. writes_from q rows m) \<Longrightarrow> writes_once q m"
  by (auto simp: writes_once_def writes_from_def)

lemma first_row_Some: "first_row rows = Some r \<longleftrightarrow> (\<exists>rs. rows = r # rs)"
  by (cases rows) (auto simp: first_row_def)

lemma first_row_filter: "first_row (filter P rows) = None \<Longrightarrow> \<forall>r \<in> set rows. \<not> P r"
  by (auto simp: first_row_def filter_empty_conv split: list.splits)

lemma queue_enqueue_writes:
  assumes "queue_enqueue item now_ms d = (res, d')"
  shows "db_rows d' = db_rows d \<or> writes (Enqueue item now_ms) (db_rows d) (db_rows d')"
proof (rule transaction_writes [OF writes_onceI assms [unfolded queue_enqueue_def]], goal_cases)
  case (1 rows)
  have "writes (Enqueue item now_ms) rows (rows @ [queued_row item now_ms])" if "first_row (filter (\<lambda>r. job_id r = nj_id item) rows) = None"
    "length (filter (\<lambda>r. job_status r \<in> set ACTIVE) rows) < 256"
    "length (filter (\<lambda>r. job_tenant r = nj_tenant item \<and> job_status r \<in> set ACTIVE) rows) < 32"
    using first_row_filter [OF that(1)] that(2,3) by (intro writes.enqueue) auto
  then show ?case by (intro writes_from_select) (auto split: option.split intro!: write_rules)
qed

lemma queue_claim_writes:
  assumes "queue_claim lease now_ms d = (res, d')"
  shows "db_rows d' = db_rows d \<or> writes (Claim lease now_ms) (db_rows d) (db_rows d')"
proof (rule transaction_writes [OF writes_onceI assms [unfolded queue_claim_def]], goal_cases)
  case (1 rows)
  have "c \<in> set rows \<and> eligible now_ms c" if "first_row (sort_key f (filter (eligible now_ms) rows)) = Some c"
    for c and f :: "job \<Rightarrow> int \<times> string"
  proof -
    from that obtain rs where "sort_key f (filter (eligible now_ms) rows) = c # rs" by (auto simp: first_row_Some)
    then have "c \<in> set (sort_key f (filter (eligible now_ms) rows))" by (metis list.set_intros(1))
    then show ?thesis by simp
  qed
  note candidate = this
  show ?case
  proof (rule writes_from_select, split option.split, intro conjI allI impI, goal_cases)
    case 1
    show ?case by (rule writes_from_lift)
  next
    case (2 c)
    note c = candidate [OF this]
    show ?case
    proof (cases "3 \<le> job_attempts c")
      case True
      have "writes_from (Claim lease now_ms) rows (io_then (sql_update (\<lambda>r. job_id r = job_id c \<and> job_lease r = job_lease c)
          (\<lambda>r. r\<lparr>job_status := ''failed'', job_failure := ''retry_limit''\<rparr>)) (\<lambda>_. lift_io (Inr None :: job option result)))"
        using c True by (intro write_rules writes.exhaust [of c _ now_ms lease]) simp_all
      with True show ?thesis by simp
    next
      case False
      have "quiet (if n = 0 then lift_io (Inr None) else io_then (sql_select (\<lambda>r. job_id r = job_id c))
          (\<lambda>rows. io_then (lift_io (require_row (first_row rows))) (\<lambda>r. lift_io (Inr (Some r)))))" for n :: nat
        by (intro write_rules)
      then show ?thesis using c False
        by (simp only: if_False) (rule writes_from_update [OF writes.start [of c rows now_ms lease]], simp_all)
    qed
  qed
qed

lemma queue_finish_writes:
  "queue_finish j ok d = (res, d') \<Longrightarrow> db_rows d' = db_rows d \<or> writes (Finish j ok) (db_rows d) (db_rows d')"
proof -
  have "writes_from (Finish j ok) rows (queue_finish j ok)" for rows
    unfolding queue_finish_def finish_with_def by (auto intro!: write_rules writes.finish)
  then show "queue_finish j ok d = (res, d') \<Longrightarrow> ?thesis" unfolding writes_from_def by blast
qed

lemma queue_cancel_writes:
  "queue_cancel tenant x d = (res, d') \<Longrightarrow> db_rows d' = db_rows d \<or> writes (Cancel tenant x) (db_rows d) (db_rows d')"
proof -
  have "writes_from (Cancel tenant x) rows (queue_cancel tenant x)" for rows
    unfolding queue_cancel_def queue_get_def by (intro write_rules writes.cancel)
  then show "queue_cancel tenant x d = (res, d') \<Longrightarrow> ?thesis" unfolding writes_from_def by blast
qed

lemma queue_forget_writes:
  "queue_forget j d = (res, d') \<Longrightarrow> db_rows d' = db_rows d \<or> writes (Forget j) (db_rows d) (db_rows d')"
proof -
  have "writes_from (Forget j) rows (queue_forget j)" for rows
    unfolding queue_forget_def by (intro write_rules writes.forget)
  then show "queue_forget j d = (res, d') \<Longrightarrow> ?thesis" unfolding writes_from_def by blast
qed

lemma queue_reads_quiet: "quiet (queue_get tenant x)" "quiet (queue_expired now_ms)"
  unfolding queue_get_def queue_expired_def by (intro write_rules)+

section \<open>The queue as a state machine\<close>

definition serve_queue :: "queue_request \<Rightarrow> database \<Rightarrow> database" where
  "serve_queue q d =
     (case q of
        Enqueue item now_ms \<Rightarrow> snd (queue_enqueue item now_ms d)
      | Claim lease now_ms \<Rightarrow> snd (queue_claim lease now_ms d)
      | Finish j ok \<Rightarrow> snd (queue_finish j ok d)
      | Cancel tenant x \<Rightarrow> snd (queue_cancel tenant x d)
      | Get tenant x \<Rightarrow> snd (queue_get tenant x d)
      | Expired now_ms \<Rightarrow> snd (queue_expired now_ms d)
      | Forget j \<Rightarrow> snd (queue_forget j d))"

definition queue_after :: "queue_request list \<Rightarrow> database \<Rightarrow> database" where
  "queue_after qs d = fold serve_queue qs d"

definition open_queue :: "(nat \<Rightarrow> bool) \<Rightarrow> database" where
  "open_queue fails = \<lparr>db_rows = [], db_saved = None, db_calls = 0, db_fails = fails\<rparr>"

lemma serve_queue_writes: "db_rows (serve_queue q d) = db_rows d \<or> writes q (db_rows d) (db_rows (serve_queue q d))"
proof (cases q)
  case (Get tenant x)
  then show ?thesis using quietD [OF queue_reads_quiet(1), of tenant x d] by (cases "queue_get tenant x d") (simp add: serve_queue_def)
next
  case (Expired now_ms)
  then show ?thesis using quietD [OF queue_reads_quiet(2), of now_ms d] by (cases "queue_expired now_ms d") (simp add: serve_queue_def)
qed (simp_all add: serve_queue_def queue_enqueue_writes [OF prod.collapse [symmetric]] queue_claim_writes [OF prod.collapse [symmetric]]
    queue_finish_writes [OF prod.collapse [symmetric]] queue_cancel_writes [OF prod.collapse [symmetric]]
    queue_forget_writes [OF prod.collapse [symmetric]])

text \<open>What the writes keep, every request keeps.\<close>

lemma queue_after_invariant:
  assumes "\<And>q rows rows'. q \<in> set qs \<Longrightarrow> writes q rows rows' \<Longrightarrow> I rows \<Longrightarrow> I rows'" "I (db_rows d)"
  shows "I (db_rows (queue_after qs d))"
  using assms
proof (induction qs arbitrary: d)
  case (Cons q qs)
  have "I (db_rows (serve_queue q d))" using serve_queue_writes [of q d] Cons.prems by (metis list.set_intros(1))
  moreover have "I rows'" if "q' \<in> set qs" "writes q' rows rows'" "I rows" for q' rows rows'
    using Cons.prems(1) [of q' rows rows'] that by simp
  ultimately show ?case using Cons.IH [of "serve_queue q d"] by (simp add: queue_after_def)
qed (simp add: queue_after_def)

definition job_ok :: "job \<Rightarrow> bool" where
  "job_ok r \<longleftrightarrow> job_status r \<in> set (ACTIVE @ TERMINAL) \<and> 0 \<le> job_attempts r \<and> job_attempts r \<le> 3 \<and>
     (job_status r = ''queued'' \<longrightarrow> job_attempts r = 0 \<and> job_lease r = []) \<and>
     (job_status r \<in> {''running'', ''completed''} \<longrightarrow> 1 \<le> job_attempts r) \<and>
     (job_failure r \<noteq> [] \<longrightarrow> job_status r = ''failed'')"

definition active_rows :: "job list \<Rightarrow> job list" where
  "active_rows rows = filter (\<lambda>r. job_status r \<in> set ACTIVE) rows"

definition queue_ok :: "job list \<Rightarrow> bool" where
  "queue_ok rows \<longleftrightarrow> distinct (map job_id rows) \<and> (\<forall>r \<in> set rows. job_ok r) \<and> length (active_rows rows) \<le> 256 \<and>
     (\<forall>t. length (filter (\<lambda>r. job_tenant r = t) (active_rows rows)) \<le> 32)"

lemma same_id: "distinct (map job_id rows) \<Longrightarrow> r \<in> set rows \<Longrightarrow> c \<in> set rows \<Longrightarrow> job_id r = job_id c \<Longrightarrow> r = c"
  by (auto simp: distinct_map inj_on_def)

lemma length_filter_update:
  assumes "\<And>r. r \<in> set rows \<Longrightarrow> Q (g r) \<Longrightarrow> Q r"
  shows "length (filter Q (map g rows)) \<le> length (filter Q rows)"
  using assms by (induction rows) (auto simp: le_SucI)

lemma queue_ok_update:
  assumes "queue_ok rows" and "\<And>r. r \<in> set rows \<Longrightarrow> P r \<Longrightarrow> job_id (g r) = job_id r \<and> job_tenant (g r) = job_tenant r \<and>
      job_ok (g r) \<and> (job_status (g r) \<in> set ACTIVE \<longrightarrow> job_status r \<in> set ACTIVE)"
  shows "queue_ok (map (\<lambda>r. if P r then g r else r) rows)"
proof -
  let ?u = "\<lambda>r. if P r then g r else r"
  have "map job_id (map ?u rows) = map job_id rows" using assms(2) by simp
  moreover have "\<forall>r \<in> set (map ?u rows). job_ok r" using assms by (auto simp: queue_ok_def)
  moreover have "length (active_rows (map ?u rows)) \<le> length (active_rows rows)"
    unfolding active_rows_def by (rule length_filter_update) (use assms(2) in \<open>auto split: if_splits\<close>)
  moreover have "length (filter (\<lambda>r. job_tenant r = t) (active_rows (map ?u rows))) \<le> length (filter (\<lambda>r. job_tenant r = t) (active_rows rows))" for t
    unfolding active_rows_def filter_filter by (rule length_filter_update) (use assms(2) in \<open>auto split: if_splits\<close>)
  ultimately show ?thesis using assms(1) unfolding queue_ok_def by (metis (no_types, lifting) order_trans)
qed

lemma writes_queue_ok:
  assumes "writes q rows rows'" "queue_ok rows"
  shows "queue_ok rows'"
  using assms
proof cases
  case (enqueue item now_ms)
  have "job_ok (queued_row item now_ms)" by (simp add: job_ok_def queued_row_def ACTIVE_def)
  with enqueue assms(2) show ?thesis
    by (auto simp: queue_ok_def active_rows_def queued_row_def [of item now_ms] ACTIVE_def [symmetric] conj_commute)
next
  case (exhaust c now_ms lease)
  show ?thesis unfolding exhaust(2)
  proof (rule queue_ok_update [OF assms(2)], goal_cases)
    case (1 r)
    then have "r = c" using same_id exhaust(3) assms(2) by (auto simp: queue_ok_def)
    then show ?case using exhaust(3) assms(2) by (auto simp: queue_ok_def job_ok_def TERMINAL_def ACTIVE_def)
  qed
next
  case (start c now_ms lease)
  show ?thesis unfolding start(2)
  proof (rule queue_ok_update [OF assms(2)], goal_cases)
    case (1 r)
    then have "r = c" using same_id start(3) assms(2) by (auto simp: queue_ok_def)
    moreover have "job_ok c" using start(3) assms(2) by (simp add: queue_ok_def)
    ultimately show ?case using start(4,5) by (auto simp: job_ok_def eligible_def TERMINAL_def ACTIVE_def)
  qed
next
  case (finish status ok failure j)
  show ?thesis unfolding finish(2)
    by (rule queue_ok_update [OF assms(2)]) (use finish assms(2) in \<open>auto simp: queue_ok_def job_ok_def TERMINAL_def ACTIVE_def\<close>)
next
  case (cancel x tenant)
  show ?thesis unfolding cancel(2)
    by (rule queue_ok_update [OF assms(2)]) (use assms(2) in \<open>auto simp: queue_ok_def job_ok_def TERMINAL_def ACTIVE_def\<close>)
next
  case (forget j)
  let ?P = "\<lambda>r. \<not> (job_id r = job_id j \<and> job_tenant r = job_tenant j \<and> job_lease r = job_lease j \<and> job_status r \<in> set TERMINAL)"
  have shorter: "length (filter Q (filter ?P rows)) \<le> length (filter Q rows)" for Q
    by (induction rows) auto
  have "distinct (map job_id (filter ?P rows))" using assms(2) by (auto simp: queue_ok_def distinct_map_filter)
  moreover have "length (active_rows (filter ?P rows)) \<le> length (active_rows rows)" unfolding active_rows_def by (rule shorter)
  moreover have "length (filter (\<lambda>r. job_tenant r = t) (active_rows (filter ?P rows))) \<le> length (filter (\<lambda>r. job_tenant r = t) (active_rows rows))" for t
    using shorter [of "\<lambda>r. job_tenant r = t \<and> job_status r \<in> set ACTIVE"] by (simp add: active_rows_def conj_commute)
  ultimately show ?thesis using assms(2) unfolding queue_ok_def forget(2) by (metis (no_types, lifting) filter_is_subset order_trans subsetD)
qed

text \<open>
  C17. Whatever requests the queue serves, in any order, and whatever database calls fail on the way: job identifiers stay unique,
  at most 256 jobs are active and at most 32 of one tenant, no job is started more than three times, a job
  that has not been started holds no lease, and only failed jobs carry a failure code.
\<close>

theorem queue_invariant: "queue_ok (db_rows (queue_after qs (open_queue fails)))"
  by (rule queue_after_invariant [OF writes_queue_ok]) (simp_all add: open_queue_def queue_ok_def active_rows_def)

section \<open>Outcomes are final\<close>

text \<open>
  C20. A job that has ended keeps its outcome: no request changes a completed, failed or cancelled job, and only forgetting that very job
  removes it.
\<close>

theorem ended_job_is_final:
  assumes "queue_ok (db_rows d)" "r \<in> set (db_rows d)" "job_status r \<in> set TERMINAL"
    and "\<forall>j. Forget j \<in> set qs \<longrightarrow> job_id j \<noteq> job_id r \<or> job_tenant j \<noteq> job_tenant r \<or> job_lease j \<noteq> job_lease r"
  shows "r \<in> set (db_rows (queue_after qs d))"
proof -
  have ended: "job_status r \<notin> set ACTIVE" using assms(3) by (auto simp: TERMINAL_def ACTIVE_def)
  have "queue_ok (db_rows (queue_after qs d)) \<and> r \<in> set (db_rows (queue_after qs d))"
  proof (rule queue_after_invariant)
    fix q rows rows'
    assume q: "q \<in> set qs" "writes q rows rows'" and ok: "queue_ok rows \<and> r \<in> set rows"
    have keep: "r \<in> set (map (\<lambda>x. if P x then g x else x) rows)" if "\<not> P r" for P g
      using ok that by (auto simp: image_iff intro: bexI [of _ r])
    have not_eligible: "r \<noteq> c" if "eligible t c" for t c using that ended by (auto simp: eligible_def ACTIVE_def)
    have "r \<in> set rows'"
      using q(2)
    proof cases
      case (exhaust c t l)
      then show ?thesis using not_eligible [of t c] same_id [of rows r c] ok by (auto simp: queue_ok_def intro!: keep)
    next
      case (start c t l)
      then show ?thesis using not_eligible [of t c] same_id [of rows r c] ok by (auto simp: queue_ok_def intro!: keep)
    next
      case (forget j)
      then show ?thesis using assms(4) q(1) ok by auto
    qed (use ok ended in \<open>auto simp: ACTIVE_def intro!: keep\<close>)
    with writes_queue_ok [OF q(2)] ok show "queue_ok rows' \<and> r \<in> set rows'" by blast
  qed (use assms in simp)
  then show ?thesis by blast
qed

text \<open>The lease that a worker holds on a job.\<close>

definition holds_lease :: "job \<Rightarrow> job list \<Rightarrow> bool" where
  "holds_lease j rows \<longleftrightarrow> (\<exists>r \<in> set rows. job_id r = job_id j \<and> job_lease r = job_lease j \<and> job_status r = ''running'')"

lemma writes_lease:
  assumes "writes q rows rows'" "\<not> holds_lease j rows" "\<forall>t. q \<noteq> Claim (job_lease j) t"
  shows "\<not> holds_lease j rows'"
  using assms by cases (auto simp: holds_lease_def queued_row_def split: if_splits)

text \<open>
  C18. A worker that lost its lease cannot end the job: once the job was cancelled, ended, or claimed by someone else, a late result is
  refused and changes nothing, however many requests come in between, provided fresh leases differ from the lost one.
\<close>

theorem lost_lease_cannot_finish:
  assumes "\<not> holds_lease j (db_rows d)" "\<forall>t. Claim (job_lease j) t \<notin> set qs"
    and "queue_finish j ok (queue_after qs d) = (res, d')"
  shows "res \<noteq> Inr True \<and> db_rows d' = db_rows (queue_after qs d)"
proof -
  let ?rows = "db_rows (queue_after qs d)"
  have "\<not> holds_lease j ?rows"
  proof (rule queue_after_invariant [of qs "\<lambda>rows. \<not> holds_lease j rows", OF _ assms(1)])
    show "\<not> holds_lease j rows'" if "q \<in> set qs" "writes q rows rows'" "\<not> holds_lease j rows" for q rows rows'
      using writes_lease [OF that(2,3)] that(1) assms(2) by blast
  qed
  then have none: "\<not> (job_id r = job_id j \<and> job_tenant r = job_tenant j \<and> job_lease r = job_lease j \<and> job_status r = ''running'')"
    if "r \<in> set ?rows" for r using that by (auto simp: holds_lease_def)
  then have "map (\<lambda>r. if job_id r = job_id j \<and> job_tenant r = job_tenant j \<and> job_lease r = job_lease j \<and> job_status r = ''running''
      then f r else r) ?rows = ?rows" for f by (intro map_idI) auto
  with assms(3) show ?thesis
    unfolding queue_finish_def finish_with_def using none
    by (auto simp: io_then_def io_ensure_def lift_io_def sql_defs filter_empty_conv split: if_splits)
qed

section \<open>Every job ends\<close>

definition claim_candidate :: "int \<Rightarrow> job list \<Rightarrow> job option" where
  "claim_candidate t rows = first_row (sort_key (\<lambda>r. (job_created_at r, job_id r)) (filter (eligible t) rows))"

definition claim_effect :: "string \<Rightarrow> int \<Rightarrow> job list \<Rightarrow> job list" where
  "claim_effect lease t rows =
     (case claim_candidate t rows of
        None \<Rightarrow> rows
      | Some c \<Rightarrow>
          map (\<lambda>r. if r = c then
              (if 3 \<le> job_attempts c then c\<lparr>job_status := ''failed'', job_failure := ''retry_limit''\<rparr>
               else c\<lparr>job_status := ''running'', job_lease := lease, job_lease_until := i64_wrap (t + 90000),
                 job_attempts := job_attempts c + 1\<rparr>)
            else r) rows)"

definition calm :: "database \<Rightarrow> bool" where
  "calm d \<longleftrightarrow> db_saved d = None \<and> db_fails d = (\<lambda>_. False)"

lemma claim_candidate_Some: "claim_candidate t rows = Some c \<Longrightarrow> c \<in> set rows \<and> eligible t c"
proof -
  assume "claim_candidate t rows = Some c"
  then obtain rs where "sort_key (\<lambda>r. (job_created_at r, job_id r)) (filter (eligible t) rows) = c # rs"
    by (auto simp: claim_candidate_def first_row_Some)
  then have "c \<in> set (sort_key (\<lambda>r. (job_created_at r, job_id r)) (filter (eligible t) rows))" by (metis list.set_intros(1))
  then show ?thesis by simp
qed

lemma claim_candidate_None: "claim_candidate t rows = None \<longleftrightarrow> (\<forall>r \<in> set rows. \<not> eligible t r)"
proof -
  have "sort_key f (filter (eligible t) rows) \<noteq> []" if "r \<in> set rows" "eligible t r" for f :: "job \<Rightarrow> int \<times> string" and r
  proof -
    have "r \<in> set (sort_key f (filter (eligible t) rows))" using that by simp
    then show ?thesis by (metis empty_iff empty_set)
  qed
  then have "claim_candidate t rows \<noteq> None" if "r \<in> set rows" "eligible t r" for r
    using that by (auto simp: claim_candidate_def first_row_def split: list.splits)
  then show ?thesis using claim_candidate_Some [of t rows] by (cases "claim_candidate t rows") auto
qed

lemma calm_claim:
  assumes "calm d" "distinct (map job_id (db_rows d))"
  shows "calm (snd (queue_claim lease t d)) \<and> db_rows (snd (queue_claim lease t d)) = claim_effect lease t (db_rows d)"
proof (cases "claim_candidate t (db_rows d)")
  case None
  with assms show ?thesis unfolding queue_claim_def claim_effect_def claim_candidate_def calm_def
    by (simp add: transaction_def db_control_def begin_immediate_def commit_transaction_def io_then_def lift_io_def sql_defs)
next
  case (Some c)
  note c = claim_candidate_Some [OF this]
  have same: "x = c" if "x \<in> set (db_rows d)" "job_id x = job_id c" for x using same_id [OF assms(2) that(1) conjunct1 [OF c] that(2)] .
  have only: "map (\<lambda>r. if job_id r = job_id c \<and> Q r then f r else r) (db_rows d) = map (\<lambda>r. if r = c then f c else r) (db_rows d)"
    if "Q c" for f Q using same that by auto
  have found: "filter (\<lambda>r. job_id r = job_id c \<and> Q r) (db_rows d) \<noteq> []" if "Q c" for Q using that c by (auto simp: filter_empty_conv)
  show ?thesis
  proof (cases "3 \<le> job_attempts c")
    case True
    with Some assms show ?thesis
      unfolding queue_claim_def claim_effect_def claim_candidate_def calm_def
      by (auto simp: transaction_def db_control_def begin_immediate_def commit_transaction_def io_then_def lift_io_def sql_defs dest: same)
  next
    case False
    let ?rows = "map (\<lambda>r. if r = c then c\<lparr>job_status := ''running'', job_lease := lease, job_lease_until := i64_wrap (t + 90000),
      job_attempts := job_attempts c + 1\<rparr> else r) (db_rows d)"
    have "first_row (filter (\<lambda>r. job_id r = job_id c) ?rows) \<noteq> None"
      using c by (auto simp: first_row_def filter_empty_conv split: list.splits)
    then obtain r where r: "first_row (filter (\<lambda>r. job_id r = job_id c) ?rows) = Some r" by blast
    have updated: "map (\<lambda>r. if job_id r = job_id c \<and> job_lease r = job_lease c \<and> job_status r = job_status c
        then r\<lparr>job_status := ''running'', job_lease := lease, job_lease_until := i64_wrap (t + 90000), job_attempts := job_attempts c + 1\<rparr>
        else r) (db_rows d) = ?rows"
      by (rule only) simp
    have "filter (\<lambda>r. job_id r = job_id c \<and> job_lease r = job_lease c \<and> job_status r = job_status c) (db_rows d) \<noteq> []"
      by (rule found) simp
    with False Some assms r show ?thesis
      unfolding queue_claim_def claim_effect_def claim_candidate_def calm_def
      by (simp add: transaction_def db_control_def begin_immediate_def commit_transaction_def io_then_def lift_io_def sql_defs require_row_def updated)
  qed
qed

text \<open>How many claims the active jobs can take: three starts and one refusal each, less the starts they had.\<close>

definition workload :: "job list \<Rightarrow> nat" where
  "workload rows = sum_list (map (\<lambda>r. if job_status r \<in> set ACTIVE then nat (4 - job_attempts r) else 0) rows)"

lemma claim_effect_workload:
  assumes "queue_ok rows" "claim_candidate t rows = Some c"
  shows "workload (claim_effect lease t rows) < workload rows"
proof -
  define w where "w r = (if job_status r \<in> set ACTIVE then nat (4 - job_attempts r) else 0)" for r :: job
  have less: "sum_list (map (\<lambda>r. w (if r = c then x else r)) xs) < sum_list (map w xs)" if "c \<in> set xs" "w x < w c" for x xs
    using that
  proof (induction xs)
    case (Cons y ys)
    have "sum_list (map (\<lambda>r. w (if r = c then x else r)) ys) \<le> sum_list (map w ys)"
      by (rule sum_list_mono) (use that(2) in simp)
    with Cons show ?case by (cases "y = c") auto
  qed simp
  have c: "c \<in> set rows" "eligible t c" "job_ok c" using claim_candidate_Some [OF assms(2)] assms(1) by (auto simp: queue_ok_def)
  then show ?thesis
    unfolding claim_effect_def assms(2) option.case workload_def map_map comp_def w_def [symmetric]
    by (intro less) (auto simp: w_def eligible_def job_ok_def ACTIVE_def)
qed

text \<open>Times at which no lease given at an earlier one is still valid.\<close>

fun spaced :: "int \<Rightarrow> int list \<Rightarrow> bool" where
  "spaced t [] = True"
| "spaced t (u # us) = (t + 90000 < u \<and> u + 90000 < 2 ^ 63 \<and> - (2 ^ 63) \<le> u \<and> spaced u us)"

definition leased_until :: "int \<Rightarrow> job list \<Rightarrow> bool" where
  "leased_until t rows \<longleftrightarrow> (\<forall>r \<in> set rows. job_status r = ''running'' \<longrightarrow> job_lease_until r \<le> t)"

lemma i64_wrap_small: "- (2 ^ 63) \<le> n \<Longrightarrow> n < 2 ^ 63 \<Longrightarrow> i64_wrap n = n"
  by (simp add: i64_wrap_def)

lemma leased_after_claim:
  assumes "leased_until u rows" "u < t" "t + 90000 < 2 ^ 63" "- (2 ^ 63) \<le> t"
  shows "leased_until (t + 90000) (claim_effect lease t rows)"
proof (cases "claim_candidate t rows")
  case (Some c)
  show ?thesis unfolding leased_until_def
  proof (intro ballI impI)
    fix r
    assume r: "r \<in> set (claim_effect lease t rows)" "job_status r = ''running''"
    then obtain x where x: "x \<in> set rows" "r = (if x = c then
        (if 3 \<le> job_attempts c then c\<lparr>job_status := ''failed'', job_failure := ''retry_limit''\<rparr>
         else c\<lparr>job_status := ''running'', job_lease := lease, job_lease_until := i64_wrap (t + 90000), job_attempts := job_attempts c + 1\<rparr>)
        else x)" unfolding claim_effect_def Some option.case set_map by blast
    have "i64_wrap (t + 90000) = t + 90000" using assms(3,4) by (intro i64_wrap_small) simp_all
    with x r(2) assms(1,2) show "job_lease_until r \<le> t + 90000"
      by (cases "x = c"; cases "3 \<le> job_attempts c") (auto simp: leased_until_def)
  qed
qed (use assms in \<open>auto simp: claim_effect_def leased_until_def\<close>)

lemma no_workload: "queue_ok rows \<Longrightarrow> workload rows = 0 \<Longrightarrow> active_rows rows = []"
proof -
  have "\<forall>r \<in> set rows. job_attempts r \<le> 3 \<Longrightarrow> workload rows = 0 \<Longrightarrow> active_rows rows = []" for rows
    by (induction rows) (auto simp: workload_def active_rows_def split: if_splits)
  then show "queue_ok rows \<Longrightarrow> workload rows = 0 \<Longrightarrow> active_rows rows = []" by (auto simp: queue_ok_def job_ok_def)
qed

lemma queue_ok_claim: "calm d \<Longrightarrow> queue_ok (db_rows d) \<Longrightarrow> queue_ok (claim_effect lease t (db_rows d))"
  using calm_claim [of d lease t] queue_claim_writes [OF prod.collapse [symmetric], of lease t d] writes_queue_ok
  by (metis queue_ok_def)

text \<open>
  C19. No job stays in the queue for ever: when the database works, claims at least a lease apart end every active job even if no worker
  ever reports back. As many claims as the jobs have starts left, plus one each, are enough.
\<close>

theorem queue_drains:
  assumes "calm d" "queue_ok (db_rows d)" "leased_until (t + 90000) (db_rows d)" "spaced t (map snd cs)"
    and "workload (db_rows d) \<le> length cs"
  shows "active_rows (db_rows (queue_after (map (\<lambda>(lease, u). Claim lease u) cs) d)) = []"
  using assms
proof (induction cs arbitrary: d t)
  case Nil
  then show ?case by (simp add: queue_after_def no_workload)
next
  case (Cons p cs)
  obtain lease u where p: "p = (lease, u)" by (cases p)
  let ?d = "snd (queue_claim lease u d)"
  have u: "t + 90000 < u" "u + 90000 < 2 ^ 63" "- (2 ^ 63) \<le> u" "spaced u (map snd cs)" using Cons.prems(4) by (simp_all add: p)
  have d: "calm ?d" "db_rows ?d = claim_effect lease u (db_rows d)"
    using calm_claim [OF Cons.prems(1)] Cons.prems(2) by (auto simp: queue_ok_def)
  have ok: "queue_ok (db_rows ?d)" using queue_ok_claim Cons.prems(1,2) d(2) by simp
  have leases: "leased_until (u + 90000) (db_rows ?d)" unfolding d(2) by (rule leased_after_claim [OF Cons.prems(3) u(1-3)])
  have "workload (db_rows ?d) \<le> length cs"
  proof (cases "claim_candidate u (db_rows d)")
    case None
    then have "active_rows (db_rows d) = []"
      using Cons.prems(3) u(1) by (force simp: claim_candidate_None eligible_def leased_until_def active_rows_def filter_empty_conv ACTIVE_def)
    then have "workload (db_rows d) = 0" by (auto simp: workload_def active_rows_def filter_empty_conv intro!: sum_list_0)
    then show ?thesis by (simp add: d(2) claim_effect_def None)
  next
    case (Some c)
    from claim_effect_workload [OF Cons.prems(2) this, of lease] Cons.prems(5) show ?thesis by (simp add: d(2))
  qed
  from Cons.IH [OF d(1) ok leases u(4) this] show ?case by (simp add: p queue_after_def serve_queue_def)
qed

section \<open>Examples\<close>

definition sample_item :: new_job where
  "sample_item = \<lparr>nj_id = ''1'', nj_tenant = ''acme'', nj_actor = ''alice'', nj_generation = ''g'', nj_fingerprint = ''f'',
     nj_capability = ''c'', nj_template_id = ''t'', nj_template_version = ''v''\<rparr>"

definition sample_queue :: "queue_request list \<Rightarrow> database" where
  "sample_queue qs = queue_after (Enqueue sample_item 0 # qs) (open_queue (\<lambda>_. False))"

definition started_job :: job where
  "started_job = (queued_row sample_item 0)\<lparr>job_status := ''running'', job_lease := ''L1'', job_lease_until := 90000, job_attempts := 1\<rparr>"

lemma sample_queue_ok: "queue_ok (db_rows (sample_queue qs))"
  unfolding sample_queue_def by (rule queue_after_invariant [OF writes_queue_ok]) (simp_all add: open_queue_def queue_ok_def active_rows_def)

theorem ended_job_is_final_witness:
  "(queued_row sample_item 0)\<lparr>job_status := ''cancelled''\<rparr> \<in>
     set (db_rows (queue_after [Claim ''L1'' 5, Forget started_job] (sample_queue [Cancel ''acme'' ''1''])))"
proof -
  let ?r = "(queued_row sample_item 0)\<lparr>job_status := ''cancelled''\<rparr>"
  have "?r \<in> set (db_rows (sample_queue [Cancel ''acme'' ''1'']))" by code_simp
  moreover have "job_status ?r \<in> set TERMINAL" by (simp add: TERMINAL_def)
  moreover have "\<forall>j. Forget j \<in> set [Claim ''L1'' 5, Forget started_job] \<longrightarrow> job_id j \<noteq> job_id ?r \<or> job_tenant j \<noteq> job_tenant ?r \<or> job_lease j \<noteq> job_lease ?r"
    by (simp add: started_job_def queued_row_def)
  ultimately show ?thesis by (rule ended_job_is_final [OF sample_queue_ok])
qed

theorem lost_lease_cannot_finish_witness:
  "\<exists>res d'. queue_finish started_job True (queue_after [Claim ''L2'' 100000] (sample_queue [Claim ''L1'' 0, Cancel ''acme'' ''1''])) = (res, d') \<and>
     res \<noteq> Inr True"
proof -
  let ?d = "sample_queue [Claim ''L1'' 0, Cancel ''acme'' ''1'']"
  obtain res d' where run: "queue_finish started_job True (queue_after [Claim ''L2'' 100000] ?d) = (res, d')" by fastforce
  have "\<not> list_ex (\<lambda>r. job_id r = job_id started_job \<and> job_lease r = job_lease started_job \<and> job_status r = ''running'') (db_rows ?d)" by code_simp
  then have "\<not> holds_lease started_job (db_rows ?d)" by (auto simp: holds_lease_def list_ex_iff)
  from lost_lease_cannot_finish [OF this _ run] run show ?thesis by (auto simp: started_job_def)
qed

definition waiting_queue :: database where
  "waiting_queue = \<lparr>db_rows = [queued_row sample_item 0], db_saved = None, db_calls = 0, db_fails = \<lambda>_. False\<rparr>"

theorem queue_drains_witness:
  "active_rows (db_rows (queue_after (map (\<lambda>(lease, u). Claim lease u) [(''A'', 100000), (''B'', 200000), (''C'', 300000), (''D'', 400000)]) waiting_queue)) = []"
proof (rule queue_drains [of _ 0])
  show "queue_ok (db_rows waiting_queue)"
    by (simp add: waiting_queue_def queue_ok_def job_ok_def active_rows_def queued_row_def ACTIVE_def)
qed (simp_all add: waiting_queue_def calm_def leased_until_def workload_def queued_row_def ACTIVE_def)

end
