(* ===== verification/Document_Template.thy ===== *)
theory Document_Template
  imports Bytes Codec Identifiers
begin

text \<open>
  Templates of the document compiler (\<open>platform/document-compiler/src/domain.rs\<close>): bounded, validated projects of TeX
  files whose placeholders are filled with escaped values. The JSON printer and the SHA-256 digest in
  hexadecimal are parameters. Texts and file contents are byte lists; a text is valid UTF-8.
\<close>

section \<open>Definitions\<close>

definition MAX_PROJECT_BYTES :: nat where "MAX_PROJECT_BYTES = 2 * 1024 * 1024"

definition MAX_PDF_BYTES :: nat where "MAX_PDF_BYTES = 16 * 1024 * 1024"

lemma document_bytes_binary [code_unfold]:
  "n \<le> MAX_PROJECT_BYTES \<longleftrightarrow> int n \<le> 2097152" "n \<le> MAX_PDF_BYTES \<longleftrightarrow> int n \<le> 16777216"
  "n \<le> MAX_PROJECT_BYTES * 2 \<longleftrightarrow> int n \<le> 4194304" "n \<le> MAX_PROJECT_BYTES * 5 \<longleftrightarrow> int n \<le> 10485760"
  by (simp_all add: MAX_PROJECT_BYTES_def MAX_PDF_BYTES_def)

datatype scope = Personal | Project | Tenant | Plugin

record asset =
  asset_path :: string
  asset_data :: string

datatype variable_kind = TextKind | IntegerKind | BooleanKind | ChoiceKind

record variable =
  var_kind :: variable_kind
  var_required :: bool
  var_choices :: "string list"

record template =
  tpl_id :: string
  tpl_version :: string
  tpl_name :: string
  tpl_description :: string
  tpl_scope :: scope
  tpl_owner :: string
  tpl_project :: "string option"
  tpl_plugin :: "string option"
  tpl_entrypoint :: string
  tpl_assets :: "asset list"
  tpl_variables :: "(string, variable) btree_map"

record document =
  doc_variables :: "(string, json) btree_map"
  doc_source :: "string option"

record rendered =
  rend_entrypoint :: string
  rend_assets :: "asset list"

definition validate_id :: "string \<Rightarrow> nat \<Rightarrow> unit result" where
  "validate_id s n =
     ensure (length s = n \<and> list_all (\<lambda>c. is_ascii_hexdigit c \<and> \<not> is_ascii_uppercase c) s)
       ''Invalid immutable identifier'' (Inr ())"

definition validate_tenant :: "string \<Rightarrow> unit result" where
  "validate_tenant s =
     ensure (s \<noteq> [] \<and> length s \<le> 64 \<and> list_all is_name_byte s) ''Invalid tenant identifier'' (Inr ())"

definition ASSET_TYPES :: "string list" where
  "ASSET_TYPES = [''tex'', ''cls'', ''sty'', ''bib'', ''bst'', ''png'', ''jpg'', ''jpeg'', ''pdf'', ''ttf'', ''otf'']"

definition validate_path :: "string \<Rightarrow> unit result" where
  "validate_path path =
     ensure (path \<noteq> [] \<and> length path \<le> 192 \<and> list_all (\<lambda>part. part \<noteq> [] \<and>
         \<not> (part = ''.'' \<or> part = ''..'') \<and> \<not> starts_with ''.'' part) (split_char CHR ''/'' path))
       ''Invalid asset path'' (
     ensure (list_all (\<lambda>c. is_ascii_alphanumeric c \<or> c \<in> {CHR ''_'', CHR ''-'', CHR ''.'', CHR ''/''}) path)
       ''Invalid asset alphabet'' (
     and_then (option_context ''Asset requires an extension'' (map_option snd (rsplit_once CHR ''.'' path))) (\<lambda>extension.
     ensure (extension \<in> set ASSET_TYPES) ''Unsupported asset type'' (Inr ()))))"

text \<open>
  \<open>escape_text\<close> goes through the characters; \<open>char::is_control\<close> holds for U+0000 to U+001F, U+007F and, in two bytes,
  U+0080 to U+009F.
\<close>

definition BACKSLASH :: char where "BACKSLASH = CHR 0x5C"

definition escape_byte :: "char \<Rightarrow> string" where
  "escape_byte c =
     (if c = BACKSLASH then BACKSLASH # ''textbackslash{}''
      else if c \<in> set ''{}%&#_$'' then [BACKSLASH, c]
      else if c = CHR ''^'' then BACKSLASH # ''textasciicircum{}''
      else if c = CHR ''~'' then BACKSLASH # ''textasciitilde{}''
      else if (c < CHR '' '' \<or> c = CHR 0x7F) \<and> c \<noteq> CHR 0x0A \<and> c \<noteq> CHR 0x09 then []
      else [c])"

definition c1_control :: "string \<Rightarrow> bool" where
  "c1_control s \<longleftrightarrow> (case s of a # b # _ \<Rightarrow> a = CHR 0xC2 \<and> CHR 0x80 \<le> b \<and> b \<le> CHR 0x9F | _ \<Rightarrow> False)"

fun escape_text :: "string \<Rightarrow> string" where
  "escape_text [] = []"
| "escape_text (c # s) = (if c1_control (c # s) then escape_text (tl s) else escape_byte c @ escape_text s)"

definition as_i64 :: "json \<Rightarrow> int option" where
  "as_i64 v =
     (case v of
        JNumber (PosInt n) \<Rightarrow> if int n \<le> I64_MAX then Some (int n) else None
      | JNumber (NegInt n) \<Rightarrow> Some n
      | _ \<Rightarrow> None)"

definition show_int :: "int \<Rightarrow> string" where
  "show_int n = (if n < 0 then ''-'' @ show_nat (nat (- n)) else show_nat (nat n))"

definition render_variable :: "variable \<Rightarrow> json \<Rightarrow> string result" where
  "render_variable var v =
     (case var_kind var of
        TextKind \<Rightarrow>
          and_then (option_context ''Text variable required'' (as_str v)) (\<lambda>text.
          ensure (length text \<le> 32768) ''Text variable exceeds limit'' (
          Inr (escape_text text)))
      | IntegerKind \<Rightarrow>
          and_then (option_context ''Integer variable required'' (as_i64 v)) (\<lambda>n. Inr (show_int n))
      | BooleanKind \<Rightarrow>
          and_then (option_context ''Boolean variable required'' (as_bool v)) (\<lambda>b. Inr (if b then ''true'' else ''false''))
      | ChoiceKind \<Rightarrow>
          and_then (option_context ''Choice variable required'' (as_str v)) (\<lambda>text.
          ensure (text \<in> set (var_choices var)) ''Unknown choice'' (
          Inr (escape_text text))))"

definition is_ok :: "'a result \<Rightarrow> bool" where
  "is_ok r \<longleftrightarrow> (case r of Inr _ \<Rightarrow> True | Inl _ \<Rightarrow> False)"

definition scope_consistent :: "template \<Rightarrow> bool" where
  "scope_consistent t \<longleftrightarrow>
     (case tpl_scope t of
        Personal \<Rightarrow> tpl_project t = None \<and> tpl_plugin t = None
      | Tenant \<Rightarrow> tpl_project t = None \<and> tpl_plugin t = None
      | Project \<Rightarrow> (case tpl_project t of None \<Rightarrow> False | Some x \<Rightarrow> is_ok (validate_id x 32)) \<and> tpl_plugin t = None
      | Plugin \<Rightarrow> tpl_project t = None \<and>
          (case tpl_plugin t of None \<Rightarrow> False
           | Some x \<Rightarrow> x \<noteq> [] \<and> length x \<le> 64 \<and>
               list_all (\<lambda>c. is_ascii_alphanumeric c \<or> c = CHR ''-'' \<or> c = CHR ''_'') x))"

text \<open>The paths seen so far and the size so far go through the loop over the assets.\<close>

definition check_asset :: "string list \<times> nat \<Rightarrow> asset \<Rightarrow> (string list \<times> nat) result" where
  "check_asset acc a =
     (case acc of (paths, used) \<Rightarrow>
        and_then (validate_path (asset_path a)) (\<lambda>_.
        ensure (asset_path a \<notin> set paths) ''Duplicate asset path'' (
        let used = saturating_add used (length (asset_data a)) in
        ensure (used \<le> MAX_PROJECT_BYTES) ''Project exceeds limit'' (
        Inr (asset_path a # paths, used)))))"

definition check_variable :: "string \<times> variable \<Rightarrow> unit result" where
  "check_variable entry =
     (case entry of (name, var) \<Rightarrow>
        ensure (name \<noteq> [] \<and> length name \<le> 64 \<and> list_all (\<lambda>c. is_ascii_alphanumeric c \<or> c = CHR ''_'') name)
          ''Invalid variable name'' (
        ensure (length (var_choices var) \<le> 64 \<and> list_all (\<lambda>x. length x \<le> 256) (var_choices var))
          ''Invalid variable choices'' (Inr ())))"

definition validate_template :: "template \<Rightarrow> unit result" where
  "validate_template t =
     and_then (validate_id (tpl_id t) 32) (\<lambda>_.
     ensure (\<not> trim_is_empty (tpl_name t) \<and> length (tpl_name t) \<le> 256 \<and> length (tpl_description t) \<le> 4096 \<and>
         tpl_owner t \<noteq> [] \<and> length (tpl_owner t) \<le> 256) ''Invalid template metadata'' (
     ensure (scope_consistent t) ''Inconsistent template scope'' (
     ensure (tpl_assets t \<noteq> [] \<and> length (tpl_assets t) \<le> 64 \<and> length (tpl_variables t) \<le> 64)
       ''Template cardinality exceeds limit'' (
     and_then (validate_path (tpl_entrypoint t)) (\<lambda>_.
     ensure (ends_with ''.tex'' (tpl_entrypoint t)) ''Entrypoint must be TeX'' (
     and_then (try_fold check_asset ([], 0) (tpl_assets t)) (\<lambda>(paths, used).
     ensure (tpl_entrypoint t \<in> set paths) ''Missing entrypoint'' (
     try_each check_variable (tpl_variables t)))))))))"

section \<open>Rendering\<close>

definition OPEN_MARK :: string where "OPEN_MARK = ''<<galadril:''"

definition CLOSE_MARK :: string where "CLOSE_MARK = ''>>''"

text \<open>The closure \<open>render\<close> of \<open>Template::render\<close>, its loop with the text rendered so far.\<close>

function render_loop :: "(string, string) btree_map \<Rightarrow> string \<Rightarrow> string \<Rightarrow> string result" where
  "render_loop vs out remainder =
     (case split_once_str OPEN_MARK remainder of
        None \<Rightarrow>
          ensure (length (out @ remainder) \<le> MAX_PROJECT_BYTES) ''Rendered source exceeds limit'' (Inr (out @ remainder))
      | Some (prefix, suffix) \<Rightarrow>
          and_then (option_context ''Unclosed variable placeholder'' (split_once_str CLOSE_MARK suffix)) (\<lambda>(name, rest).
          and_then (option_context ''Unknown template placeholder'' (bt_get vs name)) (\<lambda>x.
          ensure (length (out @ prefix @ x) \<le> MAX_PROJECT_BYTES) ''Rendered source exceeds limit'' (
          render_loop vs (out @ prefix @ x) rest))))"
  by pat_completeness auto
termination
proof (relation "measure (\<lambda>(vs, out, remainder). length remainder)", goal_cases)
  case (2 vs out remainder split prefix suffix closed name rest x)
  have "remainder = prefix @ OPEN_MARK @ suffix"
    using 2(1,2) split_once_str_Some [of OPEN_MARK remainder prefix suffix] by simp
  moreover have "suffix = name @ CLOSE_MARK @ rest"
    using 2(3,4) split_once_str_Some [of CLOSE_MARK suffix name rest] by (simp add: option_context_Inr_iff)
  ultimately show ?case by (simp add: OPEN_MARK_def)
qed simp

declare render_loop.simps [simp del]

definition render_source :: "(string, string) btree_map \<Rightarrow> string \<Rightarrow> string result" where
  "render_source vs source =
     ensure (valid_utf8 source) ''TeX must be UTF-8'' (render_loop vs [] source)"

definition bind_value :: "document \<Rightarrow> (string, string) btree_map \<Rightarrow> string \<times> variable \<Rightarrow> (string, string) btree_map result" where
  "bind_value doc vs entry =
     (case entry of (name, var) \<Rightarrow>
        and_then
          (case bt_get (doc_variables doc) name of
             Some v \<Rightarrow> render_variable var v
           | None \<Rightarrow> if var_required var then bail ''Missing required variable'' else Inr [])
        (\<lambda>x. Inr (bt_insert name x vs)))"

definition is_tex :: "string \<Rightarrow> bool" where
  "is_tex path \<longleftrightarrow> (case rsplit_once CHR ''.'' path of None \<Rightarrow> False | Some (_, e) \<Rightarrow> e \<in> {''tex'', ''cls'', ''sty''})"

definition render_asset :: "(string, string) btree_map \<Rightarrow> asset list \<times> nat \<Rightarrow> asset \<Rightarrow> (asset list \<times> nat) result" where
  "render_asset vs acc a =
     (case acc of (assets, used) \<Rightarrow>
        and_then (if is_tex (asset_path a) then render_source vs (asset_data a) else Inr (asset_data a)) (\<lambda>data.
        let used = saturating_add used (length data) in
        ensure (used \<le> MAX_PROJECT_BYTES) ''Rendered project exceeds limit'' (
        Inr (assets @ [\<lparr>asset_path = asset_path a, asset_data = data\<rparr>], used))))"

definition render_template :: "template \<Rightarrow> document \<Rightarrow> rendered result" where
  "render_template t doc =
     and_then (validate_template t) (\<lambda>_.
     ensure (list_all (bt_contains (tpl_variables t)) (bt_keys (doc_variables doc))) ''Unknown variable'' (
     and_then (try_fold (bind_value doc) [] (tpl_variables t)) (\<lambda>vs.
     and_then (option_context ''Missing entrypoint'' (find (\<lambda>a. asset_path a = tpl_entrypoint t) (tpl_assets t))) (\<lambda>original.
     let source = (case doc_source doc of None \<Rightarrow> asset_data original | Some x \<Rightarrow> x) in
     ensure (length source \<le> MAX_PROJECT_BYTES) ''Source exceeds limit'' (
     and_then (render_source vs source) (\<lambda>entrypoint.
     and_then (try_fold (render_asset vs) ([], length entrypoint)
       (filter (\<lambda>a. asset_path a \<noteq> tpl_entrypoint t) (tpl_assets t))) (\<lambda>(assets, used).
     Inr \<lparr>rend_entrypoint = entrypoint, rend_assets = assets\<rparr>)))))))"

section \<open>Escaped text is inert\<close>

text \<open>
  How TeX reads running text: \<open>tex_read\<close> gives the characters that are typeset, and \<open>None\<close> when the text
  holds anything else (a group, a comment, an alignment, a parameter, mathematics, another macro).
\<close>

definition TEX_SPECIAL :: string where "TEX_SPECIAL = ''{}%&#_$''"

function tex_read :: "string \<Rightarrow> string option" where
  "tex_read [] = Some []"
| "tex_read (c # s) =
     (if c = BACKSLASH then
        (case s of
           [] \<Rightarrow> None
         | d # r \<Rightarrow>
             if d \<in> set TEX_SPECIAL then map_option ((#) d) (tex_read r)
             else if starts_with ''textbackslash{}'' s then map_option ((#) BACKSLASH) (tex_read (drop 15 s))
             else if starts_with ''textasciicircum{}'' s then map_option ((#) CHR ''^'') (tex_read (drop 17 s))
             else if starts_with ''textasciitilde{}'' s then map_option ((#) CHR ''~'') (tex_read (drop 16 s))
             else None)
      else if c \<in> set TEX_SPECIAL \<or> c = CHR ''^'' \<or> c = CHR ''~'' then None
      else map_option ((#) c) (tex_read s))"
  by pat_completeness auto
termination by (relation "measure length") auto

declare tex_read.simps(2) [simp del]

definition invisible :: "char \<Rightarrow> bool" where
  "invisible c \<longleftrightarrow> (c < CHR '' '' \<or> c = CHR 0x7F) \<and> c \<noteq> CHR 0x0A \<and> c \<noteq> CHR 0x09"

text \<open>A text without its control characters, line ends and tabs kept.\<close>

fun visible :: "string \<Rightarrow> string" where
  "visible [] = []"
| "visible (c # s) = (if c1_control (c # s) then visible (tl s) else if invisible c then visible s else c # visible s)"

lemma tex_read_escape_byte:
  "tex_read (escape_byte c @ r) = (if invisible c then tex_read r else map_option ((#) c) (tex_read r))"
proof -
  have special: "CHR ''t'' \<notin> set TEX_SPECIAL" "BACKSLASH \<notin> set TEX_SPECIAL" "CHR ''^'' \<notin> set TEX_SPECIAL" "CHR ''~'' \<notin> set TEX_SPECIAL"
    "c \<in> set TEX_SPECIAL \<Longrightarrow> \<not> invisible c" "\<not> invisible BACKSLASH" "\<not> invisible CHR ''^''" "\<not> invisible CHR ''~''"
    "CHR ''^'' \<noteq> BACKSLASH" "CHR ''~'' \<noteq> BACKSLASH"
    by (auto simp: TEX_SPECIAL_def invisible_def BACKSLASH_def less_char_def)
  consider "c = BACKSLASH" | "c \<in> set TEX_SPECIAL" | "c = CHR ''^''" | "c = CHR ''~''"
    | "c \<noteq> BACKSLASH" "c \<notin> set TEX_SPECIAL" "c \<noteq> CHR ''^''" "c \<noteq> CHR ''~''" by blast
  then show ?thesis
    by cases (use special in \<open>auto simp: escape_byte_def TEX_SPECIAL_def [symmetric] invisible_def [symmetric]
      tex_read.simps(2)\<close>)
qed


section \<open>Placeholders\<close>

text \<open>A source read once, before any value is known.\<close>

datatype segment = Literal string | Placeholder string

definition segment_text :: "segment \<Rightarrow> string" where
  "segment_text sg = (case sg of Literal x \<Rightarrow> x | Placeholder name \<Rightarrow> OPEN_MARK @ name @ CLOSE_MARK)"

function segments :: "string \<Rightarrow> segment list option" where
  "segments s =
     (case split_once_str OPEN_MARK s of
        None \<Rightarrow> Some [Literal s]
      | Some (prefix, suffix) \<Rightarrow>
          (case split_once_str CLOSE_MARK suffix of
             None \<Rightarrow> None
           | Some (name, rest) \<Rightarrow> map_option (\<lambda>sgs. Literal prefix # Placeholder name # sgs) (segments rest)))"
  by pat_completeness auto
termination
proof (relation "measure length", goal_cases)
  case (2 s split prefix suffix split' name rest)
  then show ?case using split_once_str_Some [of OPEN_MARK s prefix suffix] split_once_str_Some [of CLOSE_MARK suffix name rest]
    by (simp add: OPEN_MARK_def)
qed simp

declare segments.simps [simp del]

lemma segments_text: "segments s = Some sgs \<Longrightarrow> concat (map segment_text sgs) = s"
proof (induction s arbitrary: sgs rule: segments.induct)
  case (1 s)
  show ?case
  proof (cases "split_once_str OPEN_MARK s")
    case None
    with 1 show ?thesis by (auto simp: segments.simps [of s] segment_text_def)
  next
    case (Some ps)
    then obtain prefix suffix where p: "split_once_str OPEN_MARK s = Some (prefix, suffix)" by (cases ps) auto
    with 1(2) obtain name rest sgs' where n: "split_once_str CLOSE_MARK suffix = Some (name, rest)"
      "segments rest = Some sgs'" "sgs = Literal prefix # Placeholder name # sgs'"
      by (auto simp: segments.simps [of s] split: option.splits)
    show ?thesis using 1(1) [OF p refl n(1) refl n(2)] split_once_str_Some [OF p] split_once_str_Some [OF n(1)] n(3)
      by (simp add: segment_text_def)
  qed
qed

definition fill :: "(string, string) btree_map \<Rightarrow> segment \<Rightarrow> string option" where
  "fill vs sg = (case sg of Literal x \<Rightarrow> Some x | Placeholder name \<Rightarrow> bt_get vs name)"

lemma render_loop_Inr:
  "render_loop vs out s = Inr r \<longleftrightarrow>
    (\<exists>sgs xs. segments s = Some sgs \<and> list_all2 (\<lambda>sg x. fill vs sg = Some x) sgs xs \<and>
      r = out @ concat xs \<and> length r \<le> MAX_PROJECT_BYTES)"
proof (induction vs out s rule: render_loop.induct)
  case (1 vs out s)
  show ?case
  proof (cases "split_once_str OPEN_MARK s")
    case None
    then show ?thesis
      by (auto simp: render_loop.simps [of vs out s] segments.simps [of s] ensure_Inr_iff list_all2_Cons1 fill_def)
  next
    case (Some ps)
    then obtain prefix suffix where p: "split_once_str OPEN_MARK s = Some (prefix, suffix)" by (cases ps) auto
    show ?thesis
    proof (cases "split_once_str CLOSE_MARK suffix")
      case None
      then show ?thesis by (simp add: render_loop.simps [of vs out s] segments.simps [of s] p)
    next
      case (Some ns)
      then obtain name rest where n: "split_once_str CLOSE_MARK suffix = Some (name, rest)" by (cases ns) auto
      show ?thesis
      proof (cases "bt_get vs name")
        case None
        then show ?thesis
          by (auto simp: render_loop.simps [of vs out s] segments.simps [of s] p n list_all2_Cons1 fill_def)
      next
        case (Some x)
        let ?out = "out @ prefix @ x"
        have step: "render_loop vs out s = ensure (length ?out \<le> MAX_PROJECT_BYTES) ''Rendered source exceeds limit''
            (render_loop vs ?out rest)"
          by (simp add: render_loop.simps [of vs out s] p n Some)
        have sgs: "segments s = Some sgs \<longleftrightarrow> (\<exists>tl. segments rest = Some tl \<and> sgs = Literal prefix # Placeholder name # tl)" for sgs
          by (auto simp: segments.simps [of s] p n)
        have ih: "render_loop vs ?out rest = Inr r \<longleftrightarrow> (\<exists>sgs xs. segments rest = Some sgs \<and>
            list_all2 (\<lambda>sg x. fill vs sg = Some x) sgs xs \<and> r = ?out @ concat xs \<and> length r \<le> MAX_PROJECT_BYTES)"
          if "length ?out \<le> MAX_PROJECT_BYTES"
          using 1 [OF p refl, of "(name, rest)" name rest x] n Some that by simp
        have fills: "fill vs (Literal prefix) = Some y \<longleftrightarrow> y = prefix" "fill vs (Placeholder name) = Some y \<longleftrightarrow> y = x" for y
          using Some by (auto simp: fill_def)
        show ?thesis
        proof (cases "length ?out \<le> MAX_PROJECT_BYTES")
          case True
          then show ?thesis unfolding step sgs using ih by (auto simp: list_all2_Cons1 fills) fastforce+
        next
          case False
          then show ?thesis unfolding step sgs by (auto simp: list_all2_Cons1 fills)
        qed
      qed
    qed
  qed
qed

lemma render_source_length: "render_source vs source = Inr out \<Longrightarrow> length out \<le> MAX_PROJECT_BYTES"
  by (auto simp: render_source_def ensure_Inr_iff render_loop_Inr)

text \<open>
  C21. Rendering substitutes the placeholders of the original source and nothing else: the source is split once into literals and
  placeholders, whatever the values are, and the result is their concatenation with the values in place. A
  placeholder inside a value is never expanded. Rendering succeeds exactly when the source is UTF-8, every
  placeholder is closed and known, and the result is within the limit.
\<close>

theorem render_source_exact:
  "render_source vs source = Inr out \<longleftrightarrow>
    valid_utf8 source \<and> (\<exists>sgs xs. segments source = Some sgs \<and> concat (map segment_text sgs) = source \<and>
      list_all2 (\<lambda>sg x. fill vs sg = Some x) sgs xs \<and> out = concat xs \<and> length out \<le> MAX_PROJECT_BYTES)"
  using segments_text by (auto simp: render_source_def ensure_Inr_iff render_loop_Inr)

section \<open>Valid templates\<close>

definition path_ok :: "string \<Rightarrow> bool" where
  "path_ok path \<longleftrightarrow> validate_path path = Inr ()"

definition project_bytes :: "asset list \<Rightarrow> nat" where
  "project_bytes assets = sum_list (map (\<lambda>a. length (asset_data a)) assets)"

lemma project_bytes_simps [simp]:
  "project_bytes [] = 0" "project_bytes (a # assets) = length (asset_data a) + project_bytes assets"
  "project_bytes (xs @ ys) = project_bytes xs + project_bytes ys"
  by (simp_all add: project_bytes_def)

lemma saturating_project: "saturating_add a b \<le> MAX_PROJECT_BYTES \<longleftrightarrow> a + b \<le> MAX_PROJECT_BYTES"
  by (rule saturating_add_le) (simp add: MAX_PROJECT_BYTES_def)

lemma saturating_add_small: "a + b \<le> MAX_PROJECT_BYTES \<Longrightarrow> saturating_add a b = a + b"
  by (simp add: saturating_add_def MAX_PROJECT_BYTES_def)

lemma check_asset_Inr:
  "check_asset (paths, used) a = Inr acc \<longleftrightarrow> path_ok (asset_path a) \<and> asset_path a \<notin> set paths \<and>
    used + length (asset_data a) \<le> MAX_PROJECT_BYTES \<and> acc = (asset_path a # paths, used + length (asset_data a))"
  by (auto simp: check_asset_def path_ok_def Let_def and_then_Inr_iff ensure_Inr_iff saturating_project saturating_add_small)

lemma check_assets_Inr:
  "used \<le> MAX_PROJECT_BYTES \<Longrightarrow> try_fold check_asset (paths, used) assets = Inr acc \<longleftrightarrow>
    list_all path_ok (map asset_path assets) \<and> distinct (map asset_path assets) \<and>
    set (map asset_path assets) \<inter> set paths = {} \<and> used + project_bytes assets \<le> MAX_PROJECT_BYTES \<and>
    acc = (List.rev (map asset_path assets) @ paths, used + project_bytes assets)"
proof (induction assets arbitrary: paths used)
  case (Cons a assets)
  then show ?case
    by (cases "used + length (asset_data a) \<le> MAX_PROJECT_BYTES")
      (auto simp: and_then_Inr_iff check_asset_Inr)
qed auto

definition template_ok :: "template \<Rightarrow> bool" where
  "template_ok t \<longleftrightarrow> validate_id (tpl_id t) 32 = Inr () \<and> \<not> trim_is_empty (tpl_name t) \<and> length (tpl_name t) \<le> 256 \<and>
     length (tpl_description t) \<le> 4096 \<and> tpl_owner t \<noteq> [] \<and> length (tpl_owner t) \<le> 256 \<and> scope_consistent t \<and>
     length (tpl_assets t) \<le> 64 \<and> length (tpl_variables t) \<le> 64 \<and> ends_with ''.tex'' (tpl_entrypoint t) \<and>
     tpl_entrypoint t \<in> asset_path ` set (tpl_assets t) \<and> (\<forall>a \<in> set (tpl_assets t). path_ok (asset_path a)) \<and>
     distinct (map asset_path (tpl_assets t)) \<and> project_bytes (tpl_assets t) \<le> MAX_PROJECT_BYTES \<and>
     (\<forall>e \<in> set (tpl_variables t). check_variable e = Inr ())"

lemma validate_template_Inr: "validate_template t = Inr () \<longleftrightarrow> template_ok t"
  unfolding validate_template_def template_ok_def path_ok_def [symmetric]
  by (auto simp: and_then_Inr_iff ensure_Inr_iff try_each_Inr_iff check_assets_Inr list_all_iff image_iff path_ok_def)

lemma path_ok_parts:
  assumes "path_ok path" "part \<in> set (split_char CHR ''/'' path)"
  shows "part \<noteq> []" "hd part \<noteq> CHR ''.''" "set part \<inter> {CHR ''/'', BACKSLASH, CHR 0x00} = {}"
proof -
  have part: "part \<noteq> []" "\<not> starts_with ''.'' part"
    and alphabet: "\<forall>c \<in> set path. is_ascii_alphanumeric c \<or> c \<in> {CHR ''_'', CHR ''-'', CHR ''.'', CHR ''/''}"
    using assms by (auto simp: path_ok_def validate_path_def ensure_Inr_iff list_all_iff)
  then show "part \<noteq> []" "hd part \<noteq> CHR ''.''" by (cases part; simp)+
  have "BACKSLASH \<notin> set path" "CHR 0x00 \<notin> set path"
    using alphabet by (auto simp: BACKSLASH_def is_ascii_alphanumeric_def is_ascii_digit_def is_ascii_lowercase_def
        is_ascii_uppercase_def less_eq_char_def)
  then show "set part \<inter> {CHR ''/'', BACKSLASH, CHR 0x00} = {}" using split_char_parts [OF assms(2)] by auto
qed

section \<open>Rendered projects\<close>

definition value_for :: "document \<Rightarrow> string \<Rightarrow> variable \<Rightarrow> string result" where
  "value_for doc name var =
     (case bt_get (doc_variables doc) name of
        Some v \<Rightarrow> render_variable var v
      | None \<Rightarrow> if var_required var then bail ''Missing required variable'' else Inr [])"

definition rendered_as :: "(string, string) btree_map \<Rightarrow> asset \<Rightarrow> asset \<Rightarrow> bool" where
  "rendered_as vs a b \<longleftrightarrow> asset_path b = asset_path a \<and>
     (if is_tex (asset_path a) then render_source vs (asset_data a) = Inr (asset_data b) else asset_data b = asset_data a)"

lemma bind_value_Inr:
  "bind_value doc vs (name, var) = Inr out \<longleftrightarrow> (\<exists>x. value_for doc name var = Inr x \<and> out = bt_insert name x vs)"
  by (auto simp: bind_value_def value_for_def and_then_Inr_iff)

lemma render_asset_Inr:
  "render_asset vs (assets, used) a = Inr out \<longleftrightarrow>
    (\<exists>b. rendered_as vs a b \<and> used + length (asset_data b) \<le> MAX_PROJECT_BYTES \<and> out = (assets @ [b], used + length (asset_data b)))"
proof
  assume "render_asset vs (assets, used) a = Inr out"
  then obtain data where "(if is_tex (asset_path a) then render_source vs (asset_data a) else Inr (asset_data a)) = Inr data"
    "used + length data \<le> MAX_PROJECT_BYTES" "out = (assets @ [\<lparr>asset_path = asset_path a, asset_data = data\<rparr>], used + length data)"
    by (auto simp: render_asset_def Let_def and_then_Inr_iff ensure_Inr_iff saturating_project saturating_add_small)
  then show "\<exists>b. rendered_as vs a b \<and> used + length (asset_data b) \<le> MAX_PROJECT_BYTES \<and> out = (assets @ [b], used + length (asset_data b))"
    by (intro exI [of _ "\<lparr>asset_path = asset_path a, asset_data = data\<rparr>"]) (auto simp: rendered_as_def split: if_splits)
next
  assume "\<exists>b. rendered_as vs a b \<and> used + length (asset_data b) \<le> MAX_PROJECT_BYTES \<and> out = (assets @ [b], used + length (asset_data b))"
  then obtain b where b: "rendered_as vs a b" "used + length (asset_data b) \<le> MAX_PROJECT_BYTES"
    "out = (assets @ [b], used + length (asset_data b))" by blast
  have "b = \<lparr>asset_path = asset_path a, asset_data = asset_data b\<rparr>" using b(1) by (simp add: rendered_as_def)
  with b show "render_asset vs (assets, used) a = Inr out"
    by (auto simp: render_asset_def Let_def rendered_as_def saturating_project saturating_add_small split: if_splits)
qed

lemma bind_values_Inr:
  assumes "try_fold (bind_value doc) vs vars = Inr out" "distinct (map fst vars)" "btree vs"
  shows "btree out \<and> (\<forall>name. case map_of vars name of
      None \<Rightarrow> bt_get out name = bt_get vs name
    | Some var \<Rightarrow> \<exists>x. value_for doc name var = Inr x \<and> bt_get out name = Some x)"
  using assms
proof (induction vars arbitrary: vs)
  case (Cons e vars)
  obtain name var where e: "e = (name, var)" by (cases e)
  from Cons.prems(1) obtain x where x: "value_for doc name var = Inr x" "try_fold (bind_value doc) (bt_insert name x vs) vars = Inr out"
    by (auto simp: e and_then_Inr_iff bind_value_Inr)
  have "distinct (map fst vars)" "btree (bt_insert name x vs)" "map_of vars name = None"
    using Cons.prems(2,3) by (auto simp: e map_of_eq_None_iff)
  note fresh = this(3) and ih = Cons.IH [OF x(2) this(1,2)]
  show ?case
  proof (intro conjI allI)
    show "btree out" using ih by simp
    fix name'
    show "case map_of (e # vars) name' of None \<Rightarrow> bt_get out name' = bt_get vs name'
      | Some var \<Rightarrow> \<exists>x. value_for doc name' var = Inr x \<and> bt_get out name' = Some x"
      using conjunct2 [OF ih, rule_format, of name'] x(1) fresh
      by (cases "name' = name"; cases "map_of vars name'") (simp_all add: e)
  qed
qed auto

lemma render_assets_Inr:
  assumes "try_fold (render_asset vs) (done_assets, used) assets = Inr (out, total')" "used \<le> MAX_PROJECT_BYTES"
  shows "\<exists>new. out = done_assets @ new \<and> list_all2 (rendered_as vs) assets new \<and> total' = used + project_bytes new \<and>
    total' \<le> MAX_PROJECT_BYTES"
  using assms
proof (induction assets arbitrary: done_assets used)
  case (Cons a assets)
  from Cons.prems(1) obtain b where b: "rendered_as vs a b" "used + length (asset_data b) \<le> MAX_PROJECT_BYTES"
    "try_fold (render_asset vs) (done_assets @ [b], used + length (asset_data b)) assets = Inr (out, total')"
    by (auto simp: and_then_Inr_iff render_asset_Inr)
  from Cons.IH [OF b(3,2)] obtain new where "out = done_assets @ b # new"
    "list_all2 (rendered_as vs) assets new" "total' = used + length (asset_data b) + project_bytes new" "total' \<le> MAX_PROJECT_BYTES" by auto
  then show ?case using b(1) by (intro exI [of _ "b # new"]) simp
qed auto

text \<open>
  C23. What rendering a template gives: every declared variable gets the escaped value of the document, or the empty text when it is
  optional and absent; the entrypoint (or the document's own source) and every TeX file are rendered with
  those values, the other files are copied, each under its own path, and the whole project stays within the limit.
\<close>

theorem render_template_project:
  assumes "render_template t doc = Inr r" "btree (tpl_variables t)"
  shows "\<exists>vs source. template_ok t \<and>
    (\<forall>name. case bt_get (tpl_variables t) name of
       None \<Rightarrow> bt_get vs name = None \<and> bt_get (doc_variables doc) name = None
     | Some var \<Rightarrow> \<exists>x. value_for doc name var = Inr x \<and> bt_get vs name = Some x) \<and>
    (doc_source doc = Some source \<or> doc_source doc = None \<and> \<lparr>asset_path = tpl_entrypoint t, asset_data = source\<rparr> \<in> set (tpl_assets t)) \<and>
    render_source vs source = Inr (rend_entrypoint r) \<and>
    list_all2 (rendered_as vs) (filter (\<lambda>a. asset_path a \<noteq> tpl_entrypoint t) (tpl_assets t)) (rend_assets r) \<and>
    length (rend_entrypoint r) + project_bytes (rend_assets r) \<le> MAX_PROJECT_BYTES"
proof -
  from assms(1) obtain vs original used where r: "validate_template t = Inr ()"
    "\<forall>x \<in> set (bt_keys (doc_variables doc)). bt_contains (tpl_variables t) x"
    "try_fold (bind_value doc) [] (tpl_variables t) = Inr vs"
    "find (\<lambda>a. asset_path a = tpl_entrypoint t) (tpl_assets t) = Some original"
    "render_source vs (case doc_source doc of None \<Rightarrow> asset_data original | Some x \<Rightarrow> x) = Inr (rend_entrypoint r)"
    "try_fold (render_asset vs) ([], length (rend_entrypoint r)) (filter (\<lambda>a. asset_path a \<noteq> tpl_entrypoint t) (tpl_assets t)) =
      Inr (rend_assets r, used)"
    unfolding render_template_def Let_def by (auto simp: and_then_Inr_iff ensure_Inr_iff option_context_Inr_iff list_all_iff)
  note vs = bind_values_Inr [OF r(3) btree_distinct [OF assms(2)] btree_Nil]
  have "length (rend_entrypoint r) \<le> MAX_PROJECT_BYTES" using r(5) by (rule render_source_length)
  from render_assets_Inr [OF r(6) this] have assets:
    "list_all2 (rendered_as vs) (filter (\<lambda>a. asset_path a \<noteq> tpl_entrypoint t) (tpl_assets t)) (rend_assets r)"
    "length (rend_entrypoint r) + project_bytes (rend_assets r) \<le> MAX_PROJECT_BYTES" by auto
  have original: "\<lparr>asset_path = tpl_entrypoint t, asset_data = asset_data original\<rparr> \<in> set (tpl_assets t)"
    using r(4) by (auto simp: find_Some_iff) (metis asset.surjective nth_mem old.unit.exhaust)
  have unknown: "bt_get (doc_variables doc) name = None" if "bt_get (tpl_variables t) name = None" for name
    using that r(2) by (metis bt_contains_get bt_contains_iff)
  have "case bt_get (tpl_variables t) name of None \<Rightarrow> bt_get vs name = None \<and> bt_get (doc_variables doc) name = None
     | Some var \<Rightarrow> \<exists>x. value_for doc name var = Inr x \<and> bt_get vs name = Some x" for name
    using conjunct2 [OF vs, rule_format, of name] unknown [of name] by (auto simp: bt_get_def [of "tpl_variables t"] split: option.splits)
  then show ?thesis
    using r(1,5) assets original
    by (intro exI [of _ vs] exI [of _ "case doc_source doc of None \<Rightarrow> asset_data original | Some x \<Rightarrow> x"])
      (auto simp: validate_template_Inr split: option.split)
qed

definition letter_template :: template where
  "letter_template = \<lparr>tpl_id = replicate 32 CHR ''a'', tpl_version = [], tpl_name = ''Letter'', tpl_description = [],
     tpl_scope = Tenant, tpl_owner = ''alice'', tpl_project = None, tpl_plugin = None, tpl_entrypoint = ''main.tex'',
     tpl_assets = [\<lparr>asset_path = ''main.tex'', asset_data = ''Dear <<galadril:name>>,''\<rparr>, \<lparr>asset_path = ''logo.png'', asset_data = ''<<galadril:''\<rparr>],
     tpl_variables = [(''name'', \<lparr>var_kind = TextKind, var_required = True, var_choices = []\<rparr>)]\<rparr>"

definition letter_document :: document where
  "letter_document = \<lparr>doc_variables = [(''name'', JString ''<<galadril:x>> & co'')], doc_source = None\<rparr>"

lemma letter_renders: "render_template letter_template letter_document =
  Inr \<lparr>rend_entrypoint = ''Dear <<galadril:x>> '' @ [BACKSLASH] @ ''& co,'', rend_assets = [\<lparr>asset_path = ''logo.png'', asset_data = ''<<galadril:''\<rparr>]\<rparr>"
  by code_simp

theorem render_template_project_witness:
  "\<exists>r. render_template letter_template letter_document = Inr r \<and>
     length (rend_entrypoint r) + project_bytes (rend_assets r) \<le> MAX_PROJECT_BYTES"
proof -
  have "btree (tpl_variables letter_template)" by (simp add: letter_template_def btree_def)
  from render_template_project [OF letter_renders this] letter_renders show ?thesis by blast
qed

end
