(* ===== verification/Document_Codec.thy ===== *)
theory Document_Codec
  imports Document_Template "HOL-Library.Multiset"
begin

text \<open>
  Artifacts of the document compiler as they are stored and sent: delegations
  (\<open>platform/document-compiler/src/delegation.rs\<close>), submissions (\<open>services/document-compiler/src/application.rs\<close>), the JSON form
  that serde's derives give templates, documents and grants, and the seal that binds a template to its version
  (\<open>Template::seal\<close>). The JSON printer and the digest are parameters.
\<close>

section \<open>Delegations\<close>

datatype action = Resolve | Create | View | Use | Edit | Publish | Delete | PublishPdf

record template_policy =
  tp_id :: string
  tp_scope :: scope
  tp_owner :: string
  tp_project :: "string option"
  tp_plugin :: "string option"

record authorization_request =
  ar_action :: action
  ar_template :: "template_policy option"

record grant =
  gr_tenant :: string
  gr_actor :: string
  gr_generation :: string
  gr_project :: "string option"
  gr_temporary_session :: "string option"

definition policy_of :: "template \<Rightarrow> template_policy" where
  "policy_of t = \<lparr>tp_id = tpl_id t, tp_scope = tpl_scope t, tp_owner = tpl_owner t, tp_project = tpl_project t, tp_plugin = tpl_plugin t\<rparr>"

record submission =
  sub_grant :: grant
  sub_template_id :: string
  sub_version :: string
  sub_document :: document

section \<open>JSON forms\<close>

text \<open>A unit variant is read from its name, or from an object with the name and \<open>null\<close>.\<close>

definition decode_variant :: "(string \<times> 'a) list \<Rightarrow> json \<Rightarrow> 'a result" where
  "decode_variant table v =
     (case v of
        JString s \<Rightarrow> (case map_of table s of None \<Rightarrow> Inl Deserialization | Some x \<Rightarrow> Inr x)
      | JObject [(s, JNull)] \<Rightarrow> (case map_of table s of None \<Rightarrow> Inl Deserialization | Some x \<Rightarrow> Inr x)
      | _ \<Rightarrow> Inl Deserialization)"

definition SCOPES :: "(string \<times> scope) list" where
  "SCOPES = [(''personal'', Personal), (''project'', Project), (''tenant'', Tenant), (''plugin'', Plugin)]"

definition VARIABLE_KINDS :: "(string \<times> variable_kind) list" where
  "VARIABLE_KINDS = [(''text'', TextKind), (''integer'', IntegerKind), (''boolean'', BooleanKind), (''choice'', ChoiceKind)]"

definition encode_scope :: "scope \<Rightarrow> json" where
  "encode_scope x = JString (case x of Personal \<Rightarrow> ''personal'' | Project \<Rightarrow> ''project'' | Tenant \<Rightarrow> ''tenant'' | Plugin \<Rightarrow> ''plugin'')"

definition encode_variable_kind :: "variable_kind \<Rightarrow> json" where
  "encode_variable_kind x =
     JString (case x of TextKind \<Rightarrow> ''text'' | IntegerKind \<Rightarrow> ''integer'' | BooleanKind \<Rightarrow> ''boolean'' | ChoiceKind \<Rightarrow> ''choice'')"

definition encode_byte :: "char \<Rightarrow> json" where
  "encode_byte c = JNumber (PosInt (of_char c))"

definition decode_byte :: "json \<Rightarrow> char result" where
  "decode_byte v = (case v of JNumber (PosInt n) \<Rightarrow> if n < 256 then Inr (char_of n) else Inl Deserialization | _ \<Rightarrow> Inl Deserialization)"

definition encode_asset :: "asset \<Rightarrow> json" where
  "encode_asset a = JObject [(''path'', JString (asset_path a)), (''data'', JArray (map encode_byte (asset_data a)))]"

definition decode_asset :: "json \<Rightarrow> asset result" where
  "decode_asset v =
     and_then (struct_entries [''path'', ''data''] v) (\<lambda>e.
     and_then (required decode_string ''path'' e) (\<lambda>x_path.
     and_then (required (decode_list decode_byte) ''data'' e) (\<lambda>x_data.
     Inr \<lparr>asset_path = x_path, asset_data = x_data\<rparr>)))"

definition encode_variable :: "variable \<Rightarrow> json" where
  "encode_variable x = JObject [(''kind'', encode_variable_kind (var_kind x)), (''required'', JBool (var_required x)),
     (''choices'', JArray (map JString (var_choices x)))]"

definition decode_variable :: "json \<Rightarrow> variable result" where
  "decode_variable v =
     and_then (struct_entries [''kind'', ''required'', ''choices''] v) (\<lambda>e.
     and_then (required (decode_variant VARIABLE_KINDS) ''kind'' e) (\<lambda>x_kind.
     and_then (required decode_bool ''required'' e) (\<lambda>x_required.
     and_then (required (decode_list decode_string) ''choices'' e) (\<lambda>x_choices.
     Inr \<lparr>var_kind = x_kind, var_required = x_required, var_choices = x_choices\<rparr>))))"

definition TEMPLATE_FIELDS :: "string list" where
  "TEMPLATE_FIELDS = [''id'', ''version'', ''name'', ''description'', ''scope'', ''owner'', ''project'', ''plugin'', ''entrypoint'', ''assets'', ''variables'']"

definition encode_template :: "template \<Rightarrow> json" where
  "encode_template t = JObject
     [(''id'', JString (tpl_id t)),
      (''version'', JString (tpl_version t)),
      (''name'', JString (tpl_name t)),
      (''description'', JString (tpl_description t)),
      (''scope'', encode_scope (tpl_scope t)),
      (''owner'', JString (tpl_owner t)),
      (''project'', encode_option JString (tpl_project t)),
      (''plugin'', encode_option JString (tpl_plugin t)),
      (''entrypoint'', JString (tpl_entrypoint t)),
      (''assets'', JArray (map encode_asset (tpl_assets t))),
      (''variables'', encode_map encode_variable (tpl_variables t))]"

definition decode_template :: "json \<Rightarrow> template result" where
  "decode_template v =
     and_then (struct_entries TEMPLATE_FIELDS v) (\<lambda>e.
     and_then (required decode_string ''id'' e) (\<lambda>x_id.
     and_then (required decode_string ''version'' e) (\<lambda>x_version.
     and_then (required decode_string ''name'' e) (\<lambda>x_name.
     and_then (required decode_string ''description'' e) (\<lambda>x_description.
     and_then (required (decode_variant SCOPES) ''scope'' e) (\<lambda>x_scope.
     and_then (required decode_string ''owner'' e) (\<lambda>x_owner.
     and_then (optional decode_string ''project'' e) (\<lambda>x_project.
     and_then (optional decode_string ''plugin'' e) (\<lambda>x_plugin.
     and_then (required decode_string ''entrypoint'' e) (\<lambda>x_entrypoint.
     and_then (required (decode_list decode_asset) ''assets'' e) (\<lambda>x_assets.
     and_then (required (decode_map decode_variable) ''variables'' e) (\<lambda>x_variables.
     Inr \<lparr>tpl_id = x_id, tpl_version = x_version, tpl_name = x_name, tpl_description = x_description, tpl_scope = x_scope,
        tpl_owner = x_owner, tpl_project = x_project, tpl_plugin = x_plugin, tpl_entrypoint = x_entrypoint,
        tpl_assets = x_assets, tpl_variables = x_variables\<rparr>))))))))))))"

definition encode_document :: "document \<Rightarrow> json" where
  "encode_document d = JObject [(''variables'', encode_map (\<lambda>v. v) (doc_variables d)), (''source'', encode_option JString (doc_source d))]"

definition decode_document :: "json \<Rightarrow> document result" where
  "decode_document v =
     and_then (struct_entries [''variables'', ''source''] v) (\<lambda>e.
     and_then (defaulted [] (decode_map Inr) ''variables'' e) (\<lambda>x_variables.
     and_then (optional decode_string ''source'' e) (\<lambda>x_source.
     Inr \<lparr>doc_variables = x_variables, doc_source = x_source\<rparr>)))"

definition encode_grant :: "grant \<Rightarrow> json" where
  "encode_grant g = JObject [(''tenant'', JString (gr_tenant g)), (''actor'', JString (gr_actor g)),
     (''generation'', JString (gr_generation g)), (''project'', encode_option JString (gr_project g)),
     (''temporary_session'', encode_option JString (gr_temporary_session g))]"

definition decode_grant :: "json \<Rightarrow> grant result" where
  "decode_grant v =
     and_then (struct_entries [''tenant'', ''actor'', ''generation'', ''project'', ''temporary_session''] v) (\<lambda>e.
     and_then (required decode_string ''tenant'' e) (\<lambda>x_tenant.
     and_then (required decode_string ''actor'' e) (\<lambda>x_actor.
     and_then (required decode_string ''generation'' e) (\<lambda>x_generation.
     and_then (optional decode_string ''project'' e) (\<lambda>x_project.
     and_then (optional decode_string ''temporary_session'' e) (\<lambda>x_temporary_session.
     Inr \<lparr>gr_tenant = x_tenant, gr_actor = x_actor, gr_generation = x_generation, gr_project = x_project,
        gr_temporary_session = x_temporary_session\<rparr>))))))"

definition encode_submission :: "submission \<Rightarrow> json" where
  "encode_submission x = JObject [(''grant'', encode_grant (sub_grant x)), (''template_id'', JString (sub_template_id x)),
     (''version'', JString (sub_version x)), (''document'', encode_document (sub_document x))]"

definition decode_submission :: "json \<Rightarrow> submission result" where
  "decode_submission v =
     and_then (struct_entries [''grant'', ''template_id'', ''version'', ''document''] v) (\<lambda>e.
     and_then (required decode_grant ''grant'' e) (\<lambda>x_grant.
     and_then (required decode_string ''template_id'' e) (\<lambda>x_template_id.
     and_then (required decode_string ''version'' e) (\<lambda>x_version.
     and_then (required decode_document ''document'' e) (\<lambda>x_document.
     Inr \<lparr>sub_grant = x_grant, sub_template_id = x_template_id, sub_version = x_version, sub_document = x_document\<rparr>)))))"

section \<open>Reading back\<close>

lemma decode_variants [codec_simps]:
  "decode_variant SCOPES (encode_scope x) = Inr x" "decode_variant VARIABLE_KINDS (encode_variable_kind y) = Inr y"
  by (cases x; simp add: decode_variant_def SCOPES_def encode_scope_def)
    (cases y; simp add: decode_variant_def VARIABLE_KINDS_def encode_variable_kind_def)

lemma decode_encode_byte [codec_simps]: "decode_byte (encode_byte c) = Inr c"
  by (simp add: decode_byte_def encode_byte_def)

lemma decode_encode_asset [codec_simps]: "decode_asset (encode_asset a) = Inr a"
  unfolding decode_asset_def encode_asset_def by (cases a) (simp add: struct_simps codec_simps)

lemma decode_encode_variable [codec_simps]: "decode_variable (encode_variable x) = Inr x"
  unfolding decode_variable_def encode_variable_def by (cases x) (simp add: struct_simps codec_simps)

lemma decode_encode_template [codec_simps]: "btree (tpl_variables t) \<Longrightarrow> decode_template (encode_template t) = Inr t"
  unfolding decode_template_def encode_template_def TEMPLATE_FIELDS_def
  by (cases t) (simp add: struct_simps codec_simps)

lemma decode_encode_document [codec_simps]: "btree (doc_variables d) \<Longrightarrow> decode_document (encode_document d) = Inr d"
  unfolding decode_document_def encode_document_def by (cases d) (simp add: struct_simps codec_simps)

lemma decode_encode_grant [codec_simps]: "decode_grant (encode_grant g) = Inr g"
  unfolding decode_grant_def encode_grant_def by (cases g) (simp add: struct_simps codec_simps)

lemma decode_encode_submission [codec_simps]:
  "btree (doc_variables (sub_document x)) \<Longrightarrow> decode_submission (encode_submission x) = Inr x"
  unfolding decode_submission_def encode_submission_def by (cases x) (simp add: struct_simps codec_simps)

lemma decode_template_btree: "decode_template v = Inr t \<Longrightarrow> btree (tpl_variables t)"
  unfolding decode_template_def required_def decode_map_def
  by (auto simp: and_then_Inr_iff btree_collect split: option.splits json.splits)

section \<open>Sealing\<close>

definition seal :: "(json \<Rightarrow> string) \<Rightarrow> (string \<Rightarrow> string) \<Rightarrow> template \<Rightarrow> template result" where
  "seal to_vec sha256_hex t =
     and_then (validate_template t) (\<lambda>_.
     let t = t\<lparr>tpl_assets := sort_key asset_path (tpl_assets t)\<rparr>;
         t = t\<lparr>tpl_version := []\<rparr> in
     Inr (t\<lparr>tpl_version := sha256_hex (to_vec (encode_template t))\<rparr>))"

lemma template_ok_sort:
  "template_ok (t\<lparr>tpl_assets := sort_key asset_path (tpl_assets t), tpl_version := v\<rparr>) \<longleftrightarrow> template_ok t"
proof -
  have "project_bytes (sort_key asset_path (tpl_assets t)) = project_bytes (tpl_assets t)"
  proof -
    have "mset (map (\<lambda>a. length (asset_data a)) (sort_key asset_path (tpl_assets t))) = mset (map (\<lambda>a. length (asset_data a)) (tpl_assets t))" by simp
    from arg_cong [OF this, of sum_mset] show ?thesis unfolding project_bytes_def sum_mset_sum_list .
  qed
  moreover have "distinct (map asset_path (sort_key asset_path (tpl_assets t))) \<longleftrightarrow> distinct (map asset_path (tpl_assets t))"
    by (metis mset_eq_imp_distinct_iff mset_map mset_sort)
  moreover have "scope_consistent (t\<lparr>tpl_assets := as, tpl_version := v\<rparr>) \<longleftrightarrow> scope_consistent t" for as
    by (cases "tpl_scope t") (simp_all add: scope_consistent_def)
  ultimately show ?thesis by (simp add: template_ok_def)
qed

definition unsealed_text :: "(json \<Rightarrow> string) \<Rightarrow> template \<Rightarrow> string" where
  "unsealed_text to_vec t = to_vec (encode_template (t\<lparr>tpl_assets := sort_key asset_path (tpl_assets t), tpl_version := []\<rparr>))"

lemma seal_Inr:
  "seal to_vec sha t = Inr t' \<longleftrightarrow> template_ok t \<and>
    t' = t\<lparr>tpl_assets := sort_key asset_path (tpl_assets t), tpl_version := sha (unsealed_text to_vec t)\<rparr>"
  by (auto simp: seal_def Let_def and_then_Inr_iff validate_template_Inr unsealed_text_def)

lemma sort_key_sorted: "sorted (map f xs) \<Longrightarrow> sort_key f xs = xs"
proof (induction xs)
  case (Cons x xs)
  then show ?case by (cases xs) simp_all
qed simp

lemma seal_fields:
  assumes "seal to_vec sha t = Inr t'"
  shows "template_ok t'" "seal to_vec sha t' = Inr t'" "tpl_id t' = tpl_id t" "tpl_scope t' = tpl_scope t" "tpl_owner t' = tpl_owner t"
    "tpl_project t' = tpl_project t" "tpl_plugin t' = tpl_plugin t" "tpl_variables t' = tpl_variables t"
    "tpl_version t' = sha (unsealed_text to_vec t)" "tpl_assets t' = sort_key asset_path (tpl_assets t)"
  using assms template_ok_sort by (auto simp: seal_Inr sort_key_sorted unsealed_text_def)

end
