(* ===== verification/Spec2Isabelle.thy ===== *)
theory Spec2Isabelle
  imports Scenario Lakefs_Reference Plugin_Ontology Document_Queue Document_Codec
begin

text \<open>
  Verification of the Galadril Registry and of its document templates and compilation queue.

  Galadril keeps the definitions of its data pipelines and ontologies in a Registry
  (\<open>src/platform/registry\<close>): a service over a revision store in which every write is a commit of a tenant's whole
  state. Other services read pinned revisions of it. This development models the Registry's own logic, from
  the JSON documents up to the commands, and proves what its callers rely on.

  \<^bold>\<open>Values and errors.\<close> \<open>Prelude\<close> has the result type of fallible code with the early-return shapes of the source, and
  \<open>BTreeMap\<close> and \<open>BTreeSet\<close> as sorted lists. \<open>Json\<close> has \<open>serde_json::Value\<close> with insertion-ordered objects
  (the workspace builds it with \<open>preserve_order\<close>). \<open>Identifiers\<close> has the shapes of names. Strings are byte
  lists. \<open>Fixtures\<close> and \<open>Scenario\<close> hold the concrete documents and the concrete session of the witnesses.

  \<^bold>\<open>Ontologies\<close> (\<open>semantics.rs\<close>). \<open>Ontology_Resource\<close> parses the resources of a document; \<open>Worklist\<close> and \<open>Ontology_Graph\<close> are the
  graph searches (\<open>find_cycle\<close>, \<open>ancestors\<close>); \<open>Ontology_Validation\<close> is \<open>validate_ontology\<close>, proved to decide
  the predicate \<open>ontology_ok\<close>; \<open>Ontology_Slice\<close> is \<open>slice_ontology\<close>, proved to compute a reachability
  closure; \<open>Json_Merge\<close> and \<open>Ontology_Merge\<close> are \<open>diff_value\<close>, \<open>semantic_diff\<close>, \<open>merge_value\<close> and \<open>merge_ontology\<close>. The locale
  \<open>three_way_merge\<close> states once what makes a field-wise merge reconcile its inputs; both merges of the
  program interpret it.

  \<^bold>\<open>Pipelines\<close> (\<open>semantics.rs\<close>, \<open>composition.rs\<close>, \<open>authoring.rs\<close>). \<open>Topological_Order\<close> is Kahn's algorithm, correct and complete;
  \<open>Pipeline_Validation\<close> is \<open>validate_pipeline\<close>; \<open>Composition\<close> expands pinned transfers (\<open>references\<close>, \<open>compile\<close>); \<open>Authoring\<close>,
  \<open>Authoring_Merge\<close> and \<open>Authoring_Checks\<close> are drafts, executable checks, the merge of definitions by block identity,
  comparison and diagnostics. The recursion of the expansion has fuel 4: every level consumes one of at most
  three transfers, and \<open>compile_fuel\<close> shows that more fuel changes nothing.

  \<^bold>\<open>Plugin overlays\<close> (\<open>plugin_ontology.rs\<close>). \<open>Plugin_Ontology\<close> is \<open>materialize\<close>: the resources of a package with their provenance, the
  mapping slots rebound to types of the tenant, and the imported closure of those types.

  \<^bold>\<open>State and storage\<close> (\<open>state.rs\<close>, \<open>storage.rs\<close>, \<open>tests/domain.rs\<close>). \<open>Tenant_State\<close> has the persisted records, \<open>State_Codec\<close> their JSON
  form with serde's defaults. \<open>Revision_Store\<close> has the storage trait as a record of operations on a world
  of any type, and the contract as locales: \<open>revision_reader\<close> (reads keep the history), \<open>revision_store\<close>
  (an append-only history with pinned reads and checked parents; other writers may interleave),
  \<open>durable_store\<close> (committed revisions can be read again) and, in \<open>Registry_Machine\<close>, \<open>quiet_store\<close> (no other writers).
  \<open>Memory_Store\<close> is the in-memory implementation of the repository's tests; it interprets all of them. Clock, JSON
  printer and SHA-256 are parameters.

  \<^bold>\<open>The lakeFS store\<close> (\<open>storage.rs\<close>). \<open>Lakefs_Config\<close> has the configuration and its checks, \<open>Lakefs_Store\<close> the client: tenant markers and
  their cache, repositories, staged artifacts and the five operations of the trait, over the HTTP and S3 calls as
  parameters. The locale \<open>lakefs_service\<close> (\<open>Lakefs_Service\<close>) states what those services document: commits are immutable and named by full
  identifiers, repository names tell tenants apart, the JSON reader inverts the printer up to 127 nested
  levels. \<open>Lakefs_Contract\<close> proves from it that the store is a \<open>quiet_store\<close>, that a purge erases a tenant, and that the purge loop
  ends (its fuel \<open>rounds\<close> is a parameter; \<open>purge_loop_ends\<close> gives a bound that is enough). It is not a \<open>durable_store\<close>:
  \<open>deep_pipeline_locks_tenant\<close> exhibits a state that is written and never read again. \<open>Reference_Codec\<close> and \<open>Lakefs_Reference\<close> hold services
  that satisfy the laws, on which the theorems are exercised.

  \<^bold>\<open>Service\<close> (\<open>domain.rs\<close>, \<open>ontology_authoring.rs\<close>, \<open>authoring_service.rs\<close>). \<open>Registry\<close>, \<open>Ontology_Authoring\<close> and \<open>Authoring_Service\<close> have one
  definition per operation, over any store. \<open>Registry_Composition\<close> and \<open>Registry_Properties\<close> prove each operation
  against the contract; \<open>Ontology_Workspace\<close> and \<open>Authoring_Workspace\<close> have the invariants of workspaces; \<open>Registry_Machine\<close>
  makes the service a state machine over requests and proves the invariants of all its runs.

  \<^bold>\<open>Documents\<close> (\<open>src/platform/document-compiler\<close>, \<open>src/services/document-compiler\<close>). \<open>Document_Template\<close> is \<open>domain.rs\<close>: validation and rendering of
  templates, proved to substitute exactly the original placeholders with text that TeX reads as plain characters. \<open>Document_Codec\<close> has the delegations, the stored
  JSON forms and the seal of a template. \<open>Document_Queue\<close> is \<open>adapters/queue.rs\<close> over a table in which any statement may fail: its writes are listed in one inductive
  relation, from which the invariants of all sequences of requests follow; leases fence late results, and jobs
  end after three starts. \<open>Bytes\<close>, \<open>Codec\<close> and \<open>Effects\<close> are the string functions, serde field codecs and effectful operations that all
  components share.

  This theory states the properties that span components; single components state theirs where they are
  defined.

  \<^bold>\<open>Not modelled.\<close> URLs, headers and client construction of the lakeFS store, the gRPC adapter and its generated code, tracing, the
  poisoning of locks, and the services around the Registry (gateway, intake, the
  orchestration and sandbox of the document compiler, telemetry), which are adapters to databases, queues and remote processes.
\<close>

section \<open>The Registry as a whole\<close>

text \<open>
  C1. Whatever requests are served, successful or not, from an empty store: every committed state of every
  tenant is sound. All its ontologies are valid models with at most 20 branches that lead back to \<open>main\<close>, every
  approval of a pipeline is for its present, executable definition, and the state can be stored and read back.
\<close>

theorem registry_history_sound:
  assumes "quiet_store pf valid commits_of" "valid s0" "\<And>t. commits_of s0 t = Map.empty" "runs pf s0 qs s"
  shows "tenant_sound pf (state_at (commits_of s) t r)"
  using quiet_store.runs_sound [OF assms(1,4,2) history_sound_empty [OF assms(3)]]
  by (simp add: history_sound_def)

theorem registry_history_sound_witness:
  "\<exists>st. tenant_sound example_platform st \<and> bt_contains (ts_pipelines st) ''mail'' \<and>
     st = state_at (memory_commits with_pipeline_written) ''acme'' (format20 1)"
proof -
  let ?st = "state_at (memory_commits with_pipeline_written) ''acme'' (format20 1)"
  have "runs example_platform empty_store [PutPipeline pipeline_input] with_pipeline_written"
    unfolding with_pipeline_written_def using admissible_examples by (intro runs_after) simp
  from registry_history_sound [OF memory.quiet_store_axioms memory_valid_empty memory_commits_empty this]
  have "tenant_sound example_platform ?st" .
  moreover have "bt_contains (ts_pipelines ?st) ''mail''" by code_simp
  ultimately show ?thesis by blast
qed





section \<open>Writes are single steps of the history\<close>

text \<open>
  C26. A successful write of a pipeline adds exactly one revision. Its parent is the head the caller expected (when it
  gave one), and its state is the parent's with that one record replaced; the stored definition is the input's
  and passes the structural checks.
\<close>

theorem put_pipeline_one_record:
  assumes "revision_store pf valid commits_of" "valid s" "wf_json (pi_definition input)"
    and "put_pipeline pf input s = (Inr view, s')"
  shows "\<exists>base order. advances commits_of s s' (pi_tenant_id input) base (pv_head_revision_id view)
      (with_pipeline (pi_pipeline_id input) (pv_record view)) \<and>
    (\<forall>e. pi_expected_revision_id input = Some e \<longrightarrow> base = e) \<and>
    pipe_definition (pv_record view) = pi_definition input \<and>
    validate_pipeline_structure (pi_definition input) = Inr order"
  using revision_store.put_pipeline_advances [OF assms] by blast

theorem put_pipeline_one_record_witness:
  "\<exists>view s' base. put_pipeline example_platform pipeline_input empty_store = (Inr view, s') \<and>
    advances memory_commits empty_store s' ''acme'' base (pv_head_revision_id view) (with_pipeline ''mail'' (pv_record view))"
proof -
  have "\<not> isl (fst (put_pipeline example_platform pipeline_input empty_store))" by code_simp
  then obtain view s' where run: "put_pipeline example_platform pipeline_input empty_store = (Inr view, s')" by (rule succeeds)
  have "wf_json (pi_definition pipeline_input)" by code_simp
  from put_pipeline_one_record [OF memory.revision_store_axioms memory_valid_empty this run] run show ?thesis
    by (auto simp: pipeline_input_def)
qed

text \<open>
  C27. A stale writer loses: when the caller's expected revision is not the head, writing a pipeline fails and
  leaves every history as it was.
\<close>

theorem stale_put_pipeline_fails:
  assumes "quiet_store pf valid commits_of" "valid s" "put_pipeline pf input s = (res, s')"
    and "rs_ensure_tenant pf (pi_tenant_id input) s = (Inr tn, s0)"
    and "rs_load pf (pi_tenant_id input) None s0 = (Inr sn, s1)"
    and "pi_expected_revision_id input = Some e" "sn_revision_id sn \<noteq> e"
  shows "isl res \<and> commits_of s' = commits_of s"
proof -
  have reader: "revision_reader pf valid commits_of"
    using assms(1) by (intro revision_store.axioms(1) quiet_store.axioms(1))
  have s0: "valid s0" "commits_of s0 = commits_of s"
    using revision_reader.ensure_extends [OF reader assms(2,4)] quiet_store.reads_quiet(2) [OF assms(1,2,4)] by auto
  then have "commits_of s1 = commits_of s" using quiet_store.reads_quiet(3) [OF assms(1) _ assms(5)] by simp
  then show ?thesis
    using assms(3,6,7) s0(2) unfolding put_pipeline_def Let_def
    by (auto simp: io_then_def io_ensure_def lift_io_def assms(4,5) expected_pipeline_head_def ensure_def bail_def
        split: if_splits prod.splits sum.splits)
qed

theorem stale_put_pipeline_fails_witness:
  "\<exists>res s'. put_pipeline example_platform (pipeline_input\<lparr>pi_expected_revision_id := Some PINNED\<rparr>) empty_store = (res, s') \<and>
    isl res \<and> memory_commits s' = memory_commits empty_store"
proof -
  let ?input = "pipeline_input\<lparr>pi_expected_revision_id := Some PINNED\<rparr>"
  obtain res s' where run: "put_pipeline example_platform ?input empty_store = (res, s')" by fastforce
  have "\<not> isl (fst (rs_ensure_tenant example_platform ''acme'' empty_store))" by code_simp
  then obtain tn s0 where e: "rs_ensure_tenant example_platform ''acme'' empty_store = (Inr tn, s0)" by (rule succeeds)
  have "case rs_load example_platform ''acme'' None (snd (rs_ensure_tenant example_platform ''acme'' empty_store)) of
    (Inl _, _) \<Rightarrow> False | (Inr sn, _) \<Rightarrow> sn_revision_id sn \<noteq> PINNED" by code_simp
  then obtain sn s1 where l: "rs_load example_platform ''acme'' None s0 = (Inr sn, s1)" "sn_revision_id sn \<noteq> PINNED"
    unfolding e by (auto split: prod.splits sum.splits)
  from stale_put_pipeline_fails [OF memory.quiet_store_axioms memory_valid_empty run, of tn s0 sn s1 PINNED] e l run
  show ?thesis by (auto simp: pipeline_input_def)
qed

text \<open>
  Deleting a pipeline leaves a tombstone: one more revision on the expected head, in which the pipeline is marked
  deleted and no revision of it is published any more. Nothing else changes.
\<close>

theorem delete_pipeline_tombstone:
  assumes "revision_store pf valid commits_of" "valid s" "delete_pipeline pf t x e s = (Inr head, s')"
  shows "\<exists>r. advances commits_of s s' t e head (with_pipeline x r) \<and>
    pipe_deleted_at_ms r \<noteq> None \<and> pipe_published_revision_id r = None"
  using revision_store.delete_pipeline_advances [OF assms] .

theorem delete_pipeline_tombstone_witness:
  "\<exists>head s' r. advances memory_commits with_pipeline_written s' ''acme'' (format20 1) head (with_pipeline ''mail'' r) \<and>
    pipe_deleted_at_ms r \<noteq> None"
proof -
  have "\<not> isl (fst (delete_pipeline example_platform ''acme'' ''mail'' (format20 1) with_pipeline_written))" by code_simp
  then obtain head s' where
    "delete_pipeline example_platform ''acme'' ''mail'' (format20 1) with_pipeline_written = (Inr head, s')" by (rule succeeds)
  from delete_pipeline_tombstone [OF memory.revision_store_axioms _ this] show ?thesis by auto
qed

text \<open>
  C28. Only valid ontologies are stored: a successful write of an ontology adds one revision in which that record holds
  the input, which \<open>validate_ontology\<close> accepted, on top of the head the caller expected.
\<close>

theorem put_ontology_one_record:
  assumes "revision_store pf valid commits_of" "valid s" "wf_json (oi_ontology input)"
    and "put_ontology pf input s = (Inr view, s')"
  shows "\<exists>base. advances commits_of s s' (oi_tenant_id input) base (ov_revision_id view)
      (with_ontology (oi_ontology_id input) (ov_record view)) \<and>
    (\<forall>e. oi_expected_revision_id input = Some e \<longrightarrow> base = e) \<and>
    or_ontology (ov_record view) = oi_ontology input \<and> validate_ontology (oi_ontology input) = Inr ()"
  using revision_store.put_ontology_advances [OF assms] .

theorem put_ontology_one_record_witness:
  "\<exists>view s' base. put_ontology example_platform ontology_input empty_store = (Inr view, s') \<and>
    advances memory_commits empty_store s' ''acme'' base (ov_revision_id view) (with_ontology ''base'' (ov_record view))"
proof -
  have "\<not> isl (fst (put_ontology example_platform ontology_input empty_store))" by code_simp
  then obtain view s' where run: "put_ontology example_platform ontology_input empty_store = (Inr view, s')" by (rule succeeds)
  have "wf_json (oi_ontology ontology_input)" by code_simp
  from put_ontology_one_record [OF memory.revision_store_axioms memory_valid_empty this run] run show ?thesis
    by (auto simp: ontology_input_def)
qed

text \<open>
  Publishing an ontology commits a record whose production publication is the one returned; it pins the revision
  that was asked for.
\<close>

theorem publish_ontology_pins:
  assumes "revision_store pf valid commits_of" "valid s" "wf_json metadata"
    and "publish_ontology pf t x name pid r metadata create_only s = (Inr publication, s')"
  shows "\<exists>base head rec. advances commits_of s s' t base head (with_ontology x rec) \<and>
    or_production_publication rec = Some publication \<and> op_revision_id publication = r \<and>
    op_lifecycle publication = ''production''"
  using revision_store.publish_ontology_advances [OF assms] .

theorem publish_ontology_pins_witness:
  "\<exists>publication s'. publish_ontology example_platform ''acme'' ''base'' ''Base'' ''p1'' (format20 1) JNull True with_ontology_written =
      (Inr publication, s') \<and> op_revision_id publication = format20 1"
proof -
  have "\<not> isl (fst (publish_ontology example_platform ''acme'' ''base'' ''Base'' ''p1'' (format20 1) JNull True with_ontology_written))"
    by code_simp
  then obtain publication s' where run: "publish_ontology example_platform ''acme'' ''base'' ''Base'' ''p1'' (format20 1) JNull True
      with_ontology_written = (Inr publication, s')" by (rule succeeds)
  from publish_ontology_pins [OF memory.revision_store_axioms _ _ run] run show ?thesis by auto
qed

text \<open>
  Retiring an ontology only succeeds for the publication and revision that are in production, and commits a record
  in which exactly that publication is retired.
\<close>

theorem retire_ontology_exact:
  assumes "revision_store pf valid commits_of" "valid s" "retire_ontology pf t x pid r s = (Inr head, s')"
  shows "\<exists>base rec publication. advances commits_of s s' t base head (with_ontology x rec) \<and>
    or_production_publication rec = Some publication \<and> op_publication_id publication = pid \<and>
    op_revision_id publication = r \<and> op_lifecycle publication = ''retired''"
  using revision_store.retire_ontology_advances [OF assms] .

theorem retire_ontology_exact_witness:
  "\<exists>head s' base rec. advances memory_commits with_ontology_published s' ''acme'' base head (with_ontology ''base'' rec)"
proof -
  have "\<not> isl (fst (retire_ontology example_platform ''acme'' ''base'' ''p1'' (format20 1) with_ontology_published))" by code_simp
  then obtain head s' where
    "retire_ontology example_platform ''acme'' ''base'' ''p1'' (format20 1) with_ontology_published = (Inr head, s')"
    by (rule succeeds)
  from retire_ontology_exact [OF memory.revision_store_axioms _ this] show ?thesis by auto
qed

text \<open>
  Binding an ontology to a block commits exactly that binding, under the key of its pipeline and block, on the head
  the caller expected.
\<close>

theorem put_binding_one_record:
  assumes "revision_store pf valid commits_of" "valid s" "wf_ontology_binding_record b"
    and "put_binding pf t e b s = (Inr (b', head), s')"
  shows "b' = b \<and> advances commits_of s s' t e head (with_binding (binding_key (bd_pipeline_id b) (bd_block_id b)) b)"
  using revision_store.put_binding_advances [OF assms] .

theorem put_binding_one_record_witness:
  "\<exists>head s'. put_binding example_platform ''acme'' (format20 3) example_binding with_both = (Inr (example_binding, head), s')"
proof -
  have "\<not> isl (fst (put_binding example_platform ''acme'' (format20 3) example_binding with_both))" by code_simp
  then obtain v s' where run: "put_binding example_platform ''acme'' (format20 3) example_binding with_both = (Inr v, s')"
    by (rule succeeds)
  then have run': "put_binding example_platform ''acme'' (format20 3) example_binding with_both = (Inr (fst v, snd v), s')" by simp
  have "wf_ontology_binding_record example_binding"
    by (simp add: wf_ontology_binding_record_def example_binding_def i64_def I64_MAX_def)
  from put_binding_one_record [OF memory.revision_store_axioms scenario_valid(4) this run'] run' show ?thesis by auto
qed

section \<open>Authoring\<close>

text \<open>
  C14. Every authoring command is one step of the history: it adds one revision on the head it was aimed at, whose state
  is the parent's with the commanded pipeline's record replaced and at most one ontology binding added.
\<close>

theorem author_pipeline_one_step:
  assumes "revision_store pf valid commits_of" "valid s" "wf_json (pi_definition input)"
    and "author_pipeline pf input command s = (Inr view, s')"
  shows "\<exists>base s1 st. extends commits_of s s1 \<and> extends commits_of s1 s' \<and>
    (pi_create_only input \<or> pi_expected_revision_id input = Some base) \<and>
    commits_of s (pi_tenant_id input) (pv_head_revision_id view) = None \<and>
    commits_of s' (pi_tenant_id input) (pv_head_revision_id view) =
      Some (base, with_pipeline (pi_pipeline_id input) (pv_record view) st) \<and>
    (\<exists>x. binds_only x (state_at (commits_of s1) (pi_tenant_id input) base) st)"
  using revision_store.author_pipeline_advances [OF assms] .

theorem author_pipeline_one_step_witness:
  "\<exists>view s' base st. author_pipeline example_platform pipeline_input (SaveDraft ''main'') empty_store = (Inr view, s') \<and>
    memory_commits s' ''acme'' (pv_head_revision_id view) = Some (base, with_pipeline ''mail'' (pv_record view) st)"
proof -
  have "\<not> isl (fst (author_pipeline example_platform pipeline_input (SaveDraft ''main'') empty_store))" by code_simp
  then obtain view s' where run: "author_pipeline example_platform pipeline_input (SaveDraft ''main'') empty_store = (Inr view, s')"
    by (rule succeeds)
  have "wf_json (pi_definition pipeline_input)" by code_simp
  from author_pipeline_one_step [OF memory.revision_store_axioms memory_valid_empty this run] run show ?thesis
    by (auto simp: pipeline_input_def)
qed





text \<open>
  C16. Ontology authoring commands keep workspaces sound and are single steps: a successful command replaces one record on
  the head the caller expected; when the record it found was sound (a valid model, at most 20 branches, each a valid model
  whose parents lead back to \<open>main\<close>), so is the record it leaves.
\<close>

theorem author_ontology_one_step:
  assumes "quiet_store pf valid commits_of" "valid s" "history_sound pf (commits_of s)" "wf_json (oi_ontology input)"
    and "author_ontology pf input command s = (Inr view, s')"
  shows "workspace_ok (ov_record view) \<and>
    (\<exists>e. oi_expected_revision_id input = Some e \<and>
      advances commits_of s s' (oi_tenant_id input) e (ov_revision_id view)
        (with_ontology (oi_ontology_id input) (ov_record view)))"
proof -
  have store: "revision_store pf valid commits_of" using assms(1) by (rule quiet_store.axioms)
  show ?thesis
  proof (rule revision_store.author_ontology_advances [OF store assms(2,4,5)])
    fix sn :: snapshot and s1 r
    assume load: "rs_load pf (oi_tenant_id input) None s = (Inr sn, s1)"
      and get: "bt_get (ts_ontologies (sn_state sn)) (oi_ontology_id input) = Some r"
    have "tenant_sound pf (sn_state sn)" using quiet_store.sound_loaded [OF assms(1) _ load] assms(2,3) by blast
    then show "workspace_ok r" using get by (rule tenant_soundD(2))
  qed
qed

theorem author_ontology_one_step_witness:
  "\<exists>view s'. author_ontology example_platform branch_input (OCreateBranch ''draft'' ''main'') with_ontology_written = (Inr view, s') \<and>
    workspace_ok (ov_record view)"
proof -
  have "\<not> isl (fst (author_ontology example_platform branch_input (OCreateBranch ''draft'' ''main'') with_ontology_written))"
    by code_simp
  then obtain view s' where run:
    "author_ontology example_platform branch_input (OCreateBranch ''draft'' ''main'') with_ontology_written = (Inr view, s')"
    by (rule succeeds)
  have "wf_json (oi_ontology branch_input)" by code_simp
  from author_ontology_one_step [OF memory.quiet_store_axioms scenario_valid(2) scenario_sound(2) this run] run
  show ?thesis by blast
qed

text \<open>
  C25. Merging an ontology branch reconciles: the model of the parent branch afterwards is valid and, resource by resource,
  keeps what only the parent changed and takes what only the branch changed since it was forked or last merged.
\<close>

theorem merge_branch_reconciles:
  assumes "workspace_ok r" "merge_branch r branch expected author t = Inr (parent, r')" "i64 t"
  shows "\<exists>source target merged n n'. bt_get (branches_of r) branch = Some source \<and> parent = ob_parent_branch source \<and>
    branch_content [] r parent = Inr (target, n) \<and> branch_content [] r' parent = Inr (merged, n') \<and>
    validate_ontology merged = Inr () \<and> workspace_ok r' \<and>
    (\<forall>x. reconciles (resource_at merged x) (resource_at (ob_base_definition source) x) (resource_at target x)
       (resource_at (ob_definition source) x))"
proof (rule merge_branch_models [OF assms])
  fix source target merged
  assume source: "bt_get (branches_of r) branch = Some source" "parent = ob_parent_branch source"
    and target: "\<exists>n. branch_content [] r parent = Inr (target, n)" "\<exists>n. branch_content [] r' parent = Inr (merged, n)"
    and merge: "\<exists>outcome. merge_ontology (ob_base_definition source) target (ob_definition source) = Inr outcome \<and>
      mr_ontology outcome = Some merged" and ok: "valid_model merged" "workspace_ok r'"
  from merge obtain cs where m: "merge_ontology (ob_base_definition source) target (ob_definition source) =
      Inr \<lparr>mr_ontology = Some merged, mr_conflicts = cs\<rparr>" by (metis (full_types) merge_result.surjective old.unit.exhaust)
  have b: "model_branch_ok source" using assms(1) source(1) by (auto simp: workspace_ok_def)
  have "valid_model target" using branch_content_ok(1) [OF assms(1)] target(1) by blast
  then have "reconciles (resource_at merged x) (resource_at (ob_base_definition source) x) (resource_at target x)
       (resource_at (ob_definition source) x)" for x
    using merge_ontology_clean(3) [OF m] b by (simp add: model_branch_ok_def valid_model_def)
  then show ?thesis using source target ok by (auto simp: valid_model_def)
qed

theorem merge_branch_reconciles_witness:
  "\<exists>r' merged n. merge_branch merging_record ''draft'' PINNED ''ann'' 0 = Inr (''main'', r') \<and>
    branch_content [] r' ''main'' = Inr (merged, n) \<and> validate_ontology merged = Inr ()"
proof -
  have "case merge_branch merging_record ''draft'' PINNED ''ann'' 0 of Inl _ \<Rightarrow> False | Inr (p, _) \<Rightarrow> p = ''main''" by code_simp
  then obtain r' where run: "merge_branch merging_record ''draft'' PINNED ''ann'' 0 = Inr (''main'', r')"
    by (auto split: sum.splits)
  from merge_branch_reconciles [OF merging_record_ok run] run show ?thesis by (auto simp: i64_def I64_MAX_def)
qed

text \<open>
  A page of an ontology's history has at most as many items as asked for, and never the same revision twice.
\<close>

theorem history_page_bounded:
  assumes "revision_store pf valid commits_of" "ontology_history pf t x start limit s = (Inr page, s')"
  shows "length (hp_items page) \<le> limit \<and> distinct (map hi_revision_id (hp_items page))"
  using revision_store.ontology_history_page [OF assms] .

theorem history_page_bounded_witness:
  "\<exists>page s'. ontology_history example_platform ''acme'' ''base'' None 10 with_ontology_published = (Inr page, s') \<and>
    length (hp_items page) \<le> 10"
proof -
  have "\<not> isl (fst (ontology_history example_platform ''acme'' ''base'' None 10 with_ontology_published))" by code_simp
  then obtain page s' where run: "ontology_history example_platform ''acme'' ''base'' None 10 with_ontology_published = (Inr page, s')"
    by (rule succeeds)
  from history_page_bounded [OF memory.revision_store_axioms run] run show ?thesis by blast
qed

section \<open>Documents\<close>

text \<open>
  C5. The validator decides well-formedness: it accepts exactly the documents whose resources parse, resolve their owners,
  references, parents, value types and link endpoints to resources of the right kinds, inherit and own without
  cycles, and override inherited properties only at the same value type.
\<close>

theorem validate_ontology_decides:
  "validate_ontology doc = Inr () \<longleftrightarrow> (\<exists>rs. parse_resources doc = Inr rs \<and> ontology_ok rs)"
  by (rule validate_ontology_Inr_iff)

text \<open>
  C6. The pipeline validator decides well-formedness: it accepts exactly the definitions whose sources and steps are
  readable and differently named, whose inputs are nodes of the graph, whose graph is acyclic, whose routes cover
  exactly their consumers, and whose required ontologies are bound.
\<close>

theorem validate_pipeline_decides:
  "(\<exists>ord. validate_pipeline doc bindings = Inr ord) \<longleftrightarrow>
    (\<exists>sources steps. get_array doc ''sources'' = Some sources \<and> get_array doc ''pipeline'' = Some steps \<and>
       pipeline_ok sources steps \<and> bindings_ok bindings steps)"
proof -
  have "\<exists>ord. topological_order (bs_collect (map source_id sources))
      (bt_collect (map (\<lambda>s. (step_id s, step_inputs s)) steps)) = Some ord" if ok: "pipeline_ok sources steps" for sources steps
  proof -
    have "distinct (map step_id steps)" using ok by (simp add: pipeline_ok_def pipeline_nodes_def)
    note graph = dependencies_graph [OF this]
    have "topological_order (bs_collect (map source_id sources))
        (bt_collect (map (\<lambda>s. (step_id s, step_inputs s)) steps)) \<noteq> None"
      unfolding topological_order_None_iff graph using ok by (simp add: pipeline_ok_def)
    then show ?thesis by blast
  qed
  then show ?thesis unfolding validate_pipeline_def validate_pipeline_internal_Inr by blast
qed

text \<open>
  The order that validation returns lists every source and step exactly once, each after all its inputs.
\<close>

theorem validate_pipeline_order:
  assumes "validate_pipeline doc bindings = Inr ord"
  shows "\<exists>sources steps. get_array doc ''sources'' = Some sources \<and> get_array doc ''pipeline'' = Some steps \<and>
    topological (set (pipeline_nodes sources steps)) (feeds steps) ord"
proof -
  from assms obtain sources steps where doc: "get_array doc ''sources'' = Some sources" "get_array doc ''pipeline'' = Some steps"
    and ok: "pipeline_ok sources steps" and ord: "topological_order (bs_collect (map source_id sources))
      (bt_collect (map (\<lambda>s. (step_id s, step_inputs s)) steps)) = Some ord"
    unfolding validate_pipeline_def validate_pipeline_internal_Inr by blast
  have "distinct (map step_id steps)" using ok by (simp add: pipeline_ok_def pipeline_nodes_def)
  from topological_order_sound [OF ord, unfolded dependencies_graph [OF this]] doc show ?thesis by blast
qed

theorem validate_pipeline_order_witness:
  "\<exists>ord. validate_pipeline example_pipeline [] = Inr ord \<and> set ord = {''mail'', ''classify''}"
proof -
  have run: "validate_pipeline example_pipeline [] = Inr [''mail'', ''classify'']" by code_simp
  from validate_pipeline_order [OF this] run show ?thesis by auto
qed

text \<open>
  The depth-first search over inheritance or ownership edges reports a cycle exactly when there is one, whatever the order of
  the resources.
\<close>

theorem find_cycle_exact:
  assumes "distinct (map r_id rs)"
  shows "find_cycle rs (index_resources rs) owner_edges = None \<longleftrightarrow>
    acyclic (if owner_edges then owned_by rs else inherits rs)"
proof -
  have "find_cycle rs (index_resources rs) owner_edges = None \<longleftrightarrow> acyclic (edge_rel owner_edges (index_resources rs))"
    by (rule find_cycle_None_iff) (auto simp: index_get [OF assms])
  then show ?thesis using edge_rel_index [OF assms] by (cases owner_edges) simp_all
qed

theorem find_cycle_exact_witness:
  "\<exists>rs. parse_resources base_ontology = Inr rs \<and> acyclic (inherits rs)"
proof -
  have "case parse_resources base_ontology of Inl _ \<Rightarrow> False | Inr rs \<Rightarrow> find_cycle rs (index_resources rs) False = None" by code_simp
  then obtain rs where rs: "parse_resources base_ontology = Inr rs" "find_cycle rs (index_resources rs) False = None"
    by (auto split: sum.splits)
  from find_cycle_exact [OF parse_resources_distinct [OF rs(1)], of False] rs show ?thesis by auto
qed

text \<open>
  C4. A clean ontology merge is a three-way merge: the result is valid, and every resource and root field reconciles
  the base with both sides.
\<close>

theorem merge_ontology_reconciles:
  assumes "merge_ontology b l r = Inr \<lparr>mr_ontology = Some out, mr_conflicts = cs\<rparr>" "wf_json b" "wf_json l" "wf_json r"
  shows "cs = [] \<and> validate_ontology out = Inr () \<and>
    (\<forall>x. reconciles (resource_at out x) (resource_at b x) (resource_at l x) (resource_at r x)) \<and>
    (\<forall>k. k \<noteq> ''resources'' \<longrightarrow> reconciles (json_get out k) (json_get b k) (json_get l k) (json_get r k))"
  using merge_ontology_clean [OF assms] by blast

theorem merge_ontology_reconciles_witness:
  "\<exists>out. merge_ontology base_ontology left_ontology right_ontology = Inr \<lparr>mr_ontology = Some out, mr_conflicts = []\<rparr> \<and>
    validate_ontology out = Inr ()"
proof -
  have "case merge_ontology base_ontology left_ontology right_ontology of Inl _ \<Rightarrow> False | Inr v \<Rightarrow> mr_ontology v \<noteq> None"
    and wf: "wf_json base_ontology" "wf_json left_ontology" "wf_json right_ontology" by code_simp+
  then obtain v out where "merge_ontology base_ontology left_ontology right_ontology = Inr v" "mr_ontology v = Some out"
    by (auto split: sum.splits)
  then have run: "merge_ontology base_ontology left_ontology right_ontology =
      Inr \<lparr>mr_ontology = Some out, mr_conflicts = mr_conflicts v\<rparr>" by (cases v) simp
  from merge_ontology_reconciles [OF this wf] run show ?thesis by auto
qed

text \<open>
  C31. A slice contains exactly what was selected and, when dependencies are included, what is reachable from it over
  references, owners, parents, endpoints and owned properties, in the document's order; and it is a valid ontology.
\<close>

theorem slice_ontology_exact:
  assumes "slice_ontology doc ids kinds deps = Inr out" "parse_resources doc = Inr rs"
  shows "parse_resources out = Inr (slice_of rs ids kinds deps) \<and> ontology_ok (slice_of rs ids kinds deps)"
proof -
  from assms(2) obtain vs version where doc: "get_str doc ''version'' = Some version" "version \<noteq> []"
      "get_array doc ''resources'' = Some vs" "list_all2 parsed_as vs rs" "distinct (map r_id rs)"
    by (auto simp: parse_resources_iff)
  from assms(1) [unfolded slice_ontology_Inr [OF assms(2)]] doc obtain sel where
    "selection vs ids kinds deps = Inr sel" "ontology_ok (slice_of rs ids kinds deps)"
    "out = JObject [(''version'', JString version), (''resources'', JArray (filter (\<lambda>r.
         case get_str r ''resource_id'' of None \<Rightarrow> False | Some rid \<Rightarrow> rid \<in> set sel) vs))]" by auto
  then show ?thesis
    using parse_filtered [OF doc(4,5,2), of "set sel"] selection_set [OF doc(4,5)] by (simp add: slice_of_def)
qed

theorem slice_ontology_exact_witness:
  "\<exists>rs out. slice_ontology base_ontology [''l''] [] True = Inr out \<and> parse_resources base_ontology = Inr rs \<and>
    parse_resources out = Inr (slice_of rs [''l''] [] True)"
proof -
  have "\<not> isl (slice_ontology base_ontology [''l''] [] True)" "\<not> isl (parse_resources base_ontology)" by code_simp+
  then obtain out rs where run: "slice_ontology base_ontology [''l''] [] True = Inr out" "parse_resources base_ontology = Inr rs"
    by (cases "slice_ontology base_ontology [''l''] [] True"; cases "parse_resources base_ontology") auto
  from slice_ontology_exact [OF run] run show ?thesis by blast
qed

section \<open>Persistence\<close>




section \<open>The lakeFS store\<close>









text \<open>
  \<open>canonicalize\<close> does not reorder anything: on a document without repeated keys it is the identity, so that the content hash of
  an ontology depends on the order in which its keys were written.
\<close>

theorem canonicalize_identity:
  assumes "wf_json v"
  shows "canonicalize v = v"
  using assms
proof (induction v)
  case (JObject m)
  have vs: "map (\<lambda>(k, v). (k, canonicalize v)) m = m"
    using JObject by (intro map_idI) (fastforce simp: list_all_iff)
  have "fold (\<lambda>(k, v). json_insert k v) xs acc = acc @ xs" if "distinct (map fst (acc @ xs))" for xs acc
    using that
  proof (induction xs arbitrary: acc)
    case (Cons x xs)
    obtain k v where x: "x = (k, v)" by (cases x)
    have "map_of acc k = None" using Cons.prems by (auto simp: x map_of_eq_None_iff)
    then show ?case using Cons.IH [of "acc @ [(k, v)]"] Cons.prems by (simp add: x update_new)
  qed simp
  from this [of "[]" m] JObject show ?case by (simp add: vs)
next
  case (JArray xs)
  then show ?case by (simp add: list_all_iff map_idI)
qed simp_all

theorem canonicalize_identity_witness: "canonicalize base_ontology = base_ontology"
proof -
  have "wf_json base_ontology" by code_simp
  then show ?thesis by (rule canonicalize_identity)
qed

section \<open>Documents\<close>

text \<open>
  C24. A version identifies the content of a template: two sealed templates with the same version are the same template, byte for
  byte and with the same visibility, unless their texts collide in the digest.
\<close>

theorem version_binds_content:
  assumes "seal to_vec sha t = Inr t" "seal to_vec sha u = Inr u" "tpl_version t = tpl_version u"
    and "btree (tpl_variables t)" "btree (tpl_variables u)"
    and "sha (unsealed_text to_vec t) = sha (unsealed_text to_vec u) \<Longrightarrow> unsealed_text to_vec t = unsealed_text to_vec u"
    and "\<And>v w. to_vec v = to_vec w \<Longrightarrow> v = w"
  shows "t = u"
proof -
  have version: "tpl_version t = sha (unsealed_text to_vec t)" "tpl_version u = sha (unsealed_text to_vec u)"
    using seal_fields(9) [OF assms(1)] seal_fields(9) [OF assms(2)] by simp_all
  have sorted: "t\<lparr>tpl_assets := sort_key asset_path (tpl_assets t)\<rparr> = t" "u\<lparr>tpl_assets := sort_key asset_path (tpl_assets u)\<rparr> = u"
    by (simp_all add: seal_fields(10) [OF assms(1), symmetric] seal_fields(10) [OF assms(2), symmetric])
  have "unsealed_text to_vec t = unsealed_text to_vec u" using assms(3,6) version by simp
  then have "encode_template (t\<lparr>tpl_version := []\<rparr>) = encode_template (u\<lparr>tpl_version := []\<rparr>)"
    unfolding unsealed_text_def sorted by (rule assms(7))
  from arg_cong [OF this, of decode_template] have "t\<lparr>tpl_version := []\<rparr> = u\<lparr>tpl_version := []\<rparr>"
    unfolding decode_encode_template [of "t\<lparr>tpl_version := []\<rparr>", simplified, OF assms(4)]
      decode_encode_template [of "u\<lparr>tpl_version := []\<rparr>", simplified, OF assms(5)] by simp
  with assms(3) show ?thesis by (cases t; cases u) simp
qed

theorem version_binds_content_witness:
  "\<exists>t. seal print_json (\<lambda>x. x) letter_template = Inr t \<and>
     seal print_json (\<lambda>x. x) (letter_template\<lparr>tpl_assets := List.rev (tpl_assets letter_template), tpl_version := ''old''\<rparr>) = Inr t"
proof -
  let ?l = letter_template and ?r = "letter_template\<lparr>tpl_assets := List.rev (tpl_assets letter_template), tpl_version := ''old''\<rparr>"
  have "\<not> isl (seal print_json (\<lambda>x. x) ?l) \<and> \<not> isl (seal print_json (\<lambda>x. x) ?r) \<and>
    projr (seal print_json (\<lambda>x. x) ?l) = projr (seal print_json (\<lambda>x. x) ?r)" by code_simp
  then obtain t u where t: "seal print_json (\<lambda>x. x) ?l = Inr t" and u: "seal print_json (\<lambda>x. x) ?r = Inr u" and "t = u"
    by (cases "seal print_json (\<lambda>x. x) ?l"; cases "seal print_json (\<lambda>x. x) ?r") simp_all
  have "btree (tpl_variables t)" "btree (tpl_variables u)"
    unfolding seal_fields(8) [OF t] seal_fields(8) [OF u] by (simp_all add: letter_template_def btree_def)
  from version_binds_content [OF seal_fields(2) [OF t] seal_fields(2) [OF u] _ this] \<open>t = u\<close> have "t = u" using print_json_inject by blast
  with t u show ?thesis by blast
qed

end
